(* ===== verification/Prelude.thy ===== *)
theory Prelude
  imports Main "HOL-Library.Word"
begin

text \<open>
  Shared vocabulary of the development: Rust's text and integer types, the result type of
  fallible code, the collections the component proofs feed to the simplifier, and generic
  lemmas on lists, sums and words.

  A Rust \<^verbatim>\<open>char\<close> is a Unicode scalar value, here its number; a \<^verbatim>\<open>str\<close> is the list of its
  characters. The constant \<open>lit\<close> turns an Isabelle string literal into such a list. A byte is an
  8-bit word.
\<close>

section \<open>Types\<close>

type_synonym rchar = nat
type_synonym rstr = "rchar list"

type_synonym u8 = "8 word"
type_synonym u16 = "16 word"
type_synonym u32 = "32 word"
type_synonym u64 = "64 word"
type_synonym bytes = "u8 list"

text \<open>Fallible code returns \<open>Inl\<close> its error or \<open>Inr\<close> its value.\<close>

type_synonym ('e, 'a) result = "'e + 'a"

abbreviation Err :: "'e \<Rightarrow> ('e, 'a) result" where "Err \<equiv> Inl"
abbreviation Ok :: "'a \<Rightarrow> ('e, 'a) result" where "Ok \<equiv> Inr"

section \<open>Collections used by the component proofs\<close>

named_theorems str_simps \<open>evaluation of text literals and of the string scanners\<close>
named_theorems path_simps \<open>the file-name operations of the path model\<close>
named_theorems fs_simps \<open>the file-system operations\<close>

section \<open>Text literals\<close>

definition lit :: "string \<Rightarrow> rstr" where
  "lit s = map of_char s"

lemma lit_Nil [simp, str_simps]: "lit [] = []"
  by (simp add: lit_def)

lemma lit_Cons [str_simps]: "lit (c # cs) = of_char c # lit cs"
  by (simp add: lit_def)

lemma lit_eq_iff [simp]: "lit s = lit t \<longleftrightarrow> s = t"
proof -
  have "inj (of_char :: char \<Rightarrow> nat)" by (rule inj_of_char)
  then show ?thesis by (auto simp: lit_def inj_map_eq_map)
qed

lemma lit_eq_Nil [simp]: "lit s = [] \<longleftrightarrow> s = []" "[] = lit s \<longleftrightarrow> s = []"
  by (auto simp: lit_def)

lemma length_lit [simp]: "length (lit s) = length s"
  by (simp add: lit_def)

section \<open>Sequencing fallible code\<close>

text \<open>Rust's \<^verbatim>\<open>?\<close>: stop at the first error.\<close>

definition bind_result :: "('e, 'a) result \<Rightarrow> ('a \<Rightarrow> ('e, 'b) result) \<Rightarrow> ('e, 'b) result" where
  "bind_result r f = (case r of Inl e \<Rightarrow> Inl e | Inr a \<Rightarrow> f a)"

lemma bind_result_simps [simp]:
  "bind_result (Err e) f = Err e"
  "bind_result (Ok a) f = f a"
  by (simp_all add: bind_result_def)

lemma bind_result_Ok_iff:
  "bind_result r f = Ok b \<longleftrightarrow> (\<exists>a. r = Ok a \<and> f a = Ok b)"
  by (cases r) auto

lemma bind_result_OkE:
  assumes "bind_result r f = Ok b"
  obtains a where "r = Ok a" "f a = Ok b"
  using assms by (auto simp: bind_result_Ok_iff)

definition ok_or :: "'e \<Rightarrow> 'a option \<Rightarrow> ('e, 'a) result" where
  "ok_or e x = (case x of None \<Rightarrow> Err e | Some a \<Rightarrow> Ok a)"

lemma ok_or_simps [simp]: "ok_or e None = Err e" "ok_or e (Some a) = Ok a"
  by (simp_all add: ok_or_def)

section \<open>Lists\<close>

text \<open>The element at a position, or nothing past the end (\<^verbatim>\<open>slice::get\<close>).\<close>

definition nth_opt :: "'a list \<Rightarrow> nat \<Rightarrow> 'a option" where
  "nth_opt xs i = (if i < length xs then Some (xs ! i) else None)"

lemma nth_opt_Some_iff: "nth_opt xs i = Some x \<longleftrightarrow> i < length xs \<and> xs ! i = x"
  by (auto simp: nth_opt_def)

lemma nth_opt_update:
  "nth_opt (xs[i := x]) j = (if i = j \<and> i < length xs then Some x else nth_opt xs j)"
  by (auto simp: nth_opt_def)

lemma nth_opt_map: "nth_opt (map f xs) i = map_option f (nth_opt xs i)"
  by (simp add: nth_opt_def)

text \<open>Deleting a position (\<^verbatim>\<open>Vec::remove\<close> in range).\<close>

definition remove_nth :: "nat \<Rightarrow> 'a list \<Rightarrow> 'a list" where
  "remove_nth i xs = take i xs @ drop (Suc i) xs"

lemma takeWhile_append_stop:
  "(\<And>x. x \<in> set xs \<Longrightarrow> P x) \<Longrightarrow> \<not> P y \<Longrightarrow> takeWhile P (xs @ y # ys) = xs"
  by (induction xs) auto

lemma dropWhile_append_stop:
  "(\<And>x. x \<in> set xs \<Longrightarrow> P x) \<Longrightarrow> \<not> P y \<Longrightarrow> dropWhile P (xs @ y # ys) = y # ys"
  by (induction xs) auto

end
