(* ===== verification/Rust_Str.thy ===== *)
theory Rust_Str
  imports Prelude
begin

text \<open>
  The parts of Rust's standard library on \<^verbatim>\<open>str\<close> that both crates use: white space and
  \<^verbatim>\<open>trim\<close>, the \<^verbatim>\<open>FromStr\<close> instances of the integer types and of \<^verbatim>\<open>bool\<close>, decimal printing,
  splitting and joining. Integers are parsed as the library documents it: an optional sign,
  then at least one decimal digit, and an error where the value leaves the type's range.
\<close>

section \<open>Characters\<close>

text \<open>\<^verbatim>\<open>char::is_whitespace\<close>: the Unicode property White\_Space.\<close>

definition is_whitespace :: "rchar \<Rightarrow> bool" where
  "is_whitespace c \<longleftrightarrow>
     (9 \<le> c \<and> c \<le> 13) \<or> c = 32 \<or> c = 133 \<or> c = 160 \<or> c = 5760 \<or>
     (8192 \<le> c \<and> c \<le> 8202) \<or> c = 8232 \<or> c = 8233 \<or> c = 8239 \<or> c = 8287 \<or> c = 12288"

definition is_ascii_digit :: "rchar \<Rightarrow> bool" where
  "is_ascii_digit c \<longleftrightarrow> 48 \<le> c \<and> c \<le> 57"

definition is_ascii_alphanumeric :: "rchar \<Rightarrow> bool" where
  "is_ascii_alphanumeric c \<longleftrightarrow>
     (48 \<le> c \<and> c \<le> 57) \<or> (65 \<le> c \<and> c \<le> 90) \<or> (97 \<le> c \<and> c \<le> 122)"

lemmas char_class_defs = is_whitespace_def is_ascii_digit_def is_ascii_alphanumeric_def

section \<open>Trimming\<close>

definition trim :: "rstr \<Rightarrow> rstr" where
  "trim s = rev (dropWhile is_whitespace (rev (dropWhile is_whitespace s)))"

lemma trim_id:
  assumes "s = [] \<or> \<not> is_whitespace (hd s) \<and> \<not> is_whitespace (last s)"
  shows "trim s = s"
proof (cases "s = []")
  case True
  then show ?thesis by (simp add: trim_def)
next
  case False
  with assms have "dropWhile is_whitespace s = s"
    by (simp add: dropWhile_eq_self_iff)
  moreover from False assms have "dropWhile is_whitespace (rev s) = rev s"
    by (simp add: dropWhile_eq_self_iff hd_rev)
  ultimately show ?thesis by (simp add: trim_def)
qed

section \<open>Decimal numbers\<close>

definition dec_val :: "rstr \<Rightarrow> nat" where
  "dec_val ds = foldl (\<lambda>n c. 10 * n + (c - 48)) 0 ds"

fun show_nat :: "nat \<Rightarrow> rstr" where
  "show_nat n = (if n < 10 then [48 + n] else show_nat (n div 10) @ [48 + n mod 10])"

declare show_nat.simps [simp del]

definition show_int :: "int \<Rightarrow> rstr" where
  "show_int i = (if i < 0 then 45 # show_nat (nat (- i)) else show_nat (nat i))"

lemma dec_val_snoc: "dec_val (ds @ [c]) = 10 * dec_val ds + (c - 48)"
  by (simp add: dec_val_def)

lemma show_nat_digits: "\<forall>c \<in> set (show_nat n). is_ascii_digit c"
proof (induction n rule: show_nat.induct)
  case (1 n)
  have "is_ascii_digit (48 + n mod 10)" by (simp add: is_ascii_digit_def)
  with 1 show ?case
    by (cases "n < 10") (simp_all add: show_nat.simps [of n] is_ascii_digit_def)
qed

lemma show_nat_nonempty [simp]: "show_nat n \<noteq> []"
  by (subst show_nat.simps) simp

lemma dec_val_show_nat [simp]: "dec_val (show_nat n) = n"
proof (induction n rule: show_nat.induct)
  case (1 n)
  show ?case
  proof (cases "n < 10")
    case True
    then show ?thesis by (simp add: show_nat.simps [of n] dec_val_def)
  next
    case False
    with 1 show ?thesis
      by (simp add: show_nat.simps [of n] dec_val_snoc mult_div_mod_eq)
  qed
qed

lemma show_nat_inject [simp]: "show_nat m = show_nat n \<longleftrightarrow> m = n"
  by (metis dec_val_show_nat)

text \<open>Bounds of the machine types the source parses into (64-bit targets).\<close>

definition usize_max :: nat where "usize_max = 2 ^ 64 - 1"
definition i64_min :: int where "i64_min = - (2 ^ 63)"
definition i64_max :: int where "i64_max = 2 ^ 63 - 1"

text \<open>The unsigned digits after an optional sign has been split off.\<close>

definition parse_digits :: "rstr \<Rightarrow> nat option" where
  "parse_digits ds = (if ds \<noteq> [] \<and> list_all is_ascii_digit ds then Some (dec_val ds) else None)"

text \<open>\<^verbatim>\<open>str::parse::<usize>\<close>: a leading plus sign is accepted, a minus sign is not.\<close>

definition parse_usize :: "rstr \<Rightarrow> nat option" where
  "parse_usize s =
     (let ds = (case s of [] \<Rightarrow> [] | c # cs \<Rightarrow> if c = 43 then cs else s)
      in case parse_digits ds of
           None \<Rightarrow> None
         | Some n \<Rightarrow> if n \<le> usize_max then Some n else None)"

text \<open>\<^verbatim>\<open>str::parse::<i64>\<close>.\<close>

definition parse_i64 :: "rstr \<Rightarrow> int option" where
  "parse_i64 s =
     (let (neg, ds) = (case s of [] \<Rightarrow> (False, [])
                       | c # cs \<Rightarrow> if c = 45 then (True, cs)
                                 else if c = 43 then (False, cs) else (False, s))
      in case parse_digits ds of
           None \<Rightarrow> None
         | Some n \<Rightarrow> (let i = (if neg then - int n else int n)
                     in if i64_min \<le> i \<and> i \<le> i64_max then Some i else None))"

text \<open>\<^verbatim>\<open>str::parse::<bool>\<close> knows exactly the two lower-case words.\<close>

definition parse_bool :: "rstr \<Rightarrow> bool option" where
  "parse_bool s = (if s = lit ''true'' then Some True
                   else if s = lit ''false'' then Some False else None)"

lemma parse_digits_show_nat [simp]: "parse_digits (show_nat n) = Some n"
  using show_nat_digits [of n] by (simp add: parse_digits_def list_all_iff)

lemma parse_usize_digits:
  assumes "list_all is_ascii_digit ds"
  shows "parse_usize ds = (if ds \<noteq> [] \<and> dec_val ds \<le> usize_max then Some (dec_val ds) else None)"
proof (cases ds)
  case Nil
  then show ?thesis by (simp add: parse_usize_def parse_digits_def)
next
  case (Cons c cs)
  with assms have "c \<noteq> 43" by (auto simp: is_ascii_digit_def)
  with Cons assms show ?thesis by (simp add: parse_usize_def parse_digits_def)
qed

lemma parse_usize_show_nat: "n \<le> usize_max \<Longrightarrow> parse_usize (show_nat n) = Some n"
  using show_nat_digits [of n] by (simp add: parse_usize_digits list_all_iff)

lemma parse_usize_bound: "parse_usize s = Some n \<Longrightarrow> n \<le> usize_max"
  by (auto simp: parse_usize_def Let_def split: option.splits if_splits list.splits)

lemma parse_i64_bounds: "parse_i64 s = Some i \<Longrightarrow> i64_min \<le> i \<and> i \<le> i64_max"
  by (auto simp: parse_i64_def Let_def split: option.splits if_splits list.splits prod.splits)

lemma show_nat_hd_digit: "is_ascii_digit (hd (show_nat n))"
  using show_nat_digits [of n] by (metis hd_in_set show_nat_nonempty)

lemma parse_i64_show_int:
  assumes "i64_min \<le> i" "i \<le> i64_max"
  shows "parse_i64 (show_int i) = Some i"
proof (cases "i < 0")
  case True
  with assms show ?thesis by (simp add: show_int_def parse_i64_def)
next
  case False
  obtain c cs where s: "show_nat (nat i) = c # cs" by (cases "show_nat (nat i)") auto
  have "is_ascii_digit c" using show_nat_hd_digit [of "nat i"] s by simp
  then have "c \<noteq> 45" "c \<noteq> 43" by (auto simp: is_ascii_digit_def)
  with False assms s parse_digits_show_nat [of "nat i"] show ?thesis
    by (simp add: show_int_def parse_i64_def)
qed

section \<open>Splitting and joining\<close>

text \<open>\<^verbatim>\<open>str::split_whitespace\<close>: the maximal runs of characters that are not white space.\<close>

function split_whitespace :: "rstr \<Rightarrow> rstr list" where
  "split_whitespace s =
     (case dropWhile is_whitespace s of
        [] \<Rightarrow> []
      | c # cs \<Rightarrow> (c # takeWhile (\<lambda>x. \<not> is_whitespace x) cs) #
                 split_whitespace (dropWhile (\<lambda>x. \<not> is_whitespace x) cs))"
  by pat_completeness auto
termination
proof (relation "measure length")
  fix s :: rstr and c cs
  assume a: "dropWhile is_whitespace s = c # cs"
  have "length (dropWhile (\<lambda>x. \<not> is_whitespace x) cs) \<le> length cs" by (rule length_dropWhile_le)
  also have "length cs < length (dropWhile is_whitespace s)" using a by simp
  also have "\<dots> \<le> length s" by (rule length_dropWhile_le)
  finally show "(dropWhile (\<lambda>x. \<not> is_whitespace x) cs, s) \<in> measure length" by simp
qed simp

declare split_whitespace.simps [simp del]

text \<open>
  \<^verbatim>\<open>str::lines\<close>: split at line feeds, drop a carriage return before one, and no empty last
  line after a trailing line feed.
\<close>

definition strip_cr :: "rstr \<Rightarrow> rstr" where
  "strip_cr l = (if l \<noteq> [] \<and> last l = 13 then butlast l else l)"

function lines :: "rstr \<Rightarrow> rstr list" where
  "lines s =
     (if s = [] then []
      else case dropWhile (\<lambda>c. c \<noteq> 10) s of
             [] \<Rightarrow> [s]
           | _ # rest \<Rightarrow> strip_cr (takeWhile (\<lambda>c. c \<noteq> 10) s) # lines rest)"
  by pat_completeness auto
termination
proof (relation "measure length")
  fix s :: rstr and c rest
  assume a: "dropWhile (\<lambda>c. c \<noteq> 10) s = c # rest"
  have "length rest < length (dropWhile (\<lambda>c. c \<noteq> 10) s)" using a by simp
  also have "\<dots> \<le> length s" by (rule length_dropWhile_le)
  finally show "(rest, s) \<in> measure length" by simp
qed simp

declare lines.simps [simp del]

text \<open>Appending whole lines appends to the list of lines.\<close>

lemma lines_Nil [simp]: "lines [] = []"
  by (simp add: lines.simps)

lemma lines_line:
  assumes "10 \<notin> set t" and "t = [] \<or> last t \<noteq> 13"
  shows "lines (t @ 10 # s) = t # lines s"
proof -
  have "takeWhile (\<lambda>c. c \<noteq> 10) (t @ 10 # s) = t" "dropWhile (\<lambda>c. c \<noteq> 10) (t @ 10 # s) = 10 # s"
    using assms(1) by (auto intro!: takeWhile_append_stop dropWhile_append_stop)
  with assms(2) show ?thesis by (subst lines.simps) (auto simp: strip_cr_def)
qed

lemma lines_append:
  assumes "old = [] \<or> last old = 10"
  shows "lines (old @ s) = lines old @ lines s"
  using assms
proof (induction old rule: lines.induct)
  case (1 old)
  show ?case
  proof (cases "old = []")
    case False
    then have l: "last old = 10" "10 \<in> set old" using 1(2) last_in_set by force+
    then obtain t r where old: "old = t @ 10 # r" "10 \<notin> set t" by (metis split_list_first)
    have tw: "takeWhile (\<lambda>c. c \<noteq> 10) (t @ 10 # x) = t" and dw: "dropWhile (\<lambda>c. c \<noteq> 10) (t @ 10 # x) = 10 # x" for x
      using old(2) by (auto intro!: takeWhile_append_stop dropWhile_append_stop)
    have "lines (t @ 10 # x) = strip_cr t # lines x" for x by (subst lines.simps) (simp add: tw dw)
    moreover have "r = [] \<or> last r = 10" using l(1) old(1) by (cases "r = []") auto
    ultimately show ?thesis using 1(1) [OF False, of 10 r] old dw by simp
  qed simp
qed

lemma lines_append_lines:
  assumes "list_all (\<lambda>t. 10 \<notin> set t \<and> (t = [] \<or> last t \<noteq> 13)) ts" and "old = [] \<or> last old = 10"
  shows "lines (old @ concat (map (\<lambda>t. t @ [10]) ts)) = lines old @ ts"
proof -
  have "lines (concat (map (\<lambda>t. t @ [10]) ts)) = ts"
    using assms(1) by (induction ts) (simp_all add: lines_line)
  with lines_append [OF assms(2)] show ?thesis by simp
qed

text \<open>\<^verbatim>\<open>str::split(c).next()\<close>: the text before the first occurrence of a character.\<close>

definition before_char :: "rchar \<Rightarrow> rstr \<Rightarrow> rstr" where
  "before_char c s = takeWhile (\<lambda>x. x \<noteq> c) s"

definition strip_prefix :: "rstr \<Rightarrow> rstr \<Rightarrow> rstr option" where
  "strip_prefix p s = (if take (length p) s = p then Some (drop (length p) s) else None)"

lemma strip_prefix_append [simp]: "strip_prefix p (p @ s) = Some s"
  by (simp add: strip_prefix_def)

text \<open>\<^verbatim>\<open>[String]::join\<close>.\<close>

fun join :: "rstr \<Rightarrow> rstr list \<Rightarrow> rstr" where
  "join sep [] = []"
| "join sep [x] = x"
| "join sep (x # y # ys) = x @ sep @ join sep (y # ys)"

end
