(* ===== verification/Toml_Value.thy ===== *)
theory Toml_Value
  imports Rust_Str
begin

text \<open>
  The value tree of the \<^verbatim>\<open>toml\<close> crate as the source uses it: the enum \<^verbatim>\<open>toml::Value\<close> with its
  constructors. A table is the list of its entries in iteration order, an integer the value of
  an \<^verbatim>\<open>i64\<close>, a float its 64-bit pattern, a date-time its text. The parser and the printers of the
  crate are parameters of the definitions that call them.
\<close>

type_synonym f64 = "64 word"

datatype toml_value =
    TString rstr
  | TInteger int
  | TFloat f64
  | TBoolean bool
  | TDatetime rstr
  | TArray "toml_value list"
  | TTable "(rstr \<times> toml_value) list"

type_synonym toml_table = "(rstr \<times> toml_value) list"

fun as_table :: "toml_value \<Rightarrow> toml_table option" where
  "as_table (TTable t) = Some t"
| "as_table _ = None"

fun as_array :: "toml_value \<Rightarrow> toml_value list option" where
  "as_array (TArray a) = Some a"
| "as_array _ = None"

fun as_bool :: "toml_value \<Rightarrow> bool option" where
  "as_bool (TBoolean b) = Some b"
| "as_bool _ = None"

lemma as_table_Some_iff [simp]: "as_table v = Some t \<longleftrightarrow> v = TTable t"
  by (cases v) auto

lemma as_array_Some_iff [simp]: "as_array v = Some a \<longleftrightarrow> v = TArray a"
  by (cases v) auto

lemma as_bool_Some_iff [simp]: "as_bool v = Some b \<longleftrightarrow> v = TBoolean b"
  by (cases v) auto

end
