(* ===== verification/Key_Path.thy ===== *)
theory Key_Path
  imports Toml_Value
begin

text \<open>
  Dotted key paths, \<^verbatim>\<open>zebrafish-config/src/path.rs\<close>: the scanner of \<^verbatim>\<open>KeyPath::parse\<close>, the
  accessors, and the walk of a path through a value tree. The scanner is proved equivalent to a
  declarative grammar of paths, and the usual spelling of a path is proved to parse back to it.
\<close>

section \<open>Data\<close>

datatype segment = Field rstr | Index nat

record key_path =
  kp_segments :: "segment list"

abbreviation char_dot :: rchar where "char_dot \<equiv> 46"
abbreviation char_lbracket :: rchar where "char_lbracket \<equiv> 91"
abbreviation char_rbracket :: rchar where "char_rbracket \<equiv> 93"

section \<open>The scanner\<close>

text \<open>
  \<open>push_field\<close> is the guarded \<^verbatim>\<open>segments.push(Segment::Field(take(&mut current)))\<close>; the buffer is
  empty after it in either case. The loop returns the segments, the buffer, the flag
  \<^verbatim>\<open>in_index\<close> and the flag \<^verbatim>\<open>bad\<close>, which is set where the source breaks out of the loop.
\<close>

definition push_field :: "segment list \<Rightarrow> rstr \<Rightarrow> segment list" where
  "push_field segments current = (if current \<noteq> [] then segments @ [Field current] else segments)"

fun parse_loop ::
  "rstr \<Rightarrow> segment list \<Rightarrow> rstr \<Rightarrow> bool \<Rightarrow> segment list \<times> rstr \<times> bool \<times> bool" where
  "parse_loop [] segments current in_index = (segments, current, in_index, False)"
| "parse_loop (c # chars) segments current in_index =
     (if c = char_dot then
        (if in_index then (segments, current, in_index, True)
         else parse_loop chars (push_field segments current) [] in_index)
      else if c = char_lbracket then
        (if in_index then (segments, current, in_index, True)
         else parse_loop chars (push_field segments current) [] True)
      else if c = char_rbracket then
        (if \<not> in_index then (segments, current, in_index, True)
         else case parse_usize current of
                None \<Rightarrow> (segments, current, in_index, True)
              | Some idx \<Rightarrow> parse_loop chars (segments @ [Index idx]) [] False)
      else if in_index then
        (if \<not> is_ascii_digit c then (segments, current, in_index, True)
         else parse_loop chars segments (current @ [c]) in_index)
      else parse_loop chars segments (current @ [c]) in_index)"

definition parse_finish :: "segment list \<times> rstr \<times> bool \<times> bool \<Rightarrow> segment list option" where
  "parse_finish r =
     (case r of (segments, current, in_index, bad) \<Rightarrow>
        if bad \<or> in_index then None else Some (push_field segments current))"

definition parse :: "rstr \<Rightarrow> key_path option" where
  "parse s0 =
     (let s = trim s0
      in if s = [] then None
         else case parse_finish (parse_loop s [] [] False) of
                None \<Rightarrow> None
              | Some segments \<Rightarrow>
                  if segments = [] then None else Some \<lparr>kp_segments = segments\<rparr>)"

definition section_of :: "key_path \<Rightarrow> rstr option" where
  "section_of kp =
     (case kp_segments kp of
        [] \<Rightarrow> None
      | Field name # _ \<Rightarrow> Some name
      | Index _ # _ \<Rightarrow> None)"

fun walk_segments :: "segment list \<Rightarrow> toml_value \<Rightarrow> toml_value option" where
  "walk_segments [] v = Some v"
| "walk_segments (Field name # tail) v =
     (case as_table v of
        None \<Rightarrow> None
      | Some table \<Rightarrow>
          (case map_of table name of None \<Rightarrow> None | Some nxt \<Rightarrow> walk_segments tail nxt))"
| "walk_segments (Index i # tail) v =
     (case as_array v of
        None \<Rightarrow> None
      | Some arr \<Rightarrow>
          (case nth_opt arr i of None \<Rightarrow> None | Some nxt \<Rightarrow> walk_segments tail nxt))"

section \<open>The grammar of key paths\<close>

definition plain_char :: "rchar \<Rightarrow> bool" where
  "plain_char c \<longleftrightarrow> c \<noteq> char_dot \<and> c \<noteq> char_lbracket \<and> c \<noteq> char_rbracket"

definition field_end :: "rstr \<Rightarrow> bool" where
  "field_end s \<longleftrightarrow> s = [] \<or> hd s = char_dot \<or> hd s = char_lbracket"

text \<open>
  A path is a sequence of fields and bracketed indices with dots anywhere outside the brackets;
  a field is a maximal run of characters other than dots and brackets.
\<close>

inductive path_text :: "rstr \<Rightarrow> segment list \<Rightarrow> bool" where
  empty_path: "path_text [] []"
| dot_path: "path_text s p \<Longrightarrow> path_text (char_dot # s) p"
| field_path: "f \<noteq> [] \<Longrightarrow> list_all plain_char f \<Longrightarrow> field_end s \<Longrightarrow> path_text s p \<Longrightarrow>
     path_text (f @ s) (Field f # p)"
| index_path: "ds \<noteq> [] \<Longrightarrow> list_all is_ascii_digit ds \<Longrightarrow> dec_val ds \<le> usize_max \<Longrightarrow>
     path_text s p \<Longrightarrow>
     path_text (char_lbracket # ds @ char_rbracket # s) (Index (dec_val ds) # p)"

lemma digit_plain: "is_ascii_digit c \<Longrightarrow> plain_char c"
  by (auto simp: is_ascii_digit_def plain_char_def)

lemma parse_loop_plain:
  "list_all plain_char f \<Longrightarrow>
   parse_loop (f @ s) segments current False = parse_loop s segments (current @ f) False"
  by (induction f arbitrary: current) (auto simp: plain_char_def)

lemma parse_loop_digits:
  "list_all is_ascii_digit ds \<Longrightarrow>
   parse_loop (ds @ s) segments current True = parse_loop s segments (current @ ds) True"
proof (induction ds arbitrary: current)
  case (Cons d ds)
  then have "plain_char d" by (simp add: digit_plain)
  with Cons show ?case by (simp add: plain_char_def)
qed simp

text \<open>Every text of the grammar is scanned to its segments.\<close>

lemma path_text_scanned:
  "path_text s p \<Longrightarrow> parse_finish (parse_loop s segments [] False) = Some (segments @ p)"
proof (induction arbitrary: segments rule: path_text.induct)
  case empty_path
  show ?case by (simp add: parse_finish_def push_field_def)
next
  case (dot_path s p)
  then show ?case by (simp add: push_field_def)
next
  case (field_path f s p)
  have "parse_finish (parse_loop s segments f False) =
        parse_finish (parse_loop s (segments @ [Field f]) [] False)"
    using field_path.hyps(1,3)
    by (cases s) (auto simp: field_end_def push_field_def parse_finish_def)
  with field_path show ?case by (simp add: parse_loop_plain)
next
  case (index_path ds s p)
  then show ?case
    by (simp add: parse_loop_digits parse_usize_digits push_field_def)
qed

lemma scanned_char_cases:
  assumes "parse_finish (parse_loop (c # chars) segments current in_index) = Some q"
  obtains (dot) "c = char_dot" "\<not> in_index"
    | (open_idx) "c = char_lbracket" "\<not> in_index"
    | (close_idx) n where "c = char_rbracket" "in_index" "parse_usize current = Some n"
    | (digit) "plain_char c" "in_index" "is_ascii_digit c"
    | (plain) "plain_char c" "\<not> in_index"
  using assms by (auto simp: parse_finish_def plain_char_def split: if_splits option.splits)

text \<open>
  Conversely a scan that succeeds read a text of the grammar; the buffer is part of that text,
  after an opening bracket when the scanner is inside an index.
\<close>

lemma scanned_path_text:
  "parse_finish (parse_loop s segments current in_index) = Some q \<Longrightarrow>
   (in_index \<longrightarrow> list_all is_ascii_digit current) \<Longrightarrow>
   (\<not> in_index \<longrightarrow> list_all plain_char current) \<Longrightarrow>
   \<exists>p. q = segments @ p \<and>
       path_text ((if in_index then [char_lbracket] else []) @ current @ s) p"
proof (induction s segments current in_index rule: parse_loop.induct)
  case (1 segments current in_index)
  then have q: "\<not> in_index" "q = push_field segments current"
    by (auto simp: parse_finish_def split: if_splits)
  have "current \<noteq> [] \<Longrightarrow> path_text (current @ []) [Field current]"
    using 1(3) q(1) by (intro field_path) (auto simp: field_end_def empty_path)
  with q show ?case by (auto simp: push_field_def empty_path)
next
  case (2 c chars segments current in_index)
  have field: "current \<noteq> [] \<Longrightarrow> \<not> in_index \<Longrightarrow> field_end s \<Longrightarrow> path_text s p \<Longrightarrow>
      path_text (current @ s) (Field current # p)" for s p
    using 2(8) by (intro field_path) auto
  from 2(6) show ?case
  proof (cases rule: scanned_char_cases)
    case dot
    with 2(1,6) obtain p where p: "q = push_field segments current @ p" "path_text chars p"
      by auto
    from p(2) have "path_text (char_dot # chars) p" by (rule dot_path)
    with dot p(1) field [of "char_dot # chars" p] show ?thesis
      by (auto simp: push_field_def field_end_def)
  next
    case open_idx
    with 2(2,6) obtain p where
      p: "q = push_field segments current @ p" "path_text (char_lbracket # chars) p" by auto
    with open_idx field [of "char_lbracket # chars" p] show ?thesis
      by (auto simp: push_field_def field_end_def)
  next
    case (close_idx n)
    with 2(3,6) obtain p where p: "q = (segments @ [Index n]) @ p" "path_text chars p" by auto
    from close_idx 2(7) have "current \<noteq> []" "dec_val current = n" "n \<le> usize_max"
      by (auto simp: parse_usize_digits split: if_splits)
    with p close_idx 2(7) show ?thesis
      using index_path [of current chars p] by auto
  next
    case digit
    with 2(4,6,7) show ?thesis by (auto simp: plain_char_def)
  next
    case plain
    with 2(5,6,8) show ?thesis by (auto simp: plain_char_def)
  qed
qed

lemma parse_loop_iff_path_text:
  "parse_finish (parse_loop s [] [] False) = Some p \<longleftrightarrow> path_text s p"
  using path_text_scanned [of s p "[]"] scanned_path_text [of s "[]" "[]" False p] by auto

section \<open>Well-formed paths and their usual spelling\<close>

fun wf_segment :: "segment \<Rightarrow> bool" where
  "wf_segment (Field f) \<longleftrightarrow> f \<noteq> [] \<and> list_all plain_char f"
| "wf_segment (Index i) \<longleftrightarrow> i \<le> usize_max"

lemma path_text_wf: "path_text s p \<Longrightarrow> list_all wf_segment p"
  by (induction rule: path_text.induct) auto

text \<open>
  The spelling used throughout the documentation: indices in brackets, a dot before every field
  but the first.
\<close>

fun render_tail :: "segment list \<Rightarrow> rstr" where
  "render_tail [] = []"
| "render_tail (Field f # p) = char_dot # f @ render_tail p"
| "render_tail (Index i # p) = char_lbracket # show_nat i @ char_rbracket # render_tail p"

fun render :: "segment list \<Rightarrow> rstr" where
  "render (Field f # p) = f @ render_tail p"
| "render p = render_tail p"

lemma field_end_render_tail: "field_end (render_tail p)"
  by (cases p rule: render_tail.cases) (auto simp: field_end_def)

lemma path_text_render_tail: "list_all wf_segment p \<Longrightarrow> path_text (render_tail p) p"
proof (induction p rule: render_tail.induct)
  case (2 f p)
  then show ?case by (auto intro!: dot_path field_path field_end_render_tail)
next
  case (3 i p)
  have "list_all is_ascii_digit (show_nat i)" using show_nat_digits by (simp add: list_all_iff)
  with 3 index_path [of "show_nat i" "render_tail p" p] show ?case by simp
qed (auto intro: empty_path)

lemma path_text_render:
  assumes "list_all wf_segment p"
  shows "path_text (render p) p"
proof (cases "\<exists>f p'. p = Field f # p'")
  case True
  with assms show ?thesis
    by (auto intro!: field_path field_end_render_tail path_text_render_tail)
next
  case False
  then have "render p = render_tail p" by (cases p rule: render.cases) auto
  with assms show ?thesis by (simp add: path_text_render_tail)
qed

lemma render_nonempty: "list_all wf_segment p \<Longrightarrow> p \<noteq> [] \<Longrightarrow> render p \<noteq> []"
  by (cases p rule: render.cases) auto

section \<open>Properties\<close>

text \<open>
  C10. \<^verbatim>\<open>KeyPath::parse\<close> accepts exactly the texts that, once trimmed, are spelled by the grammar
  of key paths with at least one segment, and returns the segments the grammar reads.
\<close>

theorem parse_iff_path_text:
  "parse s = Some kp \<longleftrightarrow> kp_segments kp \<noteq> [] \<and> path_text (trim s) (kp_segments kp)"
proof -
  have empty: "path_text [] p \<Longrightarrow> p = []" for p
    using path_text_scanned [of "[]" p "[]"] by (simp add: parse_finish_def push_field_def)
  have "parse s = Some kp \<longleftrightarrow>
        trim s \<noteq> [] \<and> kp_segments kp \<noteq> [] \<and> path_text (trim s) (kp_segments kp)"
    by (cases kp)
       (auto simp: parse_def Let_def parse_loop_iff_path_text [symmetric] split: option.splits)
  with empty show ?thesis by auto
qed

text \<open>
  Spelling a well-formed path that neither starts nor ends in white space and parsing the
  text gives the path back.
\<close>

lemma parse_render:
  assumes "list_all wf_segment p" and "p \<noteq> []"
    and "\<not> is_whitespace (hd (render p))" and "\<not> is_whitespace (last (render p))"
  shows "parse (render p) = Some \<lparr>kp_segments = p\<rparr>"
proof -
  have "trim (render p) = render p" using assms(3,4) by (intro trim_id) simp
  moreover have "parse_finish (parse_loop (render p) [] [] False) = Some p"
    using path_text_render [OF assms(1)] by (simp add: parse_loop_iff_path_text)
  ultimately show ?thesis
    using assms(2) render_nonempty [OF assms(1,2)] by (simp add: parse_def)
qed

text \<open>
  C40. Every path the parser returns is non-empty and well-formed: its fields are non-empty and
  free of dots and brackets, and its indices fit into a \<^verbatim>\<open>usize\<close>.
\<close>

theorem parse_wf:
  assumes "parse s = Some kp"
  shows "kp_segments kp \<noteq> [] \<and> list_all wf_segment (kp_segments kp)"
proof -
  from assms have "parse_finish (parse_loop (trim s) [] [] False) = Some (kp_segments kp)"
    and "kp_segments kp \<noteq> []"
    by (auto simp: parse_def Let_def split: option.splits if_splits)
  then show ?thesis by (simp add: parse_loop_iff_path_text path_text_wf)
qed

theorem parse_wf_witness:
  "kp_segments \<lparr>kp_segments = [Field (lit ''ipv4''), Field (lit ''dns''), Index 1]\<rparr> \<noteq> [] \<and>
   list_all wf_segment
     (kp_segments \<lparr>kp_segments = [Field (lit ''ipv4''), Field (lit ''dns''), Index 1]\<rparr>)"
  by (rule parse_wf [of "lit '' ipv4.dns[1]''"])
     (simp add: parse_def trim_def str_simps is_whitespace_def push_field_def parse_finish_def
        parse_usize_def parse_digits_def is_ascii_digit_def dec_val_def usize_max_def)

lemma walk_segments_append:
  "walk_segments (p @ q) v =
     (case walk_segments p v of None \<Rightarrow> None | Some w \<Rightarrow> walk_segments q w)"
  by (induction p v rule: walk_segments.induct) (auto split: option.splits)

end
