(* ===== verification/Schema.thy ===== *)
theory Schema
  imports Key_Path "HOL-Library.List_Lexorder" "HOL-Library.Monad_Syntax"
begin

text \<open>
  \<^verbatim>\<open>zebrafish-config/src/schema.rs\<close>: the configuration structures, their serialisation into a value
  tree and their deserialisation, as the derived \<^verbatim>\<open>serde\<close> instances with the source's attributes do it:
  \<^verbatim>\<open>default\<close> (a missing field takes the default), \<^verbatim>\<open>skip_serializing_if\<close>, \<^verbatim>\<open>rename\<close>, a missing field without
  \<^verbatim>\<open>default\<close> is an error, an unknown field is ignored, an integer outside the field's type is an error.
  A derived structure also accepts a sequence of its fields in declaration order. The value
  trees are built with the crate's default table, which iterates in key order.

  Deserialisation gives \<open>None\<close> where the source reports an error; the messages are not modelled.
\<close>

section \<open>Field codecs\<close>

fun de_string :: "toml_value \<Rightarrow> rstr option" where
  "de_string (TString s) = Some s"
| "de_string _ = None"

fun de_uint :: "toml_value \<Rightarrow> ('w :: len) word option" where
  "de_uint (TInteger i :: toml_value) =
     (if 0 \<le> i \<and> i < 2 ^ LENGTH('w) then Some (word_of_int i :: 'w word) else None)"
| "de_uint _ = None"

definition ser_uint :: "('w :: len) word \<Rightarrow> toml_value" where
  "ser_uint w = TInteger (uint w)"

fun de_all :: "(toml_value \<Rightarrow> 'a option) \<Rightarrow> toml_value list \<Rightarrow> 'a list option" where
  "de_all de [] = Some []"
| "de_all de (v # vs) =
     (case de v of
        None \<Rightarrow> None
      | Some x \<Rightarrow> (case de_all de vs of None \<Rightarrow> None | Some xs \<Rightarrow> Some (x # xs)))"

fun de_vec :: "(toml_value \<Rightarrow> 'a option) \<Rightarrow> toml_value \<Rightarrow> 'a list option" where
  "de_vec de (TArray vs) = de_all de vs"
| "de_vec de _ = None"

definition ser_vec :: "('a \<Rightarrow> toml_value) \<Rightarrow> 'a list \<Rightarrow> toml_value" where
  "ser_vec ser xs = TArray (map ser xs)"

text \<open>What a structure's visitor sees of each field.\<close>

fun fields_of :: "rstr list \<Rightarrow> toml_value \<Rightarrow> (rstr \<Rightarrow> toml_value option) option" where
  "fields_of names (TTable t) = Some (map_of t)"
| "fields_of names (TArray vs) = Some (map_of (zip names vs))"
| "fields_of names _ = None"

definition req_field :: "(rstr \<Rightarrow> toml_value option) \<Rightarrow> rstr \<Rightarrow> (toml_value \<Rightarrow> 'a option) \<Rightarrow> 'a option" where
  "req_field fs name de = (case fs name of None \<Rightarrow> None | Some v \<Rightarrow> de v)"

definition opt_field ::
  "(rstr \<Rightarrow> toml_value option) \<Rightarrow> rstr \<Rightarrow> (toml_value \<Rightarrow> 'a option) \<Rightarrow> 'a option option" where
  "opt_field fs name de =
     (case fs name of
        None \<Rightarrow> Some None
      | Some v \<Rightarrow> (case de v of None \<Rightarrow> None | Some x \<Rightarrow> Some (Some x)))"

definition default_field ::
  "'a \<Rightarrow> (rstr \<Rightarrow> toml_value option) \<Rightarrow> rstr \<Rightarrow> (toml_value \<Rightarrow> 'a option) \<Rightarrow> 'a option" where
  "default_field d fs name de = (case fs name of None \<Rightarrow> Some d | Some v \<Rightarrow> de v)"

abbreviation vec_field ::
  "(rstr \<Rightarrow> toml_value option) \<Rightarrow> rstr \<Rightarrow> (toml_value \<Rightarrow> 'a option) \<Rightarrow> 'a list option" where
  "vec_field fs name de \<equiv> default_field [] fs name (de_vec de)"

text \<open>The entries a field contributes, and the table of a structure.\<close>

definition put_req :: "rstr \<Rightarrow> toml_value \<Rightarrow> toml_table" where
  "put_req name v = [(name, v)]"

definition put_opt :: "rstr \<Rightarrow> ('a \<Rightarrow> toml_value) \<Rightarrow> 'a option \<Rightarrow> toml_table" where
  "put_opt name ser x = (case x of None \<Rightarrow> [] | Some a \<Rightarrow> [(name, ser a)])"

definition put_vec :: "rstr \<Rightarrow> ('a \<Rightarrow> toml_value) \<Rightarrow> 'a list \<Rightarrow> toml_table" where
  "put_vec name ser xs = (if xs = [] then [] else [(name, ser_vec ser xs)])"

definition ser_struct :: "toml_table list \<Rightarrow> toml_value" where
  "ser_struct entries = TTable (sort_key fst (concat entries))"

section \<open>The structures\<close>

record machine_cfg =
  mc_id :: rstr

definition ser_machine :: "machine_cfg \<Rightarrow> toml_value" where
  "ser_machine c = ser_struct [
     put_req (lit ''id'') (TString (mc_id c))]"

definition de_machine :: "toml_value \<Rightarrow> machine_cfg option" where
  "de_machine v = do {
     fs \<leftarrow> fields_of [lit ''id''] v;
     x_id \<leftarrow> req_field fs (lit ''id'') de_string;
     Some \<lparr>mc_id = x_id\<rparr> }"

record console_cfg =
  co_keymap :: "rstr option"
  co_font :: "rstr option"

definition ser_console :: "console_cfg \<Rightarrow> toml_value" where
  "ser_console c = ser_struct [
     put_opt (lit ''keymap'') TString (co_keymap c),
     put_opt (lit ''font'') TString (co_font c)]"

definition de_console :: "toml_value \<Rightarrow> console_cfg option" where
  "de_console v = do {
     fs \<leftarrow> fields_of [lit ''keymap'', lit ''font''] v;
     x_keymap \<leftarrow> opt_field fs (lit ''keymap'') de_string;
     x_font \<leftarrow> opt_field fs (lit ''font'') de_string;
     Some \<lparr>co_keymap = x_keymap, co_font = x_font\<rparr> }"

record flag_cfg =
  fl_enabled :: bool

definition ser_flag :: "flag_cfg \<Rightarrow> toml_value" where
  "ser_flag c = ser_struct [
     put_req (lit ''enabled'') (TBoolean (fl_enabled c))]"

definition de_flag :: "toml_value \<Rightarrow> flag_cfg option" where
  "de_flag v = do {
     fs \<leftarrow> fields_of [lit ''enabled''] v;
     x_enabled \<leftarrow> default_field False fs (lit ''enabled'') as_bool;
     Some \<lparr>fl_enabled = x_enabled\<rparr> }"

record hostname_cfg =
  hn_name :: rstr

definition ser_hostname :: "hostname_cfg \<Rightarrow> toml_value" where
  "ser_hostname c = ser_struct [
     put_req (lit ''name'') (TString (hn_name c))]"

definition de_hostname :: "toml_value \<Rightarrow> hostname_cfg option" where
  "de_hostname v = do {
     fs \<leftarrow> fields_of [lit ''name''] v;
     x_name \<leftarrow> req_field fs (lit ''name'') de_string;
     Some \<lparr>hn_name = x_name\<rparr> }"

record ssh_cfg =
  sh_port :: "u16 option"
  sh_keys :: "rstr list"

definition ser_ssh :: "ssh_cfg \<Rightarrow> toml_value" where
  "ser_ssh c = ser_struct [
     put_opt (lit ''port'') ser_uint (sh_port c),
     put_vec (lit ''keys'') TString (sh_keys c)]"

definition de_ssh :: "toml_value \<Rightarrow> ssh_cfg option" where
  "de_ssh v = do {
     fs \<leftarrow> fields_of [lit ''port'', lit ''keys''] v;
     x_port \<leftarrow> opt_field fs (lit ''port'') de_uint;
     x_keys \<leftarrow> vec_field fs (lit ''keys'') de_string;
     Some \<lparr>sh_port = x_port, sh_keys = x_keys\<rparr> }"

record ip_config =
  ip_address :: "rstr option"
  ip_broadcast :: "rstr option"
  ip_subnet :: "rstr option"
  ip_netmask :: "u8 option"
  ip_gateway :: "rstr option"
  ip_dns :: "rstr list"

definition ser_ip_config :: "ip_config \<Rightarrow> toml_value" where
  "ser_ip_config c = ser_struct [
     put_opt (lit ''address'') TString (ip_address c),
     put_opt (lit ''broadcast'') TString (ip_broadcast c),
     put_opt (lit ''subnet'') TString (ip_subnet c),
     put_opt (lit ''netmask'') ser_uint (ip_netmask c),
     put_opt (lit ''gateway'') TString (ip_gateway c),
     put_vec (lit ''dns'') TString (ip_dns c)]"

definition de_ip_config :: "toml_value \<Rightarrow> ip_config option" where
  "de_ip_config v = do {
     fs \<leftarrow> fields_of [lit ''address'', lit ''broadcast'', lit ''subnet'',
       lit ''netmask'', lit ''gateway'', lit ''dns''] v;
     x_address \<leftarrow> opt_field fs (lit ''address'') de_string;
     x_broadcast \<leftarrow> opt_field fs (lit ''broadcast'') de_string;
     x_subnet \<leftarrow> opt_field fs (lit ''subnet'') de_string;
     x_netmask \<leftarrow> opt_field fs (lit ''netmask'') de_uint;
     x_gateway \<leftarrow> opt_field fs (lit ''gateway'') de_string;
     x_dns \<leftarrow> vec_field fs (lit ''dns'') de_string;
     Some \<lparr>ip_address = x_address, ip_broadcast = x_broadcast, ip_subnet = x_subnet,
       ip_netmask = x_netmask, ip_gateway = x_gateway, ip_dns = x_dns\<rparr> }"

record wg_peer =
  wp_public_key :: rstr
  wp_endpoint :: "rstr option"
  wp_allowed_ips :: "rstr list"
  wp_persistent_keepalive :: "u16 option"

definition ser_wg_peer :: "wg_peer \<Rightarrow> toml_value" where
  "ser_wg_peer c = ser_struct [
     put_req (lit ''public_key'') (TString (wp_public_key c)),
     put_opt (lit ''endpoint'') TString (wp_endpoint c),
     put_vec (lit ''allowed_ips'') TString (wp_allowed_ips c),
     put_opt (lit ''persistent_keepalive'') ser_uint (wp_persistent_keepalive c)]"

definition de_wg_peer :: "toml_value \<Rightarrow> wg_peer option" where
  "de_wg_peer v = do {
     fs \<leftarrow> fields_of [lit ''public_key'', lit ''endpoint'', lit ''allowed_ips'',
       lit ''persistent_keepalive''] v;
     x_public_key \<leftarrow> req_field fs (lit ''public_key'') de_string;
     x_endpoint \<leftarrow> opt_field fs (lit ''endpoint'') de_string;
     x_allowed_ips \<leftarrow> vec_field fs (lit ''allowed_ips'') de_string;
     x_persistent_keepalive \<leftarrow> opt_field fs (lit ''persistent_keepalive'') de_uint;
     Some \<lparr>wp_public_key = x_public_key, wp_endpoint = x_endpoint,
       wp_allowed_ips = x_allowed_ips, wp_persistent_keepalive = x_persistent_keepalive\<rparr> }"

record wg_interface =
  wi_name :: "rstr option"
  wi_private_key :: "rstr option"
  wi_address :: "rstr option"
  wi_listen_port :: "u16 option"
  wi_peers :: "wg_peer list"

definition ser_wg_interface :: "wg_interface \<Rightarrow> toml_value" where
  "ser_wg_interface c = ser_struct [
     put_opt (lit ''name'') TString (wi_name c),
     put_opt (lit ''private_key'') TString (wi_private_key c),
     put_opt (lit ''address'') TString (wi_address c),
     put_opt (lit ''listen_port'') ser_uint (wi_listen_port c),
     put_vec (lit ''peers'') ser_wg_peer (wi_peers c)]"

definition de_wg_interface :: "toml_value \<Rightarrow> wg_interface option" where
  "de_wg_interface v = do {
     fs \<leftarrow> fields_of [lit ''name'', lit ''private_key'', lit ''address'',
       lit ''listen_port'', lit ''peers''] v;
     x_name \<leftarrow> opt_field fs (lit ''name'') de_string;
     x_private_key \<leftarrow> opt_field fs (lit ''private_key'') de_string;
     x_address \<leftarrow> opt_field fs (lit ''address'') de_string;
     x_listen_port \<leftarrow> opt_field fs (lit ''listen_port'') de_uint;
     x_peers \<leftarrow> vec_field fs (lit ''peers'') de_wg_peer;
     Some \<lparr>wi_name = x_name, wi_private_key = x_private_key, wi_address = x_address,
       wi_listen_port = x_listen_port, wi_peers = x_peers\<rparr> }"

record nbd_client =
  nc_address :: rstr
  nc_port :: u16
  nc_device :: rstr
  nc_export :: "rstr option"
  nc_timeout :: "u16 option"

definition ser_nbd_client :: "nbd_client \<Rightarrow> toml_value" where
  "ser_nbd_client c = ser_struct [
     put_req (lit ''address'') (TString (nc_address c)),
     put_req (lit ''port'') (ser_uint (nc_port c)),
     put_req (lit ''device'') (TString (nc_device c)),
     put_opt (lit ''export'') TString (nc_export c),
     put_opt (lit ''timeout'') ser_uint (nc_timeout c)]"

definition de_nbd_client :: "toml_value \<Rightarrow> nbd_client option" where
  "de_nbd_client v = do {
     fs \<leftarrow> fields_of [lit ''address'', lit ''port'', lit ''device'', lit ''export'',
       lit ''timeout''] v;
     x_address \<leftarrow> req_field fs (lit ''address'') de_string;
     x_port \<leftarrow> req_field fs (lit ''port'') de_uint;
     x_device \<leftarrow> req_field fs (lit ''device'') de_string;
     x_export \<leftarrow> opt_field fs (lit ''export'') de_string;
     x_timeout \<leftarrow> opt_field fs (lit ''timeout'') de_uint;
     Some \<lparr>nc_address = x_address, nc_port = x_port, nc_device = x_device,
       nc_export = x_export, nc_timeout = x_timeout\<rparr> }"

record nbd_server =
  ns_address :: rstr
  ns_device :: rstr

definition ser_nbd_server :: "nbd_server \<Rightarrow> toml_value" where
  "ser_nbd_server c = ser_struct [
     put_req (lit ''address'') (TString (ns_address c)),
     put_req (lit ''device'') (TString (ns_device c))]"

definition de_nbd_server :: "toml_value \<Rightarrow> nbd_server option" where
  "de_nbd_server v = do {
     fs \<leftarrow> fields_of [lit ''address'', lit ''device''] v;
     x_address \<leftarrow> req_field fs (lit ''address'') de_string;
     x_device \<leftarrow> req_field fs (lit ''device'') de_string;
     Some \<lparr>ns_address = x_address, ns_device = x_device\<rparr> }"

record zfs_key =
  zk_dataset :: rstr
  zk_key :: rstr

definition ser_zfs_key :: "zfs_key \<Rightarrow> toml_value" where
  "ser_zfs_key c = ser_struct [
     put_req (lit ''dataset'') (TString (zk_dataset c)),
     put_req (lit ''key'') (TString (zk_key c))]"

definition de_zfs_key :: "toml_value \<Rightarrow> zfs_key option" where
  "de_zfs_key v = do {
     fs \<leftarrow> fields_of [lit ''dataset'', lit ''key''] v;
     x_dataset \<leftarrow> req_field fs (lit ''dataset'') de_string;
     x_key \<leftarrow> req_field fs (lit ''key'') de_string;
     Some \<lparr>zk_dataset = x_dataset, zk_key = x_key\<rparr> }"

record zfs_mount =
  zm_name :: rstr

definition ser_zfs_mount :: "zfs_mount \<Rightarrow> toml_value" where
  "ser_zfs_mount c = ser_struct [
     put_req (lit ''name'') (TString (zm_name c))]"

definition de_zfs_mount :: "toml_value \<Rightarrow> zfs_mount option" where
  "de_zfs_mount v = do {
     fs \<leftarrow> fields_of [lit ''name''] v;
     x_name \<leftarrow> req_field fs (lit ''name'') de_string;
     Some \<lparr>zm_name = x_name\<rparr> }"

record docker_registry =
  dr_hostname :: rstr
  dr_username :: rstr
  dr_password :: rstr

definition ser_docker_registry :: "docker_registry \<Rightarrow> toml_value" where
  "ser_docker_registry c = ser_struct [
     put_req (lit ''hostname'') (TString (dr_hostname c)),
     put_req (lit ''username'') (TString (dr_username c)),
     put_req (lit ''password'') (TString (dr_password c))]"

definition de_docker_registry :: "toml_value \<Rightarrow> docker_registry option" where
  "de_docker_registry v = do {
     fs \<leftarrow> fields_of [lit ''hostname'', lit ''username'', lit ''password''] v;
     x_hostname \<leftarrow> req_field fs (lit ''hostname'') de_string;
     x_username \<leftarrow> req_field fs (lit ''username'') de_string;
     x_password \<leftarrow> req_field fs (lit ''password'') de_string;
     Some \<lparr>dr_hostname = x_hostname, dr_username = x_username,
       dr_password = x_password\<rparr> }"

record config =
  cfg_machine :: "machine_cfg option"
  cfg_console :: "console_cfg option"
  cfg_headless :: "flag_cfg option"
  cfg_rescue :: "flag_cfg option"
  cfg_hostname :: "hostname_cfg option"
  cfg_ssh :: "ssh_cfg option"
  cfg_ipv4 :: "ip_config option"
  cfg_ipv6 :: "ip_config option"
  cfg_wg :: "wg_interface list"
  cfg_wg_server :: "wg_interface list"
  cfg_nbd_client :: "nbd_client list"
  cfg_nbd_server :: "nbd_server list"
  cfg_zfs_key :: "zfs_key list"
  cfg_zfs_mount :: "zfs_mount list"
  cfg_docker_registry :: "docker_registry list"

definition ser_config :: "config \<Rightarrow> toml_value" where
  "ser_config c = ser_struct [
     put_opt (lit ''machine'') ser_machine (cfg_machine c),
     put_opt (lit ''console'') ser_console (cfg_console c),
     put_opt (lit ''headless'') ser_flag (cfg_headless c),
     put_opt (lit ''rescue'') ser_flag (cfg_rescue c),
     put_opt (lit ''hostname'') ser_hostname (cfg_hostname c),
     put_opt (lit ''ssh'') ser_ssh (cfg_ssh c),
     put_opt (lit ''ipv4'') ser_ip_config (cfg_ipv4 c),
     put_opt (lit ''ipv6'') ser_ip_config (cfg_ipv6 c),
     put_vec (lit ''wg'') ser_wg_interface (cfg_wg c),
     put_vec (lit ''wg-server'') ser_wg_interface (cfg_wg_server c),
     put_vec (lit ''nbd-client'') ser_nbd_client (cfg_nbd_client c),
     put_vec (lit ''nbd-server'') ser_nbd_server (cfg_nbd_server c),
     put_vec (lit ''zfs-key'') ser_zfs_key (cfg_zfs_key c),
     put_vec (lit ''zfs-mount'') ser_zfs_mount (cfg_zfs_mount c),
     put_vec (lit ''docker-registry'') ser_docker_registry (cfg_docker_registry c)]"

definition de_config :: "toml_value \<Rightarrow> config option" where
  "de_config v = do {
     fs \<leftarrow> fields_of [lit ''machine'', lit ''console'', lit ''headless'',
       lit ''rescue'', lit ''hostname'', lit ''ssh'', lit ''ipv4'', lit ''ipv6'', lit ''wg'',
       lit ''wg-server'', lit ''nbd-client'', lit ''nbd-server'', lit ''zfs-key'',
       lit ''zfs-mount'', lit ''docker-registry''] v;
     x_machine \<leftarrow> opt_field fs (lit ''machine'') de_machine;
     x_console \<leftarrow> opt_field fs (lit ''console'') de_console;
     x_headless \<leftarrow> opt_field fs (lit ''headless'') de_flag;
     x_rescue \<leftarrow> opt_field fs (lit ''rescue'') de_flag;
     x_hostname \<leftarrow> opt_field fs (lit ''hostname'') de_hostname;
     x_ssh \<leftarrow> opt_field fs (lit ''ssh'') de_ssh;
     x_ipv4 \<leftarrow> opt_field fs (lit ''ipv4'') de_ip_config;
     x_ipv6 \<leftarrow> opt_field fs (lit ''ipv6'') de_ip_config;
     x_wg \<leftarrow> vec_field fs (lit ''wg'') de_wg_interface;
     x_wg_server \<leftarrow> vec_field fs (lit ''wg-server'') de_wg_interface;
     x_nbd_client \<leftarrow> vec_field fs (lit ''nbd-client'') de_nbd_client;
     x_nbd_server \<leftarrow> vec_field fs (lit ''nbd-server'') de_nbd_server;
     x_zfs_key \<leftarrow> vec_field fs (lit ''zfs-key'') de_zfs_key;
     x_zfs_mount \<leftarrow> vec_field fs (lit ''zfs-mount'') de_zfs_mount;
     x_docker_registry \<leftarrow> vec_field fs (lit ''docker-registry'') de_docker_registry;
     Some \<lparr>cfg_machine = x_machine, cfg_console = x_console, cfg_headless = x_headless,
       cfg_rescue = x_rescue, cfg_hostname = x_hostname, cfg_ssh = x_ssh, cfg_ipv4 = x_ipv4,
       cfg_ipv6 = x_ipv6, cfg_wg = x_wg, cfg_wg_server = x_wg_server,
       cfg_nbd_client = x_nbd_client, cfg_nbd_server = x_nbd_server, cfg_zfs_key = x_zfs_key,
       cfg_zfs_mount = x_zfs_mount, cfg_docker_registry = x_docker_registry\<rparr> }"

text \<open>\<^verbatim>\<open>KeyPath::lookup\<close>: the walk through the serialised configuration, which always serialises.\<close>

definition lookup :: "key_path \<Rightarrow> config \<Rightarrow> toml_value option" where
  "lookup kp cfg = walk_segments (kp_segments kp) (ser_config cfg)"

definition default_config :: config where
  "default_config =
     \<lparr>cfg_machine = None, cfg_console = None, cfg_headless = None, cfg_rescue = None,
      cfg_hostname = None, cfg_ssh = None, cfg_ipv4 = None, cfg_ipv6 = None, cfg_wg = [],
      cfg_wg_server = [], cfg_nbd_client = [], cfg_nbd_server = [], cfg_zfs_key = [],
      cfg_zfs_mount = [], cfg_docker_registry = []\<rparr>"

section \<open>Tables as finite maps\<close>

lemma map_of_filter_hd:
  "map_of es k = (case filter (\<lambda>e. fst e = k) es of [] \<Rightarrow> None | e # _ \<Rightarrow> Some (snd e))"
  by (induction es) auto

text \<open>Ordering the entries by key does not change what a key finds.\<close>

lemma map_of_sort_key: "map_of (sort_key fst es) k = map_of es k"
  by (simp add: map_of_filter_hd sort_key_stable)

text \<open>What a key finds among the entries of a structure, field by field.\<close>

definition or_else :: "'a option \<Rightarrow> 'a option \<Rightarrow> 'a option" where
  "or_else x y = (case x of None \<Rightarrow> y | Some a \<Rightarrow> Some a)"

definition vec_entry :: "('a \<Rightarrow> toml_value) \<Rightarrow> 'a list \<Rightarrow> toml_value option" where
  "vec_entry ser xs = (if xs = [] then None else Some (ser_vec ser xs))"

definition entry_at :: "toml_table list \<Rightarrow> rstr \<Rightarrow> toml_value option" where
  "entry_at es = map_of (concat es)"

lemma or_else_None [simp]: "or_else x None = x"
  by (cases x) (simp_all add: or_else_def)

lemma entry_at_simps [simp]:
  "entry_at [] k = None"
  "entry_at (put_req n v # es) k = (if k = n then Some v else entry_at es k)"
  "entry_at (put_opt n ser x # es) k =
     (if k = n then or_else (map_option ser x) (entry_at es k) else entry_at es k)"
  "entry_at (put_vec n ser' xs # es) k =
     (if k = n then or_else (vec_entry ser' xs) (entry_at es k) else entry_at es k)"
  by (auto simp: entry_at_def put_req_def put_opt_def put_vec_def or_else_def vec_entry_def
      split: option.split)

lemma fields_of_struct [simp]: "fields_of names (ser_struct es) = Some (entry_at es)"
  by (simp add: ser_struct_def entry_at_def map_of_sort_key fun_eq_iff)

section \<open>Codecs\<close>

locale serde_codec =
  fixes ser :: "'a \<Rightarrow> toml_value" and de :: "toml_value \<Rightarrow> 'a option"
  assumes de_ser: "de (ser x) = Some x"
begin

lemma de_all_ser: "de_all de (map ser xs) = Some xs"
  by (induction xs) (simp_all add: de_ser)

lemma de_vec_ser: "de_vec de (ser_vec ser xs) = Some xs"
  by (simp add: ser_vec_def de_all_ser)

lemma req_ser: "fs n = Some (ser x) \<Longrightarrow> req_field fs n de = Some x"
  by (simp add: req_field_def de_ser)

lemma default_ser: "fs n = Some (ser x) \<Longrightarrow> default_field d fs n de = Some x"
  by (simp add: default_field_def de_ser)

lemma opt_ser: "fs n = map_option ser x \<Longrightarrow> opt_field fs n de = Some x"
  by (cases x) (simp_all add: opt_field_def de_ser)

lemma vec_ser: "fs n = vec_entry ser xs \<Longrightarrow> vec_field fs n de = Some xs"
  by (simp add: default_field_def vec_entry_def de_vec_ser)

lemmas field_ser = req_ser default_ser opt_ser vec_ser

end

interpretation c_string: serde_codec TString de_string
  by unfold_locales simp

interpretation c_bool: serde_codec TBoolean as_bool
  by unfold_locales simp

interpretation c_uint: serde_codec "ser_uint :: 'w :: len word \<Rightarrow> toml_value" de_uint
proof
  fix w :: "'w word"
  have "0 \<le> uint w" "uint w < 2 ^ LENGTH('w)" by (rule uint_ge_0, rule uint_lt2p)
  then show "de_uint (ser_uint w) = Some w" by (simp add: ser_uint_def)
qed

lemmas scalar_codecs = c_string.field_ser c_bool.field_ser c_uint.field_ser

text \<open>Every structure of the schema is a codec; its proof uses the codecs of its fields.\<close>

interpretation c_machine: serde_codec ser_machine de_machine
  by unfold_locales (simp add: de_machine_def ser_machine_def scalar_codecs)

interpretation c_console: serde_codec ser_console de_console
  by unfold_locales (simp add: de_console_def ser_console_def scalar_codecs)

interpretation c_flag: serde_codec ser_flag de_flag
  by unfold_locales (simp add: de_flag_def ser_flag_def scalar_codecs)

interpretation c_hostname: serde_codec ser_hostname de_hostname
  by unfold_locales (simp add: de_hostname_def ser_hostname_def scalar_codecs)

interpretation c_ssh: serde_codec ser_ssh de_ssh
  by unfold_locales (simp add: de_ssh_def ser_ssh_def scalar_codecs)

interpretation c_ip_config: serde_codec ser_ip_config de_ip_config
  by unfold_locales (simp add: de_ip_config_def ser_ip_config_def scalar_codecs)

interpretation c_wg_peer: serde_codec ser_wg_peer de_wg_peer
  by unfold_locales (simp add: de_wg_peer_def ser_wg_peer_def scalar_codecs)

interpretation c_wg_interface: serde_codec ser_wg_interface de_wg_interface
  by unfold_locales (simp add: de_wg_interface_def ser_wg_interface_def scalar_codecs c_wg_peer.field_ser)

interpretation c_nbd_client: serde_codec ser_nbd_client de_nbd_client
  by unfold_locales (simp add: de_nbd_client_def ser_nbd_client_def scalar_codecs)

interpretation c_nbd_server: serde_codec ser_nbd_server de_nbd_server
  by unfold_locales (simp add: de_nbd_server_def ser_nbd_server_def scalar_codecs)

interpretation c_zfs_key: serde_codec ser_zfs_key de_zfs_key
  by unfold_locales (simp add: de_zfs_key_def ser_zfs_key_def scalar_codecs)

interpretation c_zfs_mount: serde_codec ser_zfs_mount de_zfs_mount
  by unfold_locales (simp add: de_zfs_mount_def ser_zfs_mount_def scalar_codecs)

interpretation c_docker_registry: serde_codec ser_docker_registry de_docker_registry
  by unfold_locales (simp add: de_docker_registry_def ser_docker_registry_def scalar_codecs)

interpretation c_config: serde_codec ser_config de_config
  by unfold_locales (simp add: de_config_def ser_config_def scalar_codecs
      c_console.field_ser c_docker_registry.field_ser c_flag.field_ser c_hostname.field_ser
      c_ip_config.field_ser c_machine.field_ser c_nbd_client.field_ser c_nbd_server.field_ser
      c_ssh.field_ser c_wg_interface.field_ser c_zfs_key.field_ser c_zfs_mount.field_ser)

section \<open>Walking a serialised structure\<close>

lemma walk_struct:
  "walk_segments (Field n # p) (ser_struct es) =
     (case entry_at es n of None \<Rightarrow> None | Some v \<Rightarrow> walk_segments p v)"
  by (simp add: ser_struct_def entry_at_def map_of_sort_key)

lemma walk_vec_entry:
  "(case vec_entry ser xs of None \<Rightarrow> None | Some v \<Rightarrow> walk_segments (Index i # p) v) =
     (if i < length xs then walk_segments p (ser (xs ! i)) else None)"
  by (simp add: vec_entry_def ser_vec_def nth_opt_def)

lemma walk_opt_entry:
  "(case map_option ser x of None \<Rightarrow> None | Some v \<Rightarrow> walk_segments p v) =
     (case x of None \<Rightarrow> None | Some a \<Rightarrow> walk_segments p (ser a))"
  by (cases x) simp_all

lemmas walk_laws = walk_struct walk_vec_entry walk_opt_entry

text \<open>The names of the sections.\<close>

definition config_names :: "rstr list" where
  "config_names = map lit
     [''machine'', ''console'', ''headless'', ''rescue'', ''hostname'', ''ssh'', ''ipv4'', ''ipv6'',
      ''wg'', ''wg-server'', ''nbd-client'', ''nbd-server'', ''zfs-key'', ''zfs-mount'',
      ''docker-registry'']"

lemma lookup_machine_id:
  "lookup \<lparr>kp_segments = [Field (lit ''machine''), Field (lit ''id'')]\<rparr> cfg =
     map_option (\<lambda>m. TString (mc_id m)) (cfg_machine cfg)"
  by (cases "cfg_machine cfg") (simp_all add: lookup_def walk_laws ser_config_def ser_machine_def
      del: walk_segments.simps(2,3))

lemma lookup_ssh_port:
  "lookup \<lparr>kp_segments = [Field (lit ''ssh''), Field (lit ''port'')]\<rparr> cfg =
     Option.bind (cfg_ssh cfg) (\<lambda>c. map_option ser_uint (sh_port c))"
  by (cases "cfg_ssh cfg") (simp_all add: lookup_def walk_laws ser_config_def ser_ssh_def
      del: walk_segments.simps(2,3) split: option.split)

lemma lookup_peer_key:
  "lookup \<lparr>kp_segments = [Field (lit ''wg''), Index i, Field (lit ''peers''), Index j,
       Field (lit ''public_key'')]\<rparr> cfg =
     (if i < length (cfg_wg cfg) \<and> j < length (wi_peers (cfg_wg cfg ! i))
      then Some (TString (wp_public_key (wi_peers (cfg_wg cfg ! i) ! j))) else None)"
  by (simp add: lookup_def walk_laws ser_config_def ser_wg_interface_def ser_wg_peer_def
      del: walk_segments.simps(2,3))

lemma lookup_nbd_port:
  "lookup \<lparr>kp_segments = [Field (lit ''nbd-client''), Index i, Field (lit ''port'')]\<rparr> cfg =
     (if i < length (cfg_nbd_client cfg) then Some (ser_uint (nc_port (cfg_nbd_client cfg ! i)))
      else None)"
  by (simp add: lookup_def walk_laws ser_config_def ser_nbd_client_def del: walk_segments.simps(2,3))

lemma lookup_unknown: "lookup \<lparr>kp_segments = Field s # p\<rparr> cfg \<noteq> None \<Longrightarrow> s \<in> set config_names"
proof (rule ccontr)
  assume "lookup \<lparr>kp_segments = Field s # p\<rparr> cfg \<noteq> None" and "s \<notin> set config_names"
  then show False
    by (simp add: lookup_def walk_struct ser_config_def config_names_def del: walk_segments.simps(2,3))
qed

section \<open>Properties\<close>

text \<open>
  C19. Serialising a configuration and reading the value tree back gives the same configuration:
  no field, no order of array elements and no renamed section is lost.
\<close>

theorem config_roundtrip: "de_config (ser_config cfg) = Some cfg"
  by (rule c_config.de_ser)

text \<open>
  The reader is tolerant exactly where the schema says so: two tables that agree on the fifteen
  section names of the schema are read alike, whatever else they hold, and the empty table
  is the default configuration.
\<close>

lemma unknown_sections_ignored:
  assumes "\<forall>n \<in> set config_names. map_of t n = map_of u n"
  shows "de_config (TTable t) = de_config (TTable u) \<and> de_config (TTable []) = Some default_config"
proof
  show "de_config (TTable t) = de_config (TTable u)"
    using assms
    by (simp add: de_config_def opt_field_def default_field_def config_names_def)
  show "de_config (TTable []) = Some default_config"
    by (simp add: de_config_def opt_field_def default_field_def default_config_def)
qed

text \<open>
  Looking a key path up in a configuration yields the field it names: scalar fields, elements of
  arrays of tables by position (nothing past the end), nested arrays, and hyphenated sections by
  their renamed name; a section outside the schema is never found.
\<close>

lemma lookup_addresses_fields:
  "lookup \<lparr>kp_segments = [Field (lit ''machine''), Field (lit ''id'')]\<rparr> cfg =
     map_option (\<lambda>m. TString (mc_id m)) (cfg_machine cfg) \<and>
   lookup \<lparr>kp_segments = [Field (lit ''ssh''), Field (lit ''port'')]\<rparr> cfg =
     Option.bind (cfg_ssh cfg) (\<lambda>c. map_option ser_uint (sh_port c)) \<and>
   lookup \<lparr>kp_segments = [Field (lit ''wg''), Index i, Field (lit ''peers''), Index j,
       Field (lit ''public_key'')]\<rparr> cfg =
     (if i < length (cfg_wg cfg) \<and> j < length (wi_peers (cfg_wg cfg ! i))
      then Some (TString (wp_public_key (wi_peers (cfg_wg cfg ! i) ! j))) else None) \<and>
   lookup \<lparr>kp_segments = [Field (lit ''nbd-client''), Index i, Field (lit ''port'')]\<rparr> cfg =
     (if i < length (cfg_nbd_client cfg) then Some (ser_uint (nc_port (cfg_nbd_client cfg ! i)))
      else None) \<and>
   {s. \<exists>p. lookup \<lparr>kp_segments = Field s # p\<rparr> cfg \<noteq> None} \<subseteq> set config_names"
  using lookup_machine_id [of cfg] lookup_ssh_port [of cfg] lookup_peer_key [of i j cfg]
    lookup_nbd_port [of i cfg] lookup_unknown [of _ _ cfg] by blast

end
