(* ===== verification/Rust_Path.thy ===== *)
theory Rust_Path
  imports Rust_Str
begin

text \<open>
  File names as \<^verbatim>\<open>std::path\<close> reads them on Unix. A path is a text; its pieces are what lies
  between the slashes, where empty pieces and single dots carry no meaning except for a dot at
  the very start. The key of a path is what the file system sees: whether it is absolute, and
  its meaningful pieces.
\<close>

type_synonym path = rstr
type_synonym fkey = "bool \<times> rstr list"

abbreviation slash :: rchar where "slash \<equiv> 47"
abbreviation dot :: rchar where "dot \<equiv> 46"

section \<open>Pieces\<close>

fun split_char :: "rchar \<Rightarrow> rstr \<Rightarrow> rstr list" where
  "split_char c [] = [[]]"
| "split_char c (x # xs) =
     (if x = c then [] # split_char c xs
      else case split_char c xs of [] \<Rightarrow> [[x]] | p # ps \<Rightarrow> (x # p) # ps)"

definition trivial_piece :: "rstr \<Rightarrow> bool" where
  "trivial_piece p \<longleftrightarrow> p = [] \<or> p = [dot]"

definition is_absolute :: "path \<Rightarrow> bool" where
  "is_absolute s \<longleftrightarrow> s \<noteq> [] \<and> hd s = slash"

text \<open>The first piece stays, trailing pieces without meaning are dropped.\<close>

definition drop_trailing :: "rstr list \<Rightarrow> rstr list" where
  "drop_trailing ps =
     (case ps of [] \<Rightarrow> [] | p # rest \<Rightarrow> p # rev (dropWhile trivial_piece (rev rest)))"

definition path_pieces :: "path \<Rightarrow> rstr list" where
  "path_pieces s = drop_trailing (split_char slash s)"

definition path_key :: "path \<Rightarrow> fkey" where
  "path_key s = (is_absolute s, filter (\<lambda>p. \<not> trivial_piece p) (split_char slash s))"

section \<open>The operations the source calls\<close>

text \<open>\<^verbatim>\<open>Path::file_name\<close>: the last component when it is a plain name.\<close>

definition file_name :: "path \<Rightarrow> rstr option" where
  "file_name s =
     (let l = last (path_pieces s)
      in if trivial_piece l \<or> l = [dot, dot] then None else Some l)"

text \<open>\<^verbatim>\<open>Path::parent\<close>: nothing for the root and for the empty path.\<close>

definition parent :: "path \<Rightarrow> path option" where
  "parent s =
     (let ps = path_pieces s; qs = drop_trailing (butlast ps)
      in if s = [] \<or> (is_absolute s \<and> length ps \<le> 1) then None
         else Some (if qs = [[]] \<and> is_absolute s then [slash] else join [slash] qs))"

text \<open>\<^verbatim>\<open>Path::join\<close>: an absolute right-hand side replaces the path.\<close>

definition path_join :: "path \<Rightarrow> path \<Rightarrow> path" where
  "path_join a b =
     (if is_absolute b then b
      else if a = [] \<or> last a = slash then a @ b else a @ slash # b)"

text \<open>
  \<^verbatim>\<open>Path::file_stem\<close> of a name: up to the last dot, unless that dot is the first character.
\<close>

definition name_stem :: "rstr \<Rightarrow> rstr" where
  "name_stem f =
     (let stem = rev (tl (dropWhile (\<lambda>c. c \<noteq> dot) (rev f)))
      in if dot \<notin> set f \<or> stem = [] then f else stem)"

text \<open>\<^verbatim>\<open>Path::with_extension\<close> with a non-empty extension; a path without a file name stays.\<close>

definition with_extension :: "path \<Rightarrow> rstr \<Rightarrow> path" where
  "with_extension s ext =
     (case file_name s of
        None \<Rightarrow> s
      | Some f \<Rightarrow> join [slash] (butlast (path_pieces s) @ [name_stem f @ dot # ext]))"

section \<open>Lemmas\<close>

lemma split_char_nonempty [simp]: "split_char c s \<noteq> []"
  by (induction s) (auto split: list.splits)

lemma split_char_free: "p \<in> set (split_char c s) \<Longrightarrow> c \<notin> set p"
proof (induction s arbitrary: p)
  case (Cons x xs)
  then show ?case
    by (cases "split_char c xs") (auto split: if_splits)
qed simp

lemma split_char_id: "c \<notin> set p \<Longrightarrow> split_char c p = [p]"
  by (induction p) auto

lemma split_char_append: "c \<notin> set p \<Longrightarrow> split_char c (p @ c # s) = p # split_char c s"
  by (induction p) auto

lemma split_char_join:
  "ps \<noteq> [] \<Longrightarrow> (\<And>p. p \<in> set ps \<Longrightarrow> c \<notin> set p) \<Longrightarrow> split_char c (join [c] ps) = ps"
proof (induction "[c]" ps rule: join.induct)
  case (3 x y ys)
  then show ?case by (simp add: split_char_append)
qed (simp_all add: split_char_id)

lemma split_char_append_sep: "split_char c (s @ c # t) = split_char c s @ split_char c t"
  by (induction s) (auto split: list.splits)

lemma is_absolute_iff_pieces:
  "is_absolute s \<longleftrightarrow> hd (split_char slash s) = [] \<and> length (split_char slash s) \<noteq> 1"
  by (cases s) (auto simp: is_absolute_def split: list.splits)

lemma drop_trailing_subset: "set (drop_trailing ps) \<subseteq> set ps"
  by (cases ps) (auto simp: drop_trailing_def dest: set_dropWhileD)

lemma drop_trailing_nonempty [simp]: "drop_trailing ps = [] \<longleftrightarrow> ps = []"
  by (cases ps) (auto simp: drop_trailing_def)

lemma hd_drop_trailing: "ps \<noteq> [] \<Longrightarrow> hd (drop_trailing ps) = hd ps"
  by (cases ps) (auto simp: drop_trailing_def)

lemma filter_drop_trailing:
  "filter (\<lambda>p. \<not> trivial_piece p) (drop_trailing ps) = filter (\<lambda>p. \<not> trivial_piece p) ps"
proof (cases ps)
  case (Cons p rest)
  have "filter (\<lambda>p. \<not> trivial_piece p) (dropWhile trivial_piece xs) =
        filter (\<lambda>p. \<not> trivial_piece p) xs" for xs
    by (induction xs) auto
  from this [of "rev rest"] show ?thesis
    unfolding Cons drop_trailing_def by (simp add: rev_filter [symmetric])
qed (simp add: drop_trailing_def)

lemma file_name_Some:
  assumes "file_name s = Some f"
  shows "path_pieces s \<noteq> []" "last (path_pieces s) = f" "\<not> trivial_piece f" "slash \<notin> set f"
proof -
  show ne: "path_pieces s \<noteq> []" by (simp add: path_pieces_def)
  show l: "last (path_pieces s) = f" and "\<not> trivial_piece f"
    using assms by (auto simp: file_name_def Let_def split: if_splits)
  have "f \<in> set (split_char slash s)"
    using l ne drop_trailing_subset unfolding path_pieces_def by (metis last_in_set subsetD)
  then show "slash \<notin> set f" by (rule split_char_free)
qed

lemma name_stem_subset: "set (name_stem f) \<subseteq> set f"
proof -
  have "set (tl (dropWhile P (rev f))) \<subseteq> set (rev f)" for P
    by (metis dropWhile_eq_drop set_drop_subset tl_drop drop_Suc)
  then show ?thesis by (auto simp: name_stem_def Let_def)
qed

lemma name_stem_nonempty: "f \<noteq> [] \<Longrightarrow> name_stem f \<noteq> []"
  by (auto simp: name_stem_def Let_def)

text \<open>
  Replacing the extension by one that holds a dot itself never gives the name back: the last
  dot of the new name lies inside the extension.
\<close>

lemma name_stem_extension_neq:
  assumes "f \<noteq> []"
  shows "name_stem f @ dot # lit ''toml.tmp'' \<noteq> f"
proof
  assume eq: "name_stem f @ dot # lit ''toml.tmp'' = f"
  define g where "g = name_stem f @ dot # lit ''toml''"
  have f: "f = g @ dot # lit ''tmp''" using eq by (simp add: g_def str_simps)
  have "dropWhile (\<lambda>c. c \<noteq> dot) (rev f) = dropWhile (\<lambda>c. c \<noteq> dot) (rev (lit ''tmp'') @ dot # rev g)"
    by (simp add: f)
  also have "\<dots> = dot # rev g"
    by (rule dropWhile_append_stop) (auto simp: str_simps)
  finally have "rev (tl (dropWhile (\<lambda>c. c \<noteq> dot) (rev f))) = g" by simp
  moreover have "g \<noteq> []" by (simp add: g_def)
  moreover have "dot \<in> set f" by (simp add: f)
  ultimately have "name_stem f = g" by (simp add: name_stem_def)
  then show False by (simp add: g_def)
qed

text \<open>Joining one more plain name extends the key by that name.\<close>

lemma path_key_join:
  assumes "\<not> trivial_piece n" and "slash \<notin> set n"
  shows "path_key (path_join d n) = (fst (path_key d), snd (path_key d) @ [n])"
proof -
  have rel: "\<not> is_absolute n" using assms by (cases n) (auto simp: is_absolute_def)
  show ?thesis
  proof (cases "d = []")
    case True
    with rel assms show ?thesis
      by (simp add: path_join_def path_key_def split_char_id trivial_piece_def is_absolute_def)
  next
    case False
    then have abs: "is_absolute (d @ s) = is_absolute d" for s
      by (simp add: is_absolute_def)
    show ?thesis
    proof (cases "last d = slash")
      case True
      then obtain d' where d: "d = d' @ [slash]"
        using False by (metis append_butlast_last_id)
      have "split_char slash (d @ n) = split_char slash d' @ [n]"
        using assms by (simp add: d split_char_append_sep split_char_id)
      moreover have "split_char slash d = split_char slash d' @ [[]]"
        by (simp add: d split_char_append_sep)
      ultimately show ?thesis
        using rel True assms abs [of n]
        by (simp add: path_join_def path_key_def trivial_piece_def)
    next
      case False
      then show ?thesis
        using rel \<open>d \<noteq> []\<close> assms abs [of "slash # n"]
        by (simp add: path_join_def path_key_def split_char_append_sep split_char_id)
    qed
  qed
qed

text \<open>Whether a path is absolute does not depend on its last piece.\<close>

lemma is_absolute_last_piece:
  assumes pieces: "path_pieces s = qs @ [f]" and f: "\<not> trivial_piece f" and g: "\<not> trivial_piece g"
    and split: "split_char slash s' = qs @ [g]"
  shows "is_absolute s' = is_absolute s"
proof (cases qs)
  case Nil
  then have "hd (split_char slash s) = f" "g \<noteq> []"
    using pieces hd_drop_trailing [of "split_char slash s"] g by (auto simp: path_pieces_def trivial_piece_def)
  with Nil split f show ?thesis by (auto simp: is_absolute_iff_pieces trivial_piece_def)
next
  case (Cons q qs')
  then have h: "hd (split_char slash s) = q"
    using pieces hd_drop_trailing [of "split_char slash s"] by (simp add: path_pieces_def)
  have "length (split_char slash s) \<noteq> 1"
  proof
    assume "length (split_char slash s) = 1"
    then have "length (path_pieces s) = 1"
      by (auto simp: path_pieces_def drop_trailing_def length_Suc_conv)
    with Cons pieces show False by simp
  qed
  with Cons split h show ?thesis by (simp add: is_absolute_iff_pieces)
qed

text \<open>The key of a path with its extension replaced: only the last piece changes.\<close>

lemma path_key_with_extension:
  assumes "file_name s = Some f" and "slash \<notin> set ext"
  obtains a ps where "path_key s = (a, ps @ [f])"
    and "path_key (with_extension s ext) = (a, ps @ [name_stem f @ dot # ext])"
proof -
  note fn = file_name_Some [OF assms(1)]
  define qs where "qs = butlast (path_pieces s)"
  define g where "g = name_stem f @ dot # ext"
  have pieces: "path_pieces s = qs @ [f]"
    using fn(1,2) by (metis append_butlast_last_id qs_def)
  have nontriv: "\<not> trivial_piece g"
    using name_stem_nonempty [of f] fn(3)
    by (auto simp: g_def trivial_piece_def append_eq_Cons_conv)
  have "slash \<notin> set g" using fn(4) assms(2) name_stem_subset [of f] by (auto simp: g_def)
  moreover have "q \<in> set qs \<Longrightarrow> slash \<notin> set q" for q
    using drop_trailing_subset [of "split_char slash s"] split_char_free [of q slash s] pieces
    by (auto simp: path_pieces_def)
  ultimately have split: "split_char slash (with_extension s ext) = qs @ [g]"
    using assms(1) by (simp add: with_extension_def pieces g_def [symmetric])
      (subst split_char_join, auto)
  have fst_eq: "is_absolute (with_extension s ext) = is_absolute s"
    using is_absolute_last_piece [OF pieces fn(3) nontriv split] .
  have "snd (path_key s) = filter (\<lambda>p. \<not> trivial_piece p) qs @ [f]"
    using filter_drop_trailing [of "split_char slash s"] pieces fn(3)
    by (simp add: path_key_def path_pieces_def)
  moreover have "path_key (with_extension s ext) =
      (is_absolute s, filter (\<lambda>p. \<not> trivial_piece p) qs @ [g])"
    using split nontriv fst_eq by (simp add: path_key_def)
  ultimately show ?thesis using that [of "is_absolute s"] by (simp add: path_key_def g_def)
qed

lemma tmp_key_differs:
  assumes "file_name s = Some f"
  shows "path_key (with_extension s (lit ''toml.tmp'')) \<noteq> path_key s"
proof -
  have "slash \<notin> set (lit ''toml.tmp'')" by (simp add: str_simps)
  with assms obtain a ps where "path_key s = (a, ps @ [f])"
    and "path_key (with_extension s (lit ''toml.tmp'')) =
         (a, ps @ [name_stem f @ dot # lit ''toml.tmp''])"
    by (rule path_key_with_extension)
  moreover have "f \<noteq> []" using file_name_Some(3) [OF assms] by (auto simp: trivial_piece_def)
  ultimately show ?thesis using name_stem_extension_neq by simp
qed

end
