(* ===== verification/Rust_Fs.thy ===== *)
theory Rust_Fs
  imports Rust_Path "HOL-Library.AList"
begin

text \<open>
  The calls of \<^verbatim>\<open>std::fs\<close> the program makes, on an explicit file system: a finite list of nodes
  by key, each a directory or a file with its text. Whatever the environment may refuse
  (permissions, a read-only mount, a full disk) is a fault table of the state, so that every
  call has its error branch; a failing write may leave a prefix of the text behind. The root
  and the working directory always exist.
\<close>

section \<open>State\<close>

datatype io_error = NotFound | Refused rstr

datatype node = FileNode rstr | DirNode

record fsys =
  fs_nodes :: "(fkey \<times> node) list"
  fs_read_fault :: "fkey \<Rightarrow> rstr option"
  fs_mkdir_fault :: "fkey \<Rightarrow> rstr option"
  fs_write_fault :: "fkey \<Rightarrow> (rstr \<times> nat option) option"
  fs_rename_fault :: "fkey \<Rightarrow> fkey \<Rightarrow> rstr option"

text \<open>A file system without nodes and without refusals.\<close>

definition empty_fs :: fsys where
  "empty_fs = \<lparr>fs_nodes = [], fs_read_fault = (\<lambda>_. None), fs_mkdir_fault = (\<lambda>_. None),
               fs_write_fault = (\<lambda>_. None), fs_rename_fault = (\<lambda>_ _. None)\<rparr>"

definition fs_file :: "fsys \<Rightarrow> fkey \<Rightarrow> rstr option" where
  "fs_file fs k =
     (case map_of (fs_nodes fs) k of Some (FileNode t) \<Rightarrow> Some t | _ \<Rightarrow> None)"

definition fs_is_dir :: "fsys \<Rightarrow> fkey \<Rightarrow> bool" where
  "fs_is_dir fs k \<longleftrightarrow> snd k = [] \<or> map_of (fs_nodes fs) k = Some DirNode"

definition set_node :: "fkey \<Rightarrow> node \<Rightarrow> fsys \<Rightarrow> fsys" where
  "set_node k n fs = fs\<lparr>fs_nodes := AList.update k n (fs_nodes fs)\<rparr>"

definition del_node :: "fkey \<Rightarrow> fsys \<Rightarrow> fsys" where
  "del_node k fs = fs\<lparr>fs_nodes := AList.delete k (fs_nodes fs)\<rparr>"

section \<open>Operations\<close>

definition fs_exists :: "fsys \<Rightarrow> path \<Rightarrow> bool" where
  "fs_exists fs p \<longleftrightarrow> fs_is_dir fs (path_key p) \<or> fs_file fs (path_key p) \<noteq> None"

definition read_to_string :: "fsys \<Rightarrow> path \<Rightarrow> (io_error, rstr) result" where
  "read_to_string fs p =
     (let k = path_key p
      in case fs_read_fault fs k of
           Some c \<Rightarrow> Err (Refused c)
         | None \<Rightarrow>
             if fs_is_dir fs k then Err (Refused (lit ''Is a directory''))
             else case fs_file fs k of None \<Rightarrow> Err NotFound | Some t \<Rightarrow> Ok t)"

text \<open>
  \<^verbatim>\<open>create_dir_all\<close> makes the missing levels from the top down and stops at the first refusal.
\<close>

fun create_levels :: "bool \<Rightarrow> rstr list \<Rightarrow> rstr list \<Rightarrow> fsys \<Rightarrow> (io_error, unit) result \<times> fsys" where
  "create_levels a seen [] fs = (Ok (), fs)"
| "create_levels a seen (p # ps) fs =
     (let k = (a, seen @ [p])
      in if fs_is_dir fs k then create_levels a (seen @ [p]) ps fs
         else if fs_file fs k \<noteq> None then (Err (Refused (lit ''Not a directory'')), fs)
         else case fs_mkdir_fault fs k of
                Some c \<Rightarrow> (Err (Refused c), fs)
              | None \<Rightarrow> create_levels a (seen @ [p]) ps (set_node k DirNode fs))"

definition create_dir_all :: "path \<Rightarrow> fsys \<Rightarrow> (io_error, unit) result \<times> fsys" where
  "create_dir_all p fs = (case path_key p of (a, ps) \<Rightarrow> create_levels a [] ps fs)"

text \<open>\<^verbatim>\<open>fs::write\<close>: create or truncate, then write everything.\<close>

definition fs_write :: "path \<Rightarrow> rstr \<Rightarrow> fsys \<Rightarrow> (io_error, unit) result \<times> fsys" where
  "fs_write p t fs =
     (let k = path_key p
      in if fs_is_dir fs k then (Err (Refused (lit ''Is a directory'')), fs)
         else if \<not> fs_is_dir fs (fst k, butlast (snd k)) then (Err NotFound, fs)
         else case fs_write_fault fs k of
                Some (c, None) \<Rightarrow> (Err (Refused c), fs)
              | Some (c, Some n) \<Rightarrow> (Err (Refused c), set_node k (FileNode (take n t)) fs)
              | None \<Rightarrow> (Ok (), set_node k (FileNode t) fs))"

definition fs_rename :: "path \<Rightarrow> path \<Rightarrow> fsys \<Rightarrow> (io_error, unit) result \<times> fsys" where
  "fs_rename p q fs =
     (let k = path_key p; l = path_key q
      in case fs_file fs k of
           None \<Rightarrow> (Err NotFound, fs)
         | Some t \<Rightarrow>
             if fs_is_dir fs l then (Err (Refused (lit ''Is a directory'')), fs)
             else case fs_rename_fault fs k l of
                    Some c \<Rightarrow> (Err (Refused c), fs)
                  | None \<Rightarrow> (Ok (), set_node l (FileNode t) (del_node k fs)))"

text \<open>\<^verbatim>\<open>read_dir\<close>: the names directly below a directory, without the entries dot and dot dot.\<close>

definition proper_name :: "rstr \<Rightarrow> bool" where
  "proper_name n \<longleftrightarrow> \<not> trivial_piece n \<and> n \<noteq> [dot, dot] \<and> slash \<notin> set n"

definition read_dir :: "fsys \<Rightarrow> path \<Rightarrow> rstr list option" where
  "read_dir fs p =
     (let k = path_key p
      in if fs_is_dir fs k \<and> fs_read_fault fs k = None
         then Some (remdups (map (\<lambda>e. last (snd (fst e)))
                (filter (\<lambda>e. snd (fst e) \<noteq> [] \<and> proper_name (last (snd (fst e))) \<and>
                             fst (fst e) = fst k \<and> butlast (snd (fst e)) = snd k)
                        (fs_nodes fs))))
         else None)"

section \<open>Lemmas\<close>

lemma empty_fs_simps [simp]:
  "fs_nodes empty_fs = []" "fs_file empty_fs k = None" "fs_is_dir empty_fs k \<longleftrightarrow> snd k = []"
  "fs_read_fault empty_fs = (\<lambda>_. None)" "fs_mkdir_fault empty_fs = (\<lambda>_. None)"
  "fs_write_fault empty_fs = (\<lambda>_. None)" "fs_rename_fault empty_fs = (\<lambda>_ _. None)"
  by (simp_all add: empty_fs_def fs_file_def fs_is_dir_def)

lemma fs_nodes_set_node: "map_of (fs_nodes (set_node k n fs)) = (map_of (fs_nodes fs))(k \<mapsto> n)"
  by (simp add: set_node_def update_conv')

lemma fs_nodes_del_node: "map_of (fs_nodes (del_node k fs)) = (map_of (fs_nodes fs))(k := None)"
  by (simp add: del_node_def delete_conv')

lemma fs_file_set_node [fs_simps]:
  "fs_file (set_node k n fs) l =
     (if l = k then (case n of FileNode t \<Rightarrow> Some t | DirNode \<Rightarrow> None) else fs_file fs l)"
  by (simp add: fs_file_def fs_nodes_set_node split: node.split)

lemma fs_file_del_node [fs_simps]:
  "fs_file (del_node k fs) l = (if l = k then None else fs_file fs l)"
  by (simp add: fs_file_def fs_nodes_del_node)

lemma fs_faults_set_node [fs_simps]:
  "fs_read_fault (set_node k n fs) = fs_read_fault fs"
  "fs_mkdir_fault (set_node k n fs) = fs_mkdir_fault fs"
  "fs_write_fault (set_node k n fs) = fs_write_fault fs"
  "fs_rename_fault (set_node k n fs) = fs_rename_fault fs"
  "fs_read_fault (del_node k fs) = fs_read_fault fs"
  "fs_mkdir_fault (del_node k fs) = fs_mkdir_fault fs"
  "fs_write_fault (del_node k fs) = fs_write_fault fs"
  "fs_rename_fault (del_node k fs) = fs_rename_fault fs"
  by (simp_all add: set_node_def del_node_def)

lemma fs_is_dir_set_node [fs_simps]:
  "fs_is_dir (set_node k n fs) l \<longleftrightarrow>
     snd l = [] \<or> (if l = k then n = DirNode else fs_is_dir fs l)"
  by (auto simp: fs_is_dir_def fs_nodes_set_node)

lemma fs_is_dir_del_node [fs_simps]:
  "fs_is_dir (del_node k fs) l \<longleftrightarrow> snd l = [] \<or> l \<noteq> k \<and> fs_is_dir fs l"
  by (auto simp: fs_is_dir_def fs_nodes_del_node)

lemma create_levels_files: "fs_file (snd (create_levels a seen ps fs)) = fs_file fs"
proof (induction a seen ps fs rule: create_levels.induct)
  case (2 a seen p ps fs)
  then show ?case
    by (auto simp: Let_def fs_simps fun_eq_iff split: option.splits)
qed simp

text \<open>Creating directories touches no file.\<close>

lemma create_dir_all_files: "fs_file (snd (create_dir_all p fs)) = fs_file fs"
  by (simp add: create_dir_all_def create_levels_files split: prod.split)

lemma create_levels_faults:
  "fs_read_fault (snd (create_levels a seen ps fs)) = fs_read_fault fs"
  "fs_write_fault (snd (create_levels a seen ps fs)) = fs_write_fault fs"
  "fs_rename_fault (snd (create_levels a seen ps fs)) = fs_rename_fault fs"
  by (induction a seen ps fs rule: create_levels.induct)
     (auto simp: Let_def fs_simps split: option.splits)

lemma create_dir_all_faults:
  "fs_read_fault (snd (create_dir_all p fs)) = fs_read_fault fs"
  "fs_write_fault (snd (create_dir_all p fs)) = fs_write_fault fs"
  "fs_rename_fault (snd (create_dir_all p fs)) = fs_rename_fault fs"
  by (simp_all add: create_dir_all_def create_levels_faults split: prod.split)

lemma create_levels_makes_dir:
  "fst (create_levels a seen ps fs) = Ok () \<Longrightarrow> fs_is_dir fs (a, seen) \<Longrightarrow>
   fs_is_dir (snd (create_levels a seen ps fs)) (a, seen @ ps)"
proof (induction a seen ps fs rule: create_levels.induct)
  case (2 a seen p ps fs)
  then show ?case by (auto simp: Let_def fs_simps split: option.splits if_splits)
qed simp

lemma create_dir_all_makes_dir:
  assumes "fst (create_dir_all p fs) = Ok ()"
  shows "fs_is_dir (snd (create_dir_all p fs)) (path_key p)"
  using assms create_levels_makes_dir [of "fst (path_key p)" "[]" "snd (path_key p)" fs]
  by (cases "path_key p") (simp add: create_dir_all_def fs_is_dir_def)

lemma read_dir_names:
  assumes "read_dir fs p = Some names"
  shows "distinct names"
    and "n \<in> set names \<Longrightarrow>
         proper_name n \<and> (fst (path_key p), snd (path_key p) @ [n]) \<in> fst ` set (fs_nodes fs)"
proof -
  have names: "names = remdups (map (\<lambda>e. last (snd (fst e)))
      (filter (\<lambda>e. snd (fst e) \<noteq> [] \<and> proper_name (last (snd (fst e))) \<and>
         fst (fst e) = fst (path_key p) \<and> butlast (snd (fst e)) = snd (path_key p))
        (fs_nodes fs)))"
    using assms by (auto simp: read_dir_def Let_def split: if_splits)
  show "distinct names" by (simp add: names)
  assume "n \<in> set names"
  then obtain e where e: "e \<in> set (fs_nodes fs)" "snd (fst e) \<noteq> []" "proper_name n"
      "n = last (snd (fst e))" "fst (fst e) = fst (path_key p)"
      "butlast (snd (fst e)) = snd (path_key p)"
    by (auto simp: names)
  then have "fst e = (fst (path_key p), snd (path_key p) @ [n])"
    using append_butlast_last_id [OF e(2)] by (intro prod_eqI) simp_all
  with e show "proper_name n \<and> (fst (path_key p), snd (path_key p) @ [n]) \<in> fst ` set (fs_nodes fs)"
    by force
qed

lemma fs_file_not_dir: "fs_file fs k = Some t \<Longrightarrow> snd k \<noteq> [] \<Longrightarrow> \<not> fs_is_dir fs k"
  by (auto simp: fs_file_def fs_is_dir_def split: option.splits)

lemma read_to_string_file:
  "fs_read_fault fs (path_key p) = None \<Longrightarrow> fs_file fs (path_key p) = Some t \<Longrightarrow>
   snd (path_key p) \<noteq> [] \<Longrightarrow> read_to_string fs p = Ok t"
  using fs_file_not_dir [of fs "path_key p" t] by (simp add: read_to_string_def)

end
