(* ===== verification/Cfg_Types.thy ===== *)
theory Cfg_Types
  imports Rust_Fs
begin

text \<open>
  The vocabulary of the configuration tool: the command line of
  \<^verbatim>\<open>zebrafish-config/src/cli.rs\<close> and the errors its commands report. Every \<^verbatim>\<open>bail!\<close>,
  \<^verbatim>\<open>anyhow!\<close> and \<^verbatim>\<open>with_context\<close> of the crate has a constructor.
\<close>

section \<open>Errors\<close>

datatype efi_error =
    Lsblk rstr
  | Ambiguous nat
  | NoEfiPartition
  | Mount path path rstr

datatype cfg_error =
    InvalidKeyPath rstr
  | NoSectionName
  | FileForMachine
  | AddToMachine
  | NoEfiAccess
  | EmptyKeyPath
  | EmptySegmentList
  | NotATable rstr
  | NotAnArrayOfTables rstr
  | IndexOutOfRange nat rstr nat
  | AssignToIndex
  | NestedIndexSet
  | NestedIndexRemove
  | IoError rstr path io_error
  | TomlError rstr
  | NotABoolean rstr
  | MachineSectionRequired
  | MachineIdRequired
  | EfiError efi_error
  | MountStatus
  | KernelNotFound path
  | EditorNotRun rstr

section \<open>Command line\<close>

text \<open>The context handed to every subcommand.\<close>

record ctx =
  c_file :: "path option"
  c_efi_dir :: "path option"
  c_efi :: bool

record get_args =
  ga_key :: rstr
  ga_default :: "rstr option"
  ga_bool :: bool

record set_args =
  sa_key :: rstr
  sa_value :: rstr

datatype list_format = FormatToml | FormatJson | FormatShell

record list_args =
  la_section :: "rstr option"
  la_format :: list_format

record add_args =
  aa_section :: rstr

record remove_args =
  ra_key :: rstr

record path_args =
  pa_system :: bool
  pa_machine :: bool

record validate_args =
  va_machine :: bool
  va_system :: bool

datatype command =
    CmdGet get_args
  | CmdSet set_args
  | CmdList list_args
  | CmdAdd add_args
  | CmdRemove remove_args
  | CmdEdit
  | CmdPath path_args
  | CmdValidate validate_args

record cli =
  cli_efi :: bool
  cli_efi_dir :: "path option"
  cli_file :: "path option"
  cli_quiet :: bool
  cli_verbose :: bool
  cli_command :: command

definition from_cli :: "cli \<Rightarrow> ctx" where
  "from_cli c = \<lparr>c_file = cli_file c, c_efi_dir = cli_efi_dir c, c_efi = cli_efi c\<rparr>"

text \<open>The \<^verbatim>\<open>conflicts_with\<close> attributes: what the argument parser lets through.\<close>

definition cli_accepted :: "cli \<Rightarrow> bool" where
  "cli_accepted c \<longleftrightarrow>
     \<not> (cli_quiet c \<and> cli_verbose c) \<and>
     (case cli_command c of
        CmdGet a \<Rightarrow> \<not> (ga_bool a \<and> ga_default a \<noteq> None)
      | CmdPath a \<Rightarrow> \<not> (pa_system a \<and> pa_machine a)
      | CmdValidate a \<Rightarrow> \<not> (va_machine a \<and> va_system a)
      | _ \<Rightarrow> True)"

section \<open>Well-known files\<close>

definition SYSTEM_FILE :: path where
  "SYSTEM_FILE = lit ''/etc/zebrafish.toml''"

definition machine_file :: "path \<Rightarrow> path" where
  "machine_file efi_dir = path_join efi_dir (lit ''zebrafish.toml'')"

section \<open>Outcome of a subcommand\<close>

text \<open>
  What a subcommand leaves behind: its exit code, what it printed on standard output, the error
  it reported on standard error, and the file system.
\<close>

record outcome =
  o_exit :: nat
  o_stdout :: rstr
  o_error :: "cfg_error option"
  o_fs :: fsys

text \<open>
  The shape shared by every \<^verbatim>\<open>run\<close>: \<^verbatim>\<open>match run_inner(..) { Ok(code) => code, Err(e) => { eprintln!;
  ExitCode::from(1) } }\<close>. The inner result carries the exit code and the standard output.
\<close>

definition run_with :: "(cfg_error, nat \<times> rstr) result \<times> fsys \<Rightarrow> outcome" where
  "run_with r =
     (case r of
        (Inr (code, out), fs) \<Rightarrow>
          \<lparr>o_exit = code, o_stdout = out, o_error = None, o_fs = fs\<rparr>
      | (Inl e, fs) \<Rightarrow>
          \<lparr>o_exit = 1, o_stdout = [], o_error = Some e, o_fs = fs\<rparr>)"

lemma run_with_simps [simp]:
  "run_with (Err e, fs) = \<lparr>o_exit = 1, o_stdout = [], o_error = Some e, o_fs = fs\<rparr>"
  "run_with (Ok (code, out), fs) = \<lparr>o_exit = code, o_stdout = out, o_error = None, o_fs = fs\<rparr>"
  by (simp_all add: run_with_def)

lemma o_fs_run_with [simp]: "o_fs (run_with r) = snd r"
  by (simp add: run_with_def split: prod.split sum.split)

end
