(* ===== verification/Efi.thy ===== *)
theory Efi
  imports Cfg_Types "HOL-Library.Sublist"
begin

text \<open>
  Finding and mounting the EFI system partition, \<^verbatim>\<open>zebrafish-config/src/efi.rs\<close>. The programs
  \<^verbatim>\<open>lsblk\<close> and \<^verbatim>\<open>mount\<close> are not part of the repository: what running them yields is a parameter
  (\<open>efi_env\<close>). The table of mounts is the file \<^verbatim>\<open>/proc/mounts\<close> of the file system. The search for
  the kernel image is the source's loop over a stack of directories; it terminates because the
  stack always holds disjoint subtrees of a finite file system.
\<close>

section \<open>Definitions\<close>

definition EFI_MOUNT_POINT :: path where
  "EFI_MOUNT_POINT = lit ''/run/zebrafish/efi''"

definition KERNEL_IMAGE :: rstr where
  "KERNEL_IMAGE = lit ''zebrafish-kernel''"

text \<open>
  The external programs: \<open>lsblk_cmd\<close> is the failure to start \<^verbatim>\<open>lsblk\<close> or its success flag with its
  decoded output; \<open>mount_cmd\<close> is what \<^verbatim>\<open>mount -r -t vfat partition mount_point\<close> does, with the file
  system afterwards.
\<close>

record efi_env =
  lsblk_cmd :: "(rstr, bool \<times> rstr) result"
  mount_cmd :: "path \<Rightarrow> path \<Rightarrow> fsys \<Rightarrow> (rstr, bool) result \<times> fsys"

text \<open>The filter on the lines of \<^verbatim>\<open>lsblk -nr -o NAME,FSTYPE,PARTFLAGS\<close>.\<close>

definition efi_line :: "rstr \<Rightarrow> bool" where
  "efi_line line =
     (case split_whitespace line of
        _ # fstype # flags # _ \<Rightarrow> fstype = lit ''vfat'' \<and> flags = lit ''0x4''
      | _ \<Rightarrow> False)"

definition find_efi_partition :: "efi_env \<Rightarrow> (efi_error, rstr) result" where
  "find_efi_partition env =
     (case lsblk_cmd env of
        Inl e \<Rightarrow> Err (Lsblk e)
      | Inr (success, stdout) \<Rightarrow>
          if \<not> success then Err (Lsblk (lit ''lsblk exited with status''))
          else let found = map (\<lambda>line. hd (split_whitespace line)) (filter efi_line (lines stdout))
               in if length found = 1 then Ok (last found)
                  else if length found > 1 then Err (Ambiguous (length found))
                  else Err NoEfiPartition)"

definition is_mounted :: "path \<Rightarrow> fsys \<Rightarrow> (cfg_error, bool) result" where
  "is_mounted p fs =
     (case read_to_string fs (lit ''/proc/mounts'') of
        Inl e \<Rightarrow> Err (IoError (lit ''reading'') (lit ''/proc/mounts'') e)
      | Inr mounts \<Rightarrow>
          Ok (list_ex (\<lambda>line. case nth_opt (split_whitespace line) 1 of
                                Some m \<Rightarrow> path_key m = path_key p
                              | None \<Rightarrow> False)
                      (lines mounts)))"

definition mount_efi :: "efi_env \<Rightarrow> fsys \<Rightarrow> (cfg_error, path) result \<times> fsys" where
  "mount_efi env fs =
     (case find_efi_partition env of
        Inl e \<Rightarrow> (Err (EfiError e), fs)
      | Inr partition_name \<Rightarrow>
          let partition = lit ''/dev/'' @ partition_name
          in case create_dir_all EFI_MOUNT_POINT fs of
               (Inl e, fs1) \<Rightarrow> (Err (IoError (lit ''creating mount point'') EFI_MOUNT_POINT e), fs1)
             | (Inr _, fs1) \<Rightarrow>
                 (case is_mounted EFI_MOUNT_POINT fs1 of
                    Inl e \<Rightarrow> (Err e, fs1)
                  | Inr True \<Rightarrow> (Ok partition, fs1)
                  | Inr False \<Rightarrow>
                      (case mount_cmd env partition EFI_MOUNT_POINT fs1 of
                         (Inr True, fs2) \<Rightarrow> (Ok partition, fs2)
                       | (Inr False, fs2) \<Rightarrow> (Err MountStatus, fs2)
                       | (Inl e, fs2) \<Rightarrow> (Err (EfiError (Mount partition EFI_MOUNT_POINT e)), fs2))))"

text \<open>
  The loop of \<^verbatim>\<open>kernel_dir\<close>: the head of the list is the top of the stack, so the directories of a
  listing, pushed in order, come out in reverse. An unreadable directory is skipped.
\<close>

definition subdirs :: "fsys \<Rightarrow> path \<Rightarrow> path list" where
  "subdirs fs dir =
     (case read_dir fs dir of
        None \<Rightarrow> []
      | Some names \<Rightarrow>
          filter (\<lambda>p. fs_is_dir fs (path_key p)) (map (path_join dir) names))"

text \<open>The nodes strictly below a path: what the search may still have to visit.\<close>

definition below :: "fsys \<Rightarrow> path \<Rightarrow> fkey set" where
  "below fs p = {k \<in> fst ` set (fs_nodes fs).
                   fst k = fst (path_key p) \<and> strict_prefix (snd (path_key p)) (snd k)}"

lemma finite_below [simp]: "finite (below fs p)"
  by (simp add: below_def)

lemma subdirs_names:
  assumes "read_dir fs dir = Some names"
  shows "subdirs fs dir = filter (\<lambda>p. fs_is_dir fs (path_key p)) (map (path_join dir) names)"
  using assms by (simp add: subdirs_def)

lemma subdirs_key:
  assumes "read_dir fs dir = Some names" and "n \<in> set names"
  shows "path_key (path_join dir n) = (fst (path_key dir), snd (path_key dir) @ [n])"
    and "path_key (path_join dir n) \<in> below fs dir"
proof -
  note n = read_dir_names(2) [OF assms]
  then show key: "path_key (path_join dir n) = (fst (path_key dir), snd (path_key dir) @ [n])"
    by (intro path_key_join) (auto simp: proper_name_def)
  with n show "path_key (path_join dir n) \<in> below fs dir"
    by (simp add: below_def strict_prefix_def)
qed

lemma below_child:
  assumes "read_dir fs dir = Some names" and "n \<in> set names"
    and "k \<in> insert (path_key (path_join dir n)) (below fs (path_join dir n))"
  shows "k \<in> below fs dir \<and> prefix (snd (path_key dir) @ [n]) (snd k)"
proof (cases "k = path_key (path_join dir n)")
  case True
  with subdirs_key [OF assms(1,2)] show ?thesis by simp
next
  case False
  then have "strict_prefix (snd (path_key dir) @ [n]) (snd k)" "fst k = fst (path_key dir)"
      "k \<in> fst ` set (fs_nodes fs)"
    using assms(3) subdirs_key(1) [OF assms(1,2)] by (auto simp: below_def)
  then show ?thesis by (auto simp: below_def strict_prefix_def prefix_def)
qed

text \<open>The subtrees of the subdirectories are disjoint parts of what lies below the directory.\<close>

lemma below_subdirs:
  "sum_list (map (\<lambda>p. Suc (card (below fs p))) (subdirs fs dir)) \<le> card (below fs dir)"
proof (cases "read_dir fs dir")
  case None
  then show ?thesis by (simp add: subdirs_def)
next
  case (Some names)
  define tree where "tree n = insert (path_key (path_join dir n)) (below fs (path_join dir n))" for n
  define ns where "ns = filter (\<lambda>n. fs_is_dir fs (path_key (path_join dir n))) names"
  have ns: "distinct ns" "set ns \<subseteq> set names"
    using read_dir_names(1) [OF Some] by (auto simp: ns_def)
  have card_tree: "n \<in> set ns \<Longrightarrow> card (tree n) = Suc (card (below fs (path_join dir n)))" for n
    by (simp add: tree_def) (simp add: below_def)
  have prefix: "k \<in> below fs dir \<and> prefix (snd (path_key dir) @ [n]) (snd k)"
    if "n \<in> set ns" "k \<in> tree n" for n k
    using below_child [OF Some _ that(2) [unfolded tree_def]] ns(2) that(1) by blast
  have disjoint: "tree m \<inter> tree n = {}" if mn: "m \<in> set ns" "n \<in> set ns" "m \<noteq> n" for m n
  proof (rule ccontr)
    assume "tree m \<inter> tree n \<noteq> {}"
    then obtain k where k: "k \<in> tree m" "k \<in> tree n" by auto
    from prefix [OF mn(1) k(1)] prefix [OF mn(2) k(2)] mn(3)
    show False by (auto simp: prefix_def)
  qed
  have "map (\<lambda>p. Suc (card (below fs p))) (subdirs fs dir) =
        map (\<lambda>n. Suc (card (below fs (path_join dir n)))) ns"
    by (simp add: subdirs_names [OF Some] ns_def filter_map o_def)
  also have "\<dots> = map (\<lambda>n. card (tree n)) ns" using card_tree by simp
  finally have "sum_list (map (\<lambda>p. Suc (card (below fs p))) (subdirs fs dir)) =
        sum_list (map (\<lambda>n. card (tree n)) ns)" by simp
  also have "\<dots> = (\<Sum>n \<in> set ns. card (tree n))"
    using ns(1) by (simp add: sum_list_distinct_conv_sum_set)
  also have "\<dots> = card (\<Union>n \<in> set ns. tree n)"
    using disjoint by (subst card_UN_disjoint) (auto simp: tree_def)
  also have "\<dots> \<le> card (below fs dir)"
    using prefix by (intro card_mono) auto
  finally show ?thesis .
qed

function kernel_loop :: "fsys \<Rightarrow> path list \<Rightarrow> path option" where
  "kernel_loop fs [] = None"
| "kernel_loop fs (dir # stack) =
     (if fs_exists fs (path_join dir KERNEL_IMAGE) then Some dir
      else kernel_loop fs (rev (subdirs fs dir) @ stack))"
  by pat_completeness auto
termination
proof (relation "measure (\<lambda>(fs, stack). sum_list (map (\<lambda>p. Suc (card (below fs p))) stack))")
  fix fs :: fsys and dir :: path and stack :: "path list"
  show "((fs, rev (subdirs fs dir) @ stack), (fs, dir # stack)) \<in>
        measure (\<lambda>(fs, stack). sum_list (map (\<lambda>p. Suc (card (below fs p))) stack))"
    using below_subdirs [of fs dir]
    by (simp add: rev_map [symmetric] sum_list_rev)
qed simp

definition kernel_dir :: "path \<Rightarrow> fsys \<Rightarrow> (cfg_error, path) result" where
  "kernel_dir efi_mount fs =
     (case kernel_loop fs [efi_mount] of
        Some dir \<Rightarrow> Ok dir
      | None \<Rightarrow> Err (KernelNotFound efi_mount))"

definition discover_efi_dir :: "efi_env \<Rightarrow> fsys \<Rightarrow> (cfg_error, path) result \<times> fsys" where
  "discover_efi_dir env fs =
     (case mount_efi env fs of
        (Inl e, fs1) \<Rightarrow> (Err e, fs1)
      | (Inr _, fs1) \<Rightarrow> (kernel_dir EFI_MOUNT_POINT fs1, fs1))"

declare kernel_loop.simps(2) [simp del]

text \<open>
  What looking for the EFI directory may do to the file system: nothing, or create the mount point,
  or create it and run \<^verbatim>\<open>mount\<close> once on the one partition found, when nothing is mounted there yet.
\<close>

definition mount_effect :: "efi_env \<Rightarrow> fsys \<Rightarrow> fsys \<Rightarrow> bool" where
  "mount_effect env fs fs' \<longleftrightarrow>
     (let fs1 = snd (create_dir_all EFI_MOUNT_POINT fs)
      in fs' = fs \<or> fs' = fs1 \<or>
         (\<exists>partition. find_efi_partition env = Ok partition \<and> is_mounted EFI_MOUNT_POINT fs1 = Ok False \<and>
            fs' = snd (mount_cmd env (lit ''/dev/'' @ partition) EFI_MOUNT_POINT fs1)))"

lemma mount_effect_refl [simp]: "mount_effect env fs fs"
  by (simp add: mount_effect_def Let_def)

lemma discover_effect: "mount_effect env fs (snd (discover_efi_dir env fs))"
  by (auto simp: discover_efi_dir_def mount_efi_def mount_effect_def Let_def
      split: sum.split prod.split bool.split)

lemma mount_effect_files:
  assumes "mount_effect env fs fs'"
    and "\<And>d g. fs_file (snd (mount_cmd env d EFI_MOUNT_POINT g)) k = fs_file g k"
  shows "fs_file fs' k = fs_file fs k"
  using assms create_dir_all_files [of EFI_MOUNT_POINT fs]
  by (auto simp: mount_effect_def Let_def)

section \<open>The directories below the mount point\<close>

text \<open>
  The tree of the file system, without the program's functions: a chain of names leads from a directory
  downwards when every name is that of a subdirectory and every directory it leaves can be listed.
\<close>

fun descends :: "fsys \<Rightarrow> fkey \<Rightarrow> rstr list \<Rightarrow> bool" where
  "descends fs k [] \<longleftrightarrow> True"
| "descends fs (a, ps) (n # ns) \<longleftrightarrow>
     fs_is_dir fs (a, ps) \<and> fs_read_fault fs (a, ps) = None \<and> proper_name n \<and>
     fs_is_dir fs (a, ps @ [n]) \<and> descends fs (a, ps @ [n]) ns"

definition node_exists :: "fsys \<Rightarrow> fkey \<Rightarrow> bool" where
  "node_exists fs k \<longleftrightarrow> snd k = [] \<or> map_of (fs_nodes fs) k \<noteq> None"

text \<open>The directory a chain of names leads to holds the image.\<close>

definition image_at :: "fsys \<Rightarrow> fkey \<Rightarrow> rstr list \<Rightarrow> bool" where
  "image_at fs k ns \<longleftrightarrow> descends fs k ns \<and> node_exists fs (fst k, snd k @ ns @ [KERNEL_IMAGE])"

lemma fs_exists_node: "fs_exists fs p \<longleftrightarrow> node_exists fs (path_key p)"
  by (auto simp: fs_exists_def node_exists_def fs_is_dir_def fs_file_def split: option.splits node.splits)

lemma proper_KERNEL_IMAGE: "proper_name KERNEL_IMAGE"
  by code_simp

lemma image_at_Nil:
  "image_at fs (path_key d) [] \<longleftrightarrow> fs_exists fs (path_join d KERNEL_IMAGE)"
proof -
  have "path_key (path_join d KERNEL_IMAGE) = (fst (path_key d), snd (path_key d) @ [KERNEL_IMAGE])"
    using proper_KERNEL_IMAGE by (intro path_key_join) (auto simp: proper_name_def)
  then show ?thesis by (simp add: image_at_def fs_exists_node)
qed

lemma image_at_Cons:
  "image_at fs (a, ps) (n # ns) \<longleftrightarrow>
     fs_is_dir fs (a, ps) \<and> fs_read_fault fs (a, ps) = None \<and> proper_name n \<and>
     fs_is_dir fs (a, ps @ [n]) \<and> image_at fs (a, ps @ [n]) ns"
  by (auto simp: image_at_def)

lemma read_dir_iff:
  assumes "read_dir fs p = Some names" and "fs_is_dir fs (fst (path_key p), snd (path_key p) @ [n])"
  shows "n \<in> set names \<longleftrightarrow> proper_name n"
proof -
  let ?k = "(fst (path_key p), snd (path_key p) @ [n])"
  obtain v where "(?k, v) \<in> set (fs_nodes fs)" using assms(2) map_of_SomeD by (fastforce simp: fs_is_dir_def)
  then have "proper_name n \<Longrightarrow> n \<in> set names"
    using assms(1) by (force simp: read_dir_def Let_def split: if_split_asm)
  with read_dir_names(2) [OF assms(1)] show ?thesis by blast
qed

text \<open>The loop pushes exactly the subdirectories of the tree.\<close>

lemma subdirs_tree:
  "path_key ` set (subdirs fs d) =
     {(fst (path_key d), snd (path_key d) @ [n]) |n. descends fs (path_key d) [n]}"
proof -
  obtain a ps where d: "path_key d = (a, ps)" by fastforce
  show ?thesis
  proof (cases "read_dir fs d")
    case None
    then show ?thesis by (auto simp: subdirs_def read_dir_def Let_def d split: if_split_asm)
  next
    case (Some names)
    then have dir: "fs_is_dir fs (a, ps)" "fs_read_fault fs (a, ps) = None"
      by (auto simp: read_dir_def Let_def d split: if_split_asm)
    have "path_key ` set (subdirs fs d) =
        path_key ` path_join d ` {n \<in> set names. fs_is_dir fs (path_key (path_join d n))}"
      by (auto simp: subdirs_names [OF Some])
    also have "\<dots> = (\<lambda>n. (a, ps @ [n])) ` {n \<in> set names. fs_is_dir fs (a, ps @ [n])}"
      using subdirs_key(1) [OF Some] d by (force simp: image_image)
    also have "{n \<in> set names. fs_is_dir fs (a, ps @ [n])} = {n. descends fs (a, ps) [n]}"
      using read_dir_iff [OF Some] dir d by auto
    finally show ?thesis by (auto simp: d)
  qed
qed

text \<open>An image below a directory is in it or below one of its subdirectories.\<close>

lemma image_below:
  "(\<exists>ns. image_at fs (path_key d) ns) \<longleftrightarrow>
     fs_exists fs (path_join d KERNEL_IMAGE) \<or> (\<exists>d' \<in> set (subdirs fs d). \<exists>ns. image_at fs (path_key d') ns)"
proof -
  obtain a ps where d: "path_key d = (a, ps)" by fastforce
  have "(\<exists>n ns. image_at fs (a, ps) (n # ns)) \<longleftrightarrow>
      (\<exists>k \<in> path_key ` set (subdirs fs d). \<exists>ns. image_at fs k ns)"
    unfolding subdirs_tree d by (auto simp: image_at_Cons)
  moreover have "(\<exists>ns. image_at fs (a, ps) ns) \<longleftrightarrow> image_at fs (a, ps) [] \<or> (\<exists>n ns. image_at fs (a, ps) (n # ns))"
    by (metis neq_Nil_conv)
  ultimately show ?thesis using image_at_Nil [of fs d] d by auto
qed

lemma kernel_loop_Some:
  "kernel_loop fs stack = Some d \<Longrightarrow>
   \<exists>r \<in> set stack. \<exists>ns. path_key d = (fst (path_key r), snd (path_key r) @ ns) \<and> image_at fs (path_key r) ns"
proof (induction fs stack rule: kernel_loop.induct)
  case (2 fs dir stack)
  obtain a ps where dir: "path_key dir = (a, ps)" by fastforce
  show ?case
  proof (cases "fs_exists fs (path_join dir KERNEL_IMAGE)")
    case True
    with 2(2) show ?thesis using image_at_Nil [of fs dir] by (auto simp: kernel_loop.simps(2) intro!: exI [of _ "[]"])
  next
    case False
    with 2 obtain r ns where r: "r \<in> set (subdirs fs dir) \<union> set stack"
        "path_key d = (fst (path_key r), snd (path_key r) @ ns)" "image_at fs (path_key r) ns"
      by (auto simp: kernel_loop.simps(2))
    show ?thesis
    proof (cases "r \<in> set stack")
      case False
      with r(1) have "path_key r \<in> path_key ` set (subdirs fs dir)" by blast
      then obtain n where "path_key r = (a, ps @ [n])" "descends fs (a, ps) [n]"
        unfolding subdirs_tree dir by auto
      with r dir show ?thesis by (auto simp: image_at_Cons intro!: exI [of _ "n # ns"])
    qed (use r in auto)
  qed
qed simp

lemma kernel_loop_None:
  "kernel_loop fs stack = None \<Longrightarrow> r \<in> set stack \<Longrightarrow> \<not> image_at fs (path_key r) ns"
proof (induction fs stack arbitrary: r ns rule: kernel_loop.induct)
  case (2 fs dir stack)
  from 2(2) have no: "\<not> fs_exists fs (path_join dir KERNEL_IMAGE)"
    and rest: "kernel_loop fs (rev (subdirs fs dir) @ stack) = None"
    by (auto simp: kernel_loop.simps(2) split: if_splits)
  have later: "\<not> image_at fs (path_key r') ns'" if "r' \<in> set (subdirs fs dir) \<union> set stack" for r' ns'
    using 2(1) [OF no rest] that by auto
  then have "\<nexists>ns'. image_at fs (path_key dir) ns'" using no image_below [of fs dir] by blast
  with later 2(3) show ?case by auto
qed simp

section \<open>Properties\<close>

text \<open>
  C21. The search for the kernel image is exact, against the tree of the file system: it returns a
  directory that holds \<^verbatim>\<open>zebrafish-kernel\<close> and is reached from the mount point by a chain of
  subdirectories, and it reports failure precisely when no chain through directories that can be
  listed leads to one. It always ends, since \<open>kernel_dir\<close> is a total function.
\<close>

theorem kernel_dir_exact:
  "case kernel_dir efi_mount fs of
     Inr d \<Rightarrow> \<exists>ns. path_key d = (fst (path_key efi_mount), snd (path_key efi_mount) @ ns) \<and>
                 descends fs (path_key efi_mount) ns \<and>
                 node_exists fs (fst (path_key efi_mount), snd (path_key efi_mount) @ ns @ [KERNEL_IMAGE])
   | Inl e \<Rightarrow> e = KernelNotFound efi_mount \<and>
       (\<nexists>ns. descends fs (path_key efi_mount) ns \<and>
             node_exists fs (fst (path_key efi_mount), snd (path_key efi_mount) @ ns @ [KERNEL_IMAGE]))"
proof (cases "kernel_loop fs [efi_mount]")
  case None
  then show ?thesis using kernel_loop_None [OF None] by (simp add: kernel_dir_def image_at_def)
next
  case (Some d)
  then show ?thesis using kernel_loop_Some [OF Some] by (auto simp: kernel_dir_def image_at_def)
qed

end
