(* ===== verification/Load.thy ===== *)
theory Load
  imports Schema Efi
begin

text \<open>
  \<^verbatim>\<open>zebrafish-config/src/load.rs\<close> and \<^verbatim>\<open>Config::from_toml\<close>: which files the read commands read, and how the two
  texts become one configuration. The \<^verbatim>\<open>toml\<close> and \<^verbatim>\<open>serde_json\<close> crates are parameters, collected in a record:
  parsing a text into a table, and printing.
\<close>

section \<open>Definitions\<close>

text \<open>
  \<open>tc_parse\<close> is the syntax half of \<^verbatim>\<open>toml::from_str\<close>, \<open>tc_show\<close> is \<^verbatim>\<open>Display\<close> of \<^verbatim>\<open>toml::Value\<close>, \<open>tc_show_float\<close> and
  \<open>tc_show_datetime\<close> are \<^verbatim>\<open>Display\<close> of the scalar types, \<open>tc_pretty\<close> is \<^verbatim>\<open>toml::to_string_pretty\<close>, \<open>tc_json\<close> and
  \<open>tc_json_config\<close> are \<^verbatim>\<open>serde_json::to_string_pretty\<close>.
\<close>

record toml_crate =
  tc_parse :: "rstr \<Rightarrow> (rstr, toml_table) result"
  tc_show :: "toml_value \<Rightarrow> rstr"
  tc_show_float :: "f64 \<Rightarrow> rstr"
  tc_show_datetime :: "rstr \<Rightarrow> rstr"
  tc_pretty :: "config \<Rightarrow> (rstr, rstr) result"
  tc_json :: "toml_value \<Rightarrow> (rstr, rstr) result"
  tc_json_config :: "config \<Rightarrow> (rstr, rstr) result"

definition from_toml :: "toml_crate \<Rightarrow> rstr \<Rightarrow> (cfg_error, config) result" where
  "from_toml tc s =
     (case tc_parse tc s of
        Inl e \<Rightarrow> Err (TomlError e)
      | Inr t \<Rightarrow>
          (case de_config (TTable t) of
             None \<Rightarrow> Err (TomlError (lit ''schema''))
           | Some cfg \<Rightarrow> Ok cfg))"

definition resolve_paths ::
  "efi_env \<Rightarrow> path option \<Rightarrow> bool \<Rightarrow> bool \<Rightarrow> fsys \<Rightarrow> (path option \<times> path option) \<times> fsys" where
  "resolve_paths env efi_dir_override machine_only efi fs =
     (let system = (if machine_only then None else Some SYSTEM_FILE)
      in case efi_dir_override of
           Some d \<Rightarrow> ((system, Some (machine_file d)), fs)
         | None \<Rightarrow>
             if efi then
               (case discover_efi_dir env fs of
                  (Inr d, fs1) \<Rightarrow> ((system, Some (machine_file d)), fs1)
                | (Inl _, fs1) \<Rightarrow> ((system, None), fs1))
             else ((system, None), fs))"

definition read_optional :: "path \<Rightarrow> fsys \<Rightarrow> (cfg_error, rstr) result" where
  "read_optional p fs =
     (case read_to_string fs p of
        Inr s \<Rightarrow> Ok s
      | Inl NotFound \<Rightarrow> Ok []
      | Inl e \<Rightarrow> Err (IoError (lit ''reading'') p e))"

definition read_part :: "path option \<Rightarrow> fsys \<Rightarrow> (cfg_error, rstr) result" where
  "read_part p fs = (case p of Some q \<Rightarrow> read_optional q fs | None \<Rightarrow> Ok [])"

definition load_from_paths ::
  "toml_crate \<Rightarrow> path option \<Rightarrow> path option \<Rightarrow> fsys \<Rightarrow> (cfg_error, config) result" where
  "load_from_paths tc system machine fs =
     bind_result (read_part machine fs) (\<lambda>machine_text.
       bind_result (read_part system fs) (\<lambda>system_text.
         from_toml tc (machine_text @ [10] @ system_text)))"

definition load ::
  "toml_crate \<Rightarrow> efi_env \<Rightarrow> path option \<Rightarrow> bool \<Rightarrow> bool \<Rightarrow> fsys \<Rightarrow> (cfg_error, config) result \<times> fsys" where
  "load tc env efi_dir_override machine_only efi fs =
     (case resolve_paths env efi_dir_override machine_only efi fs of
        ((system, machine), fs1) \<Rightarrow> (load_from_paths tc system machine fs1, fs1))"

section \<open>Lemmas\<close>

lemma resolve_paths_no_discovery:
  "d \<noteq> None \<or> \<not> efi \<Longrightarrow> snd (resolve_paths env d mo efi fs) = fs"
  by (auto simp: resolve_paths_def Let_def split: option.split)

lemma load_no_discovery: "d \<noteq> None \<or> \<not> efi \<Longrightarrow> snd (load tc env d mo efi fs) = fs"
  using resolve_paths_no_discovery [of d efi env mo fs]
  by (auto simp: load_def split: prod.split)

lemma read_optional_missing:
  "fs_read_fault fs (path_key p) = None \<Longrightarrow> \<not> fs_is_dir fs (path_key p) \<Longrightarrow>
   fs_file fs (path_key p) = None \<Longrightarrow> read_optional p fs = Ok []"
  by (simp add: read_optional_def read_to_string_def)

lemma read_optional_file:
  "fs_read_fault fs (path_key p) = None \<Longrightarrow> snd (path_key p) \<noteq> [] \<Longrightarrow>
   fs_file fs (path_key p) = Some t \<Longrightarrow> read_optional p fs = Ok t"
  using read_to_string_file [of fs p t] by (simp add: read_optional_def)

end
