(* ===== verification/Cmd_Read.thy ===== *)
theory Cmd_Read
  imports Load
begin

text \<open>
  The commands that only read: \<^verbatim>\<open>get.rs\<close>, \<^verbatim>\<open>validate.rs\<close> and the \<^verbatim>\<open>path\<close> subcommand of \<^verbatim>\<open>path.rs\<close>. Each is
  \<^verbatim>\<open>run_inner\<close> wrapped by \<open>run_with\<close>; standard output is part of the result.
\<close>

section \<open>get\<close>

definition show_bool :: "bool \<Rightarrow> rstr" where
  "show_bool b = (if b then lit ''true'' else lit ''false'')"

fun print_value :: "toml_crate \<Rightarrow> toml_value \<Rightarrow> rstr" where
  "print_value tc (TString s) = s"
| "print_value tc (TInteger i) = show_int i"
| "print_value tc (TFloat f) = tc_show_float tc f"
| "print_value tc (TBoolean b) = show_bool b"
| "print_value tc (TDatetime d) = tc_show_datetime tc d"
| "print_value tc (TArray a) = tc_show tc (TArray a)"
| "print_value tc (TTable t) = tc_show tc (TTable t)"

text \<open>The configuration a read command works on, with the context for an unreadable \<^verbatim>\<open>--file\<close>.\<close>

definition read_config ::
  "toml_crate \<Rightarrow> efi_env \<Rightarrow> rstr \<Rightarrow> ctx \<Rightarrow> fsys \<Rightarrow> (cfg_error, config) result \<times> fsys" where
  "read_config tc env context ctx fs =
     (case c_file ctx of
        Some f \<Rightarrow>
          (case read_to_string fs f of
             Inl e \<Rightarrow> (Err (IoError context f e), fs)
           | Inr content \<Rightarrow> (from_toml tc content, fs))
      | None \<Rightarrow> load tc env (c_efi_dir ctx) False (c_efi ctx) fs)"

definition get_value :: "toml_crate \<Rightarrow> get_args \<Rightarrow> toml_value option \<Rightarrow> (cfg_error, nat \<times> rstr) result" where
  "get_value tc args found =
     (case found of
        None \<Rightarrow>
          (case ga_default args of
             Some d \<Rightarrow> Ok (0, d)
           | None \<Rightarrow> if ga_bool args then Ok (2, []) else Ok (1, []))
      | Some v \<Rightarrow>
          if ga_bool args then
            (case as_bool v of
               Some b \<Rightarrow> Ok (0, show_bool b)
             | None \<Rightarrow> Err (NotABoolean (ga_key args)))
          else Ok (0, print_value tc v))"

definition get_run_inner ::
  "toml_crate \<Rightarrow> efi_env \<Rightarrow> ctx \<Rightarrow> get_args \<Rightarrow> fsys \<Rightarrow> (cfg_error, nat \<times> rstr) result \<times> fsys" where
  "get_run_inner tc env ctx args fs =
     (case parse (ga_key args) of
        None \<Rightarrow> (Err (InvalidKeyPath (ga_key args)), fs)
      | Some key \<Rightarrow>
          (case read_config tc env (lit ''reading'') ctx fs of
             (Inl e, fs1) \<Rightarrow> (Err e, fs1)
           | (Inr cfg, fs1) \<Rightarrow> (get_value tc args (lookup key cfg), fs1)))"

definition get_run :: "toml_crate \<Rightarrow> efi_env \<Rightarrow> ctx \<Rightarrow> get_args \<Rightarrow> fsys \<Rightarrow> outcome" where
  "get_run tc env ctx args fs = run_with (get_run_inner tc env ctx args fs)"

section \<open>validate\<close>

definition validate_required :: "config \<Rightarrow> (cfg_error, unit) result" where
  "validate_required cfg =
     (case cfg_machine cfg of
        None \<Rightarrow> Err MachineSectionRequired
      | Some m \<Rightarrow> if mc_id m = [] then Err MachineIdRequired else Ok ())"

definition validate_run_inner ::
  "toml_crate \<Rightarrow> efi_env \<Rightarrow> ctx \<Rightarrow> validate_args \<Rightarrow> fsys \<Rightarrow>
   (cfg_error, nat \<times> rstr) result \<times> fsys" where
  "validate_run_inner tc env ctx args fs =
     (case c_file ctx of
        Some f \<Rightarrow>
          (bind_result
             (case read_to_string fs f of
                Inl e \<Rightarrow> Err (IoError [] f e)
              | Inr content \<Rightarrow> bind_result (from_toml tc content) validate_required)
             (\<lambda>_. Ok (0, [])), fs)
      | None \<Rightarrow>
          if va_machine args then
            (case load tc env (c_efi_dir ctx) True (c_efi ctx) fs of
               (Inl e, fs1) \<Rightarrow> (Err e, fs1)
             | (Inr cfg, fs1) \<Rightarrow>
                 (case cfg_machine cfg of
                    None \<Rightarrow> (Err MachineSectionRequired, fs1)
                  | Some m \<Rightarrow>
                      if mc_id m = [] then (Err MachineIdRequired, fs1) else (Ok (0, []), fs1)))
          else if va_system args then
            (let content = (case read_to_string fs SYSTEM_FILE of Inl _ \<Rightarrow> [] | Inr s \<Rightarrow> s)
             in (bind_result (bind_result (from_toml tc content) validate_required)
                   (\<lambda>_. Ok (0, [])), fs))
          else
            (case load tc env (c_efi_dir ctx) False (c_efi ctx) fs of
               (Inl e, fs1) \<Rightarrow> (Err e, fs1)
             | (Inr cfg, fs1) \<Rightarrow> (bind_result (validate_required cfg) (\<lambda>_. Ok (0, [])), fs1)))"

definition validate_run :: "toml_crate \<Rightarrow> efi_env \<Rightarrow> ctx \<Rightarrow> validate_args \<Rightarrow> fsys \<Rightarrow> outcome" where
  "validate_run tc env ctx args fs = run_with (validate_run_inner tc env ctx args fs)"

section \<open>path\<close>

definition println :: "rstr \<Rightarrow> rstr" where
  "println s = s @ [10]"

definition path_run_inner ::
  "efi_env \<Rightarrow> ctx \<Rightarrow> path_args \<Rightarrow> fsys \<Rightarrow> (cfg_error, nat \<times> rstr) result \<times> fsys" where
  "path_run_inner env ctx args fs =
     (let system = (if pa_machine args then None else Some SYSTEM_FILE);
          (machine, fs1) =
            (if pa_system args then (Ok None, fs)
             else case c_efi_dir ctx of
                    Some d \<Rightarrow> (Ok (Some (machine_file d)), fs)
                  | None \<Rightarrow>
                      if c_efi ctx then
                        (case discover_efi_dir env fs of
                           (Inl e, fs1) \<Rightarrow> (Err e, fs1)
                         | (Inr d, fs1) \<Rightarrow> (Ok (Some (machine_file d)), fs1))
                      else (Err NoEfiAccess, fs))
      in (bind_result machine (\<lambda>m.
            Ok (0, (case (system, m) of
                      (Some s, Some p) \<Rightarrow> println s @ println p
                    | (Some s, None) \<Rightarrow> println s
                    | (None, Some p) \<Rightarrow> println p
                    | (None, None) \<Rightarrow> []))), fs1))"

definition path_run :: "efi_env \<Rightarrow> ctx \<Rightarrow> path_args \<Rightarrow> fsys \<Rightarrow> outcome" where
  "path_run env ctx args fs = run_with (path_run_inner env ctx args fs)"

section \<open>Lemmas\<close>

lemma read_config_fs:
  "c_file ctx \<noteq> None \<or> c_efi_dir ctx \<noteq> None \<or> \<not> c_efi ctx \<Longrightarrow>
   snd (read_config tc env context ctx fs) = fs"
  by (auto simp: read_config_def load_no_discovery split: option.split sum.split)

lemma validate_required_iff:
  "validate_required cfg = Ok () \<longleftrightarrow> (\<exists>m. cfg_machine cfg = Some m \<and> mc_id m \<noteq> [])"
  by (auto simp: validate_required_def split: option.split)

section \<open>Properties\<close>

text \<open>
  C30. The exit codes of \<^verbatim>\<open>get\<close>: 2 exactly when a readable configuration lacks the key and \<^verbatim>\<open>--bool\<close> was
  given without a default; 0 exactly when the key is there (and a Boolean, under \<^verbatim>\<open>--bool\<close>) or a
  default replaces it, and then the output is the default or the value's text; everything else,
  an unreadable or invalid configuration included, is 1 with no output.
\<close>

theorem get_exit_codes:
  "(o_exit (get_run tc env ctx args fs) = 2 \<longleftrightarrow>
      (\<exists>key cfg. parse (ga_key args) = Some key \<and>
         fst (read_config tc env (lit ''reading'') ctx fs) = Ok cfg \<and>
         lookup key cfg = None \<and> ga_bool args \<and> ga_default args = None)) \<and>
   (o_exit (get_run tc env ctx args fs) = 0 \<longleftrightarrow>
      (\<exists>key cfg. parse (ga_key args) = Some key \<and>
         fst (read_config tc env (lit ''reading'') ctx fs) = Ok cfg \<and>
         (lookup key cfg = None \<and> ga_default args = Some (o_stdout (get_run tc env ctx args fs)) \<or>
          (\<exists>v. lookup key cfg = Some v \<and> \<not> (ga_bool args \<and> as_bool v = None) \<and>
             o_stdout (get_run tc env ctx args fs) = print_value tc v)))) \<and>
   o_exit (get_run tc env ctx args fs) \<in> {0, 1, 2} \<and>
   (o_exit (get_run tc env ctx args fs) = 0 \<or> o_stdout (get_run tc env ctx args fs) = [])"
proof (cases "parse (ga_key args)")
  case None
  then show ?thesis by (simp add: get_run_def get_run_inner_def)
next
  case (Some key)
  obtain r fs1 where rc: "read_config tc env (lit ''reading'') ctx fs = (r, fs1)"
    by (cases "read_config tc env (lit ''reading'') ctx fs")
  show ?thesis
  proof (cases r)
    case (Inl e)
    with Some rc show ?thesis by (simp add: get_run_def get_run_inner_def)
  next
    case (Inr cfg)
    with Some rc have run: "get_run tc env ctx args fs = run_with (get_value tc args (lookup key cfg), fs1)"
      by (simp add: get_run_def get_run_inner_def)
    show ?thesis
    proof (cases "lookup key cfg")
      case None
      with run Some rc Inr show ?thesis
        by (auto simp: get_value_def split: option.split)
    next
      case (Some v)
      with run \<open>parse (ga_key args) = Some key\<close> rc Inr show ?thesis
        by (auto simp: get_value_def split: option.split)
    qed
  qed
qed

text \<open>
  C36. \<^verbatim>\<open>validate\<close> without flags accepts exactly the merged configurations that load and have a
  \<^verbatim>\<open>[machine]\<close> section with a non-empty id; with \<^verbatim>\<open>--file\<close> the same is asked of that one file.
\<close>

theorem validate_accepts:
  "(o_exit (validate_run tc env (ctx\<lparr>c_file := None\<rparr>) \<lparr>va_machine = False, va_system = False\<rparr> fs) = 0
      \<longleftrightarrow> (\<exists>cfg m. fst (load tc env (c_efi_dir ctx) False (c_efi ctx) fs) = Ok cfg \<and>
            cfg_machine cfg = Some m \<and> mc_id m \<noteq> [])) \<and>
   (o_exit (validate_run tc env (ctx\<lparr>c_file := Some f\<rparr>) args fs) = 0
      \<longleftrightarrow> (\<exists>content cfg m. read_to_string fs f = Ok content \<and> from_toml tc content = Ok cfg \<and>
            cfg_machine cfg = Some m \<and> mc_id m \<noteq> []))"
proof
  obtain r fs1 where l: "load tc env (c_efi_dir ctx) False (c_efi ctx) fs = (r, fs1)"
    by (cases "load tc env (c_efi_dir ctx) False (c_efi ctx) fs")
  show "o_exit (validate_run tc env (ctx\<lparr>c_file := None\<rparr>) \<lparr>va_machine = False, va_system = False\<rparr> fs) = 0
      \<longleftrightarrow> (\<exists>cfg m. fst (load tc env (c_efi_dir ctx) False (c_efi ctx) fs) = Ok cfg \<and>
            cfg_machine cfg = Some m \<and> mc_id m \<noteq> [])"
    using l
    by (cases r) (auto simp: validate_run_def validate_run_inner_def validate_required_def
        split: option.split)
  show "o_exit (validate_run tc env (ctx\<lparr>c_file := Some f\<rparr>) args fs) = 0
      \<longleftrightarrow> (\<exists>content cfg m. read_to_string fs f = Ok content \<and> from_toml tc content = Ok cfg \<and>
            cfg_machine cfg = Some m \<and> mc_id m \<noteq> [])"
    by (cases "read_to_string fs f"; cases "from_toml tc (projr (read_to_string fs f))")
       (auto simp: validate_run_def validate_run_inner_def validate_required_def split: option.split)
qed

text \<open>
  C37. \<^verbatim>\<open>validate --system\<close> rejects every system file that leaves \<^verbatim>\<open>[machine]\<close> to the EFI partition, where
  the write commands put it.
\<close>

theorem validate_system_wants_machine:
  assumes "c_file ctx = None" and "read_to_string fs SYSTEM_FILE = Ok content"
    and "tc_parse tc content = Ok t" and "map_of t (lit ''machine'') = None"
  shows "o_exit (validate_run tc env ctx \<lparr>va_machine = False, va_system = True\<rparr> fs) = 1"
proof (cases "de_config (TTable t)")
  case None
  with assms show ?thesis by (simp add: validate_run_def validate_run_inner_def from_toml_def)
next
  case (Some cfg)
  then have "cfg_machine cfg = None"
    using assms(4) by (auto simp: de_config_def opt_field_def bind_eq_Some_conv)
  with Some assms show ?thesis
    by (simp add: validate_run_def validate_run_inner_def from_toml_def validate_required_def)
qed

text \<open>A system file without \<^verbatim>\<open>[machine]\<close>, and a reader of the empty text.\<close>

definition fs_sys :: fsys where
  "fs_sys = set_node (path_key SYSTEM_FILE) (FileNode []) empty_fs"

definition tc_empty :: toml_crate where
  "tc_empty = \<lparr>tc_parse = (\<lambda>s. if s = [] then Ok [] else Err []), tc_show = (\<lambda>_. []),
     tc_show_float = (\<lambda>_. []), tc_show_datetime = (\<lambda>_. []), tc_pretty = (\<lambda>_. Ok []),
     tc_json = (\<lambda>_. Ok []), tc_json_config = (\<lambda>_. Ok [])\<rparr>"

theorem validate_system_wants_machine_witness:
  "o_exit (validate_run tc_empty \<lparr>lsblk_cmd = Err [], mount_cmd = (\<lambda>_ _ fs. (Err [], fs))\<rparr>
     \<lparr>c_file = None, c_efi_dir = None, c_efi = False\<rparr>
     \<lparr>va_machine = False, va_system = True\<rparr> fs_sys) = 1"
proof (rule validate_system_wants_machine [where content = "[]" and t = "[]"])
  have "snd (path_key SYSTEM_FILE) \<noteq> []"
    by (simp add: SYSTEM_FILE_def path_key_def path_pieces_def trivial_piece_def str_simps)
  then show "read_to_string fs_sys SYSTEM_FILE = Ok []"
    by (intro read_to_string_file) (simp_all add: fs_sys_def fs_simps)
qed (simp_all add: tc_empty_def)

end
