(* ===== verification/Cmd_List.thy ===== *)
theory Cmd_List
  imports Cmd_Read
begin

text \<open>
  \<^verbatim>\<open>zebrafish-config/src/list.rs\<close>: printing the configuration or a section as TOML, JSON or shell
  variables. The init scripts evaluate the shell form, so the theorems read it back with a
  model of the shell's assignment syntax: whatever the strings contain, evaluating the output
  assigns exactly the configuration's values and executes nothing else.
\<close>

section \<open>Definitions\<close>

text \<open>
  \<^verbatim>\<open>str::to_uppercase\<close>: characters map one by one. The mapping outside ASCII is a parameter.
\<close>

definition ascii_upper :: "rchar \<Rightarrow> rchar" where
  "ascii_upper c = (if 97 \<le> c \<and> c \<le> 122 then c - 32 else c)"

definition to_uppercase :: "(rchar \<Rightarrow> rstr) \<Rightarrow> rstr \<Rightarrow> rstr" where
  "to_uppercase up s = concat (map (\<lambda>c. if c < 128 then [ascii_upper c] else up c) s)"

definition replace_char :: "rchar \<Rightarrow> rstr \<Rightarrow> rstr \<Rightarrow> rstr" where
  "replace_char c r s = concat (map (\<lambda>x. if x = c then r else [x]) s)"

definition shell_name :: "(rchar \<Rightarrow> rstr) \<Rightarrow> rstr \<Rightarrow> rstr" where
  "shell_name up k = replace_char 45 (lit ''_'') (to_uppercase up k)"

definition shell_plain :: "rchar \<Rightarrow> bool" where
  "shell_plain c \<longleftrightarrow> is_ascii_alphanumeric c \<or> c \<in> set (lit ''_-./:+='')"

definition shell_quote :: "rstr \<Rightarrow> rstr" where
  "shell_quote s =
     (if list_all shell_plain s then s
      else 39 # replace_char 39 [39, 92, 39, 39] s @ [39])"

text \<open>The recursion over a value, and the source's two loops, over entries and over elements.\<close>

fun emit_shell :: "toml_crate \<Rightarrow> (rchar \<Rightarrow> rstr) \<Rightarrow> toml_value \<Rightarrow> rstr list \<Rightarrow> rstr"
  and emit_entries :: "toml_crate \<Rightarrow> (rchar \<Rightarrow> rstr) \<Rightarrow> toml_table \<Rightarrow> rstr list \<Rightarrow> rstr"
  and emit_items :: "toml_crate \<Rightarrow> (rchar \<Rightarrow> rstr) \<Rightarrow> nat \<Rightarrow> toml_value list \<Rightarrow> rstr list \<Rightarrow> rstr" where
  "emit_shell tc up (TTable t) pre = emit_entries tc up t pre"
| "emit_shell tc up (TArray a) pre =
     println (join (lit ''_'') (pre @ [lit ''COUNT'']) @ lit ''='' @ show_nat (length a)) @
     emit_items tc up 0 a pre"
| "emit_shell tc up (TString s) pre = println (join (lit ''_'') pre @ lit ''='' @ shell_quote s)"
| "emit_shell tc up v pre = println (join (lit ''_'') pre @ lit ''='' @ tc_show tc v)"
| "emit_entries tc up [] pre = []"
| "emit_entries tc up ((k, v) # t) pre =
     emit_shell tc up v (pre @ [shell_name up k]) @ emit_entries tc up t pre"
| "emit_items tc up i [] pre = []"
| "emit_items tc up i (v # a) pre =
     emit_shell tc up v (pre @ [show_nat i]) @ emit_items tc up (Suc i) a pre"

text \<open>The three formats; printing through a crate may fail.\<close>

definition list_output ::
  "toml_crate \<Rightarrow> (rchar \<Rightarrow> rstr) \<Rightarrow> list_format \<Rightarrow> config \<Rightarrow> (rstr \<times> toml_value) option \<Rightarrow>
   (cfg_error, rstr) result" where
  "list_output tc up format cfg section_value =
     (case format of
        FormatToml \<Rightarrow>
          (case section_value of
             Some (name, v) \<Rightarrow> Ok (lit ''['' @ name @ lit '']'' @ [10] @ tc_show tc v @ [10])
           | None \<Rightarrow> (case tc_pretty tc cfg of Inl e \<Rightarrow> Err (TomlError e) | Inr out \<Rightarrow> Ok out))
      | FormatJson \<Rightarrow>
          (case (case section_value of
                   Some (_, v) \<Rightarrow> tc_json tc v
                 | None \<Rightarrow> tc_json_config tc cfg) of
             Inl e \<Rightarrow> Err (TomlError e)
           | Inr out \<Rightarrow> Ok (println out))
      | FormatShell \<Rightarrow>
          (case section_value of
             Some (name, v) \<Rightarrow> Ok (emit_shell tc up v [shell_name up name])
           | None \<Rightarrow> Ok (emit_shell tc up (ser_config cfg) [])))"

definition list_run_inner ::
  "toml_crate \<Rightarrow> (rchar \<Rightarrow> rstr) \<Rightarrow> efi_env \<Rightarrow> ctx \<Rightarrow> list_args \<Rightarrow> fsys \<Rightarrow>
   (cfg_error, nat \<times> rstr) result \<times> fsys" where
  "list_run_inner tc up env ctx args fs =
     (case read_config tc env [] ctx fs of
        (Inl e, fs1) \<Rightarrow> (Err e, fs1)
      | (Inr cfg, fs1) \<Rightarrow>
          (let table = (case as_table (ser_config cfg) of None \<Rightarrow> [] | Some t \<Rightarrow> t)
           in case la_section args of
                Some name \<Rightarrow>
                  (case map_of table name of
                     Some v \<Rightarrow>
                       (bind_result (list_output tc up (la_format args) cfg (Some (name, v)))
                          (\<lambda>out. Ok (0, out)), fs1)
                   | None \<Rightarrow> (Ok (1, []), fs1))
              | None \<Rightarrow>
                  (bind_result (list_output tc up (la_format args) cfg None)
                     (\<lambda>out. Ok (0, out)), fs1)))"

definition list_run ::
  "toml_crate \<Rightarrow> (rchar \<Rightarrow> rstr) \<Rightarrow> efi_env \<Rightarrow> ctx \<Rightarrow> list_args \<Rightarrow> fsys \<Rightarrow> outcome" where
  "list_run tc up env ctx args fs = run_with (list_run_inner tc up env ctx args fs)"

section \<open>The shell's side\<close>

text \<open>
  The characters with a meaning to the shell, from the standard (POSIX, Shell Command Language,
  Quoting): blanks and the line feed, the operators and quoting characters that always need
  quoting, and the pattern, comment, tilde, job and reserved-word characters that may need it. The
  standard also lists the hyphen and the equals sign, which only matter in a bracket expression or before
  the first equals sign of a word; inside the value of an assignment they stand for themselves.
\<close>

definition sh_special :: "rchar \<Rightarrow> bool" where
  "sh_special c \<longleftrightarrow> c \<in> {9, 10, 32, 34, 39, 92} \<union> set (lit ''|&;<>()$`'') \<union> set (lit ''?[]^!#~%{,}'') \<union> {42}"

text \<open>
  A word of an assignment, up to the line feed that ends it: single quotes keep everything up to the
  next quote, a backslash keeps the next character, an ordinary character stands for itself, any
  other unquoted special character is outside this grammar (\<open>None\<close>).
\<close>

fun sh_word :: "bool \<Rightarrow> rstr \<Rightarrow> rstr \<Rightarrow> (rstr \<times> rstr) option" where
  "sh_word quoted [] acc = None"
| "sh_word True (c # r) acc = (if c = 39 then sh_word False r acc else sh_word True r (acc @ [c]))"
| "sh_word False (c # r) acc =
     (if c = 10 then Some (acc, r)
      else if c = 39 then sh_word True r acc
      else if c = 92 then
        (case r of [] \<Rightarrow> None | d # r' \<Rightarrow> if d = 10 then None else sh_word False r' (acc @ [d]))
      else if sh_special c then None
      else sh_word False r (acc @ [c]))"

definition name_char :: "rchar \<Rightarrow> bool" where
  "name_char c \<longleftrightarrow> is_ascii_alphanumeric c \<or> c = 95"

definition valid_name :: "rstr \<Rightarrow> bool" where
  "valid_name n \<longleftrightarrow> n \<noteq> [] \<and> list_all name_char n \<and> \<not> is_ascii_digit (hd n)"

definition sh_line :: "rstr \<Rightarrow> ((rstr \<times> rstr) \<times> rstr) option" where
  "sh_line s =
     (let n = takeWhile name_char s
      in case dropWhile name_char s of
           [] \<Rightarrow> None
         | c # r \<Rightarrow>
             if c = 61 \<and> valid_name n
             then (case sh_word False r [] of None \<Rightarrow> None | Some (v, rest) \<Rightarrow> Some ((n, v), rest))
             else None)"

text \<open>A script of assignments, as the list of what it assigns.\<close>

function sh_eval :: "rstr \<Rightarrow> (rstr \<times> rstr) list option" where
  "sh_eval s =
     (if s = [] then Some []
      else case sh_line s of
             None \<Rightarrow> None
           | Some (b, rest) \<Rightarrow>
               if length rest < length s
               then (case sh_eval rest of None \<Rightarrow> None | Some bs \<Rightarrow> Some (b # bs))
               else None)"
  by pat_completeness auto
termination by (relation "measure length") auto

declare sh_eval.simps [simp del]

section \<open>The variables a value stands for\<close>

text \<open>A key in upper case, with underscores for hyphens.\<close>

definition var_word :: "rstr \<Rightarrow> rstr" where
  "var_word k = map (\<lambda>c. if c = 45 then 95 else if c \<in> {97..122} then c - 32 else c) k"

fun shell_vars :: "toml_value \<Rightarrow> rstr list \<Rightarrow> (rstr \<times> rstr) list"
  and entry_vars :: "toml_table \<Rightarrow> rstr list \<Rightarrow> (rstr \<times> rstr) list"
  and item_vars :: "nat \<Rightarrow> toml_value list \<Rightarrow> rstr list \<Rightarrow> (rstr \<times> rstr) list" where
  "shell_vars (TTable t) pre = entry_vars t pre"
| "shell_vars (TArray a) pre =
     (join (lit ''_'') (pre @ [lit ''COUNT'']), show_nat (length a)) # item_vars 0 a pre"
| "shell_vars (TString s) pre = [(join (lit ''_'') pre, s)]"
| "shell_vars (TInteger i) pre = [(join (lit ''_'') pre, show_int i)]"
| "shell_vars (TBoolean b) pre = [(join (lit ''_'') pre, show_bool b)]"
| "shell_vars (TFloat f) pre = []"
| "shell_vars (TDatetime d) pre = []"
| "entry_vars [] pre = []"
| "entry_vars ((k, v) # t) pre =
     shell_vars v (pre @ [var_word k]) @ entry_vars t pre"
| "item_vars i [] pre = []"
| "item_vars i (v # a) pre =
     shell_vars v (pre @ [show_nat i]) @ item_vars (Suc i) a pre"

text \<open>Trees whose keys are lower-case words and which hold neither floats nor dates.\<close>

definition key_ok :: "rstr \<Rightarrow> bool" where
  "key_ok k \<longleftrightarrow>
     k \<noteq> [] \<and> list_all (\<lambda>c. 97 \<le> c \<and> c \<le> 122 \<or> is_ascii_digit c \<or> c = 45 \<or> c = 95) k \<and>
     \<not> is_ascii_digit (hd k)"

fun shell_tree :: "toml_value \<Rightarrow> bool" where
  "shell_tree (TTable t) \<longleftrightarrow> (\<forall>e \<in> set t. key_ok (fst e) \<and> shell_tree (snd e))"
| "shell_tree (TArray a) \<longleftrightarrow> (\<forall>v \<in> set a. shell_tree v)"
| "shell_tree (TFloat f) \<longleftrightarrow> False"
| "shell_tree (TDatetime d) \<longleftrightarrow> False"
| "shell_tree _ \<longleftrightarrow> True"

section \<open>Lemmas\<close>

text \<open>Every character that the program leaves unquoted is ordinary to the shell.\<close>

lemma plain_not_special:
  assumes "shell_plain c"
  shows "\<not> sh_special c" "c \<noteq> 10" "c \<noteq> 39" "c \<noteq> 92"
  using assms by (auto simp: shell_plain_def sh_special_def is_ascii_alphanumeric_def str_simps)

lemma sh_word_plain:
  "list_all shell_plain s \<Longrightarrow> sh_word False (s @ 10 # rest) acc = Some (acc @ s, rest)"
  by (induction s arbitrary: acc) (simp_all add: plain_not_special)

lemma sh_word_in_quotes:
  "sh_word True (replace_char 39 [39, 92, 39, 39] s @ 39 # 10 # rest) acc = Some (acc @ s, rest)"
  by (induction s arbitrary: acc) (auto simp: replace_char_def)

text \<open>Quoting is undone by the shell, for every text.\<close>

lemma sh_word_quote: "sh_word False (shell_quote s @ 10 # rest) [] = Some (s, rest)"
  using sh_word_plain [of s rest "[]"] sh_word_in_quotes [of s rest "[]"]
  by (simp add: shell_quote_def)

lemma sh_eval_line:
  assumes "valid_name n" and "sh_word False (w @ 10 # rest) [] = Some (v, rest)"
  shows "sh_eval (println (n @ lit ''='' @ w) @ rest) = map_option ((#) (n, v)) (sh_eval rest)"
proof -
  have stop: "\<not> name_char 61" by (simp add: name_char_def is_ascii_alphanumeric_def)
  have "\<And>c. c \<in> set n \<Longrightarrow> name_char c" using assms(1) by (simp add: valid_name_def list_all_iff)
  then have "takeWhile name_char (n @ 61 # w @ 10 # rest) = n"
    "dropWhile name_char (n @ 61 # w @ 10 # rest) = 61 # w @ 10 # rest"
    using stop by (auto intro: takeWhile_append_stop dropWhile_append_stop)
  then have "sh_line (n @ 61 # w @ 10 # rest) = Some ((n, v), rest)"
    using assms by (simp add: sh_line_def)
  then show ?thesis
    by (subst sh_eval.simps) (simp add: println_def str_simps split: option.split)
qed

text \<open>Names built from a prefix.\<close>

definition names_ok :: "rstr list \<Rightarrow> bool" where
  "names_ok pre \<longleftrightarrow> pre \<noteq> [] \<and> (\<forall>x \<in> set pre. list_all name_char x) \<and>
     hd pre \<noteq> [] \<and> \<not> is_ascii_digit (hd (hd pre))"

lemma join_name_chars:
  "\<forall>x \<in> set pre. list_all name_char x \<Longrightarrow> list_all name_char (join (lit ''_'') pre)"
proof (induction "lit ''_''" pre rule: join.induct)
  case (3 x y ys)
  then show ?case by (simp add: str_simps name_char_def)
qed simp_all

lemma hd_join: "pre \<noteq> [] \<Longrightarrow> hd pre \<noteq> [] \<Longrightarrow> hd (join sep pre) = hd (hd pre) \<and> join sep pre \<noteq> []"
  by (cases "(sep, pre)" rule: join.cases) auto

lemma names_ok_valid: "names_ok pre \<Longrightarrow> valid_name (join (lit ''_'') pre)"
  using hd_join [of pre "lit ''_''"] join_name_chars [of pre]
  by (simp add: names_ok_def valid_name_def)

lemma names_ok_snoc: "names_ok pre \<Longrightarrow> list_all name_char x \<Longrightarrow> names_ok (pre @ [x])"
  by (auto simp: names_ok_def)

lemma show_nat_name: "list_all name_char (show_nat n)"
  using show_nat_digits [of n]
  by (auto simp: list_all_iff name_char_def is_ascii_digit_def is_ascii_alphanumeric_def)

lemma count_name: "list_all name_char (lit ''COUNT'')"
  by (simp add: str_simps name_char_def is_ascii_alphanumeric_def)

text \<open>On an admissible key the name is the upper-case word, whatever the mapping outside ASCII.\<close>

lemma shell_name_ascii:
  assumes "key_ok k"
  shows "shell_name up k = var_word k"
proof -
  have "list_all (\<lambda>c. 97 \<le> c \<and> c \<le> 122 \<or> is_ascii_digit c \<or> c = 45 \<or> c = 95) k"
    using assms by (simp add: key_ok_def)
  then show ?thesis
    by (induction k) (auto simp: shell_name_def to_uppercase_def replace_char_def ascii_upper_def
        is_ascii_digit_def var_word_def str_simps)
qed

lemma key_ok_name:
  assumes "key_ok k"
  shows "list_all name_char (shell_name up k)" and "names_ok [shell_name up k]"
proof -
  show a: "list_all name_char (shell_name up k)"
    using assms by (auto simp: shell_name_ascii var_word_def key_ok_def list_all_iff name_char_def
        is_ascii_digit_def is_ascii_alphanumeric_def)
  obtain c cs where k: "k = c # cs" using assms by (cases k) (auto simp: key_ok_def)
  with assms have "\<not> is_ascii_digit (hd (var_word k))"
    by (auto simp: key_ok_def var_word_def is_ascii_digit_def)
  with a k assms show "names_ok [shell_name up k]"
    by (simp add: names_ok_def shell_name_ascii var_word_def)
qed

lemma show_nat_plain: "list_all shell_plain (show_nat n)"
  using show_nat_digits [of n]
  by (auto simp: list_all_iff shell_plain_def is_ascii_digit_def is_ascii_alphanumeric_def)

lemma show_int_plain: "list_all shell_plain (show_int i)"
  by (simp add: show_int_def show_nat_plain) (simp add: shell_plain_def str_simps)

lemma show_bool_plain: "list_all shell_plain (show_bool b)"
  by (simp add: show_bool_def str_simps shell_plain_def is_ascii_alphanumeric_def)

lemma map_option_append_Nil: "map_option ((@) []) x = x"
  by (cases x) simp_all

text \<open>What the printed output relies on in the \<^verbatim>\<open>toml\<close> crate: how integers and Booleans print.\<close>

locale toml_display =
  fixes tc :: toml_crate
  assumes show_integer: "tc_show tc (TInteger i) = show_int i"
    and show_boolean: "tc_show tc (TBoolean b) = show_bool b"
begin

lemma emit_shell_eval:
  "shell_tree v \<Longrightarrow> names_ok pre \<or> pre = [] \<and> as_table v \<noteq> None \<Longrightarrow>
     sh_eval (emit_shell tc up v pre @ rest) =
       map_option ((@) (shell_vars v pre)) (sh_eval rest)"
  "shell_tree (TTable t) \<Longrightarrow> names_ok pre \<or> pre = [] \<Longrightarrow>
     sh_eval (emit_entries tc up t pre @ rest) =
       map_option ((@) (entry_vars t pre)) (sh_eval rest)"
  "shell_tree (TArray a) \<Longrightarrow> names_ok pre \<Longrightarrow>
     sh_eval (emit_items tc up i a pre @ rest) =
       map_option ((@) (item_vars i a pre)) (sh_eval rest)"
proof (induction v pre and t pre and i a pre arbitrary: rest and rest and rest
    rule: shell_vars_entry_vars_item_vars.induct)
  case (2 a pre)
  then have ok: "names_ok pre" by auto
  have "valid_name (join (lit ''_'') (pre @ [lit ''COUNT'']))"
    using ok names_ok_snoc count_name names_ok_valid by blast
  with 2 ok show ?case
    by (simp add: sh_eval_line [OF _ sh_word_plain [OF show_nat_plain, where acc = "[]", simplified]]
        option.map_comp comp_def)
next
  case (3 s pre)
  then have "valid_name (join (lit ''_'') pre)" using names_ok_valid by auto
  then show ?case by (simp add: sh_eval_line [OF _ sh_word_quote])
next
  case (4 i pre)
  then have "valid_name (join (lit ''_'') pre)" using names_ok_valid by auto
  then show ?case
    by (simp add: show_integer sh_eval_line [OF _ sh_word_plain [OF show_int_plain, where acc = "[]", simplified]])
next
  case (5 b pre)
  then have "valid_name (join (lit ''_'') pre)" using names_ok_valid by auto
  then show ?case
    by (simp add: show_boolean sh_eval_line [OF _ sh_word_plain [OF show_bool_plain, where acc = "[]", simplified]])
next
  case (9 k v t pre)
  then have k: "shell_name up k = var_word k" by (simp add: shell_name_ascii)
  with 9 have "names_ok (pre @ [var_word k])"
    using key_ok_name [of k up] names_ok_snoc [of pre "var_word k"] by auto
  with 9 k show ?case by (simp add: option.map_comp comp_def)
next
  case (11 i v a pre)
  then have "names_ok (pre @ [show_nat i])" by (simp add: names_ok_snoc show_nat_name)
  with 11 show ?case by (simp add: option.map_comp comp_def)
qed (simp_all add: map_option_append_Nil)

end

text \<open>The serialised configuration is such a tree.\<close>

definition entries_ok :: "toml_table \<Rightarrow> bool" where
  "entries_ok t \<longleftrightarrow> (\<forall>e \<in> set t. key_ok (fst e) \<and> shell_tree (snd e))"

lemma shell_tree_struct: "shell_tree (ser_struct es) \<longleftrightarrow> list_all entries_ok es"
  by (auto simp: ser_struct_def entries_ok_def list_all_iff)

lemma entries_ok_put:
  "key_ok n \<Longrightarrow> shell_tree v \<Longrightarrow> entries_ok (put_req n v)"
  "key_ok n \<Longrightarrow> (\<And>a. shell_tree (ser a)) \<Longrightarrow> entries_ok (put_opt n ser x)"
  "key_ok n \<Longrightarrow> (\<And>a. shell_tree (ser' a)) \<Longrightarrow> entries_ok (put_vec n ser' xs)"
  by (auto simp: entries_ok_def put_req_def put_opt_def put_vec_def ser_vec_def split: option.split)

lemma shell_tree_uint: "shell_tree (ser_uint w)"
  by (simp add: ser_uint_def)

lemmas tree_simps = shell_tree_struct entries_ok_put shell_tree_uint key_ok_def str_simps
  is_ascii_digit_def

lemma tree_machine: "shell_tree (ser_machine c)"
  by (simp add: ser_machine_def tree_simps)

lemma tree_console: "shell_tree (ser_console c)"
  by (simp add: ser_console_def tree_simps)

lemma tree_flag: "shell_tree (ser_flag c)"
  by (simp add: ser_flag_def tree_simps)

lemma tree_hostname: "shell_tree (ser_hostname c)"
  by (simp add: ser_hostname_def tree_simps)

lemma tree_ssh: "shell_tree (ser_ssh c)"
  by (simp add: ser_ssh_def tree_simps)

lemma tree_ip_config: "shell_tree (ser_ip_config c)"
  by (simp add: ser_ip_config_def tree_simps)

lemma tree_wg_peer: "shell_tree (ser_wg_peer c)"
  by (simp add: ser_wg_peer_def tree_simps)

lemma tree_wg_interface: "shell_tree (ser_wg_interface c)"
  by (simp add: ser_wg_interface_def tree_simps tree_wg_peer)

lemma tree_nbd_client: "shell_tree (ser_nbd_client c)"
  by (simp add: ser_nbd_client_def tree_simps)

lemma tree_nbd_server: "shell_tree (ser_nbd_server c)"
  by (simp add: ser_nbd_server_def tree_simps)

lemma tree_zfs_key: "shell_tree (ser_zfs_key c)"
  by (simp add: ser_zfs_key_def tree_simps)

lemma tree_zfs_mount: "shell_tree (ser_zfs_mount c)"
  by (simp add: ser_zfs_mount_def tree_simps)

lemma tree_docker_registry: "shell_tree (ser_docker_registry c)"
  by (simp add: ser_docker_registry_def tree_simps)

lemma tree_config: "shell_tree (ser_config c)"
  by (simp add: ser_config_def tree_simps tree_machine tree_console tree_flag tree_hostname tree_ssh
      tree_ip_config tree_wg_interface tree_nbd_client tree_nbd_server tree_zfs_key tree_zfs_mount
      tree_docker_registry)

section \<open>Properties\<close>

text \<open>
  C20. Shell quoting is exact: for every text, the shell reads the quoted word back as that text and
  stops at the line feed after it, so no content of a configuration value can end the
  assignment early or be taken as a command.
\<close>

theorem shell_quote_exact:
  "sh_word False (shell_quote s @ 10 # rest) [] = Some (s, rest)"
  by (rule sh_word_quote)

text \<open>
  C17. The whole output of \<^verbatim>\<open>list --format shell\<close> is a script of assignments: evaluating it assigns, in
  order, the text of every scalar of the configuration under its upper-case name, and the
  length of every array under its \<^verbatim>\<open>COUNT\<close> name; the same holds for one section.
\<close>

theorem list_shell_evaluates:
  assumes "toml_display tc" and "read_config tc env [] ctx fs = (Ok cfg, fs1)"
  shows "sh_eval (o_stdout (list_run tc up env ctx \<lparr>la_section = None, la_format = FormatShell\<rparr> fs)) =
           Some (shell_vars (ser_config cfg) []) \<and>
         (map_of (the (as_table (ser_config cfg))) name = Some v \<longrightarrow>
           sh_eval (o_stdout (list_run tc up env ctx
             \<lparr>la_section = Some name, la_format = FormatShell\<rparr> fs)) =
           Some (shell_vars v [var_word name]))"
proof -
  have nil: "sh_eval [] = Some []" by (subst sh_eval.simps) simp
  obtain t where t: "ser_config cfg = TTable t" by (simp add: ser_config_def ser_struct_def)
  have tree: "shell_tree (TTable t)" using tree_config [of cfg] t by simp
  have "sh_eval (emit_shell tc up (ser_config cfg) []) = Some (shell_vars (ser_config cfg) [])"
    using toml_display.emit_shell_eval(1) [OF assms(1), of "ser_config cfg" "[]" up "[]"]
      tree_config [of cfg] t nil by simp
  moreover have "sh_eval (emit_shell tc up v [shell_name up name]) =
      Some (shell_vars v [var_word name])" if "map_of t name = Some v"
  proof -
    have "(name, v) \<in> set t" using that by (rule map_of_SomeD)
    with tree have "key_ok name" "shell_tree v" by auto
    then show ?thesis
      using toml_display.emit_shell_eval(1) [OF assms(1), of v "[var_word name]" up "[]"]
        key_ok_name(2) [of name up] shell_name_ascii [of name up] nil by simp
  qed
  ultimately show ?thesis
    using assms(2) t by (simp add: list_run_def list_run_inner_def list_output_def)
qed

text \<open>A printer with the two laws, over any parser, and a configuration with one awkward name.\<close>

fun plain_show :: "toml_value \<Rightarrow> rstr" where
  "plain_show (TInteger i) = show_int i"
| "plain_show (TBoolean b) = show_bool b"
| "plain_show (TString s) = 34 # s @ [34]"
| "plain_show (TDatetime d) = d"
| "plain_show _ = []"

definition tc_plain :: "(rstr \<Rightarrow> (rstr, toml_table) result) \<Rightarrow> toml_crate" where
  "tc_plain prs = \<lparr>tc_parse = prs, tc_show = plain_show, tc_show_float = (\<lambda>_. []),
     tc_show_datetime = (\<lambda>d. d), tc_pretty = (\<lambda>_. Ok []), tc_json = (\<lambda>_. Ok []),
     tc_json_config = (\<lambda>_. Ok [])\<rparr>"

interpretation plain: toml_display "tc_plain prs"
  by unfold_locales (simp_all add: tc_plain_def)

definition tc_awkward :: toml_crate where
  "tc_awkward = tc_plain (\<lambda>_. Ok [(lit ''hostname'', TTable [(lit ''name'', TString (lit ''it's''))])])"

definition cfg_awkward :: config where
  "cfg_awkward = default_config\<lparr>cfg_hostname := Some \<lparr>hn_name = lit ''it's''\<rparr>\<rparr>"

lemma from_toml_awkward: "from_toml tc_awkward s = Ok cfg_awkward"
  by (simp add: from_toml_def tc_awkward_def tc_plain_def de_config_def opt_field_def
      default_field_def de_hostname_def req_field_def cfg_awkward_def default_config_def)

theorem list_shell_evaluates_witness:
  "sh_eval (o_stdout (list_run tc_awkward (\<lambda>_. [])
     \<lparr>lsblk_cmd = Err [], mount_cmd = (\<lambda>_ _ fs. (Err [], fs))\<rparr>
     \<lparr>c_file = Some (lit ''/etc/zebrafish.toml''), c_efi_dir = None, c_efi = False\<rparr>
     \<lparr>la_section = None, la_format = FormatShell\<rparr> fs_sys)) =
   Some [(lit ''HOSTNAME_NAME'', lit ''it's'')]"
proof -
  let ?env = "\<lparr>lsblk_cmd = Err [], mount_cmd = (\<lambda>_ _ fs. (Err [], fs))\<rparr>"
  let ?ctx = "\<lparr>c_file = Some (lit ''/etc/zebrafish.toml''), c_efi_dir = None, c_efi = False\<rparr>"
  have "snd (path_key SYSTEM_FILE) \<noteq> []"
    by (simp add: SYSTEM_FILE_def path_key_def path_pieces_def trivial_piece_def str_simps)
  then have "read_to_string fs_sys SYSTEM_FILE = Ok []"
    by (intro read_to_string_file) (simp_all add: fs_sys_def fs_simps)
  then have rc: "read_config tc_awkward ?env [] ?ctx fs_sys = (Ok cfg_awkward, fs_sys)"
    by (simp add: read_config_def from_toml_awkward SYSTEM_FILE_def)
  have "toml_display tc_awkward"
    unfolding tc_awkward_def by (rule plain.toml_display_axioms)
  from list_shell_evaluates [OF this rc]
  have "sh_eval (o_stdout (list_run tc_awkward (\<lambda>_. []) ?env ?ctx
      \<lparr>la_section = None, la_format = FormatShell\<rparr> fs_sys)) =
      Some (shell_vars (ser_config cfg_awkward) [])" by blast
  also have "shell_vars (ser_config cfg_awkward) [] = [(lit ''HOSTNAME_NAME'', lit ''it's'')]"
    by (simp add: ser_config_def ser_hostname_def ser_struct_def cfg_awkward_def default_config_def
        put_opt_def put_vec_def put_req_def var_word_def str_simps)
  finally show ?thesis .
qed

end
