(* ===== verification/Toml_Edit.thy ===== *)
theory Toml_Edit
  imports Key_Path "HOL-Library.AList"
begin

text \<open>
  The interface of the \<^verbatim>\<open>toml_edit\<close> crate the write commands use. The crate is not part of the
  repository: its tables are an abstract type with the operations the source calls, collected in
  a record that the definitions take as an argument; the laws its documentation promises are the
  assumptions of the locale \<open>toml_edit_api\<close>. The enums \<^verbatim>\<open>Item\<close> and \<^verbatim>\<open>Value\<close>, whose constructors
  the source matches on, are datatypes; arrays and arrays of tables are lists.

  The locale is interpreted on ordered association lists, the shape of the crate's own tables.
\<close>

section \<open>Items and operations\<close>

datatype te_value =
    EString rstr
  | EInteger int
  | EFloat f64
  | EBoolean bool
  | EDatetime rstr
  | EArray "te_value list"
  | EInlineTable "(rstr \<times> te_value) list"

datatype 'tbl item =
    INone
  | IValue te_value
  | ITable 'tbl
  | IArrayOfTables "'tbl list"

text \<open>
  \<open>te_get\<close> is \<^verbatim>\<open>get\<close> (an \<^verbatim>\<open>Item::None\<close> entry counts as absent), \<open>te_insert\<close> is \<^verbatim>\<open>insert\<close> and assignment
  through \<^verbatim>\<open>doc[key]\<close>, \<open>te_write\<close> is the table after writing through the reference \<^verbatim>\<open>get_mut\<close> gave,
  \<open>te_parse\<close> and \<open>te_to_string\<close> convert a whole document.
\<close>

record 'tbl toml_edit =
  te_new :: 'tbl
  te_get :: "'tbl \<Rightarrow> rstr \<Rightarrow> 'tbl item option"
  te_insert :: "'tbl \<Rightarrow> rstr \<Rightarrow> 'tbl item \<Rightarrow> 'tbl"
  te_write :: "'tbl \<Rightarrow> rstr \<Rightarrow> 'tbl item \<Rightarrow> 'tbl"
  te_remove :: "'tbl \<Rightarrow> rstr \<Rightarrow> 'tbl"
  te_parse :: "rstr \<Rightarrow> (rstr, 'tbl) result"
  te_to_string :: "'tbl \<Rightarrow> rstr"

section \<open>The node a path addresses in a document\<close>

fun doc_lookup :: "'tbl toml_edit \<Rightarrow> segment list \<Rightarrow> 'tbl item \<Rightarrow> 'tbl item option" where
  "doc_lookup te [] it = Some it"
| "doc_lookup te (Field name # p) it =
     (case it of
        ITable t \<Rightarrow> (case te_get te t name of None \<Rightarrow> None | Some nxt \<Rightarrow> doc_lookup te p nxt)
      | IValue (EInlineTable es) \<Rightarrow>
          (case map_of es name of None \<Rightarrow> None | Some v \<Rightarrow> doc_lookup te p (IValue v))
      | _ \<Rightarrow> None)"
| "doc_lookup te (Index i # p) it =
     (case it of
        IArrayOfTables ts \<Rightarrow>
          (case nth_opt ts i of None \<Rightarrow> None | Some t \<Rightarrow> doc_lookup te p (ITable t))
      | IValue (EArray vs) \<Rightarrow>
          (case nth_opt vs i of None \<Rightarrow> None | Some v \<Rightarrow> doc_lookup te p (IValue v))
      | _ \<Rightarrow> None)"

lemma doc_lookup_append:
  "doc_lookup te (p @ q) it =
     (case doc_lookup te p it of None \<Rightarrow> None | Some nxt \<Rightarrow> doc_lookup te q nxt)"
proof (induction te p it rule: doc_lookup.induct)
  case (2 te name p it)
  then show ?case by (auto split: item.splits option.splits te_value.splits)
next
  case (3 te i p it)
  then show ?case by (auto split: item.splits option.splits te_value.splits)
qed simp

section \<open>Laws\<close>

locale toml_edit_api =
  fixes te :: "'tbl toml_edit"
  assumes get_new: "te_get te (te_new te) k = None"
    and get_insert: "it \<noteq> INone \<Longrightarrow>
      te_get te (te_insert te t k it) l = (if l = k then Some it else te_get te t l)"
    and get_write: "te_get te t k \<noteq> None \<Longrightarrow> it \<noteq> INone \<Longrightarrow>
      te_get te (te_write te t k it) l = (if l = k then Some it else te_get te t l)"
    and get_remove: "te_get te (te_remove te t k) l = (if l = k then None else te_get te t l)"
    and get_present: "te_get te t k \<noteq> Some INone"
begin

lemmas get_laws = get_new get_insert get_write get_remove

lemma lookup_new: "p \<noteq> [] \<Longrightarrow> doc_lookup te p (ITable (te_new te)) = None"
proof (cases p)
  case (Cons s q)
  then show ?thesis by (cases s) (simp_all add: get_new)
qed simp

end

section \<open>Ordered association lists\<close>

datatype atable = ATable "(rstr \<times> atable item) list"

fun at_entries :: "atable \<Rightarrow> (rstr \<times> atable item) list" where
  "at_entries (ATable es) = es"

definition at_get :: "atable \<Rightarrow> rstr \<Rightarrow> atable item option" where
  "at_get t k =
     (case map_of (at_entries t) k of Some INone \<Rightarrow> None | r \<Rightarrow> r)"

definition at_put :: "atable \<Rightarrow> rstr \<Rightarrow> atable item \<Rightarrow> atable" where
  "at_put t k it = ATable (AList.update k it (at_entries t))"

definition at_remove :: "atable \<Rightarrow> rstr \<Rightarrow> atable" where
  "at_remove t k = ATable (AList.delete k (at_entries t))"

text \<open>The conversion to and from text stays a parameter of the instance.\<close>

definition at_api :: "(rstr \<Rightarrow> (rstr, atable) result) \<Rightarrow> (atable \<Rightarrow> rstr) \<Rightarrow> atable toml_edit" where
  "at_api prs shw =
     \<lparr>te_new = ATable [], te_get = at_get, te_insert = at_put, te_write = at_put,
      te_remove = at_remove, te_parse = prs, te_to_string = shw\<rparr>"

lemma at_api_simps [simp]:
  "te_new (at_api prs shw) = ATable []"
  "te_get (at_api prs shw) = at_get"
  "te_insert (at_api prs shw) = at_put"
  "te_write (at_api prs shw) = at_put"
  "te_remove (at_api prs shw) = at_remove"
  "te_parse (at_api prs shw) = prs"
  "te_to_string (at_api prs shw) = shw"
  by (simp_all add: at_api_def)

lemma at_get_put:
  "it \<noteq> INone \<Longrightarrow> at_get (at_put t k it) l = (if l = k then Some it else at_get t l)"
  by (cases it) (auto simp: at_get_def at_put_def update_conv')

lemma at_get_remove: "at_get (at_remove t k) l = (if l = k then None else at_get t l)"
  by (simp add: at_get_def at_remove_def delete_conv')

interpretation at: toml_edit_api "at_api prs shw"
proof
  show "te_get (at_api prs shw) (te_new (at_api prs shw)) k = None" for k
    by (simp add: at_get_def)
  show "te_get (at_api prs shw) t k \<noteq> Some INone" for t k
    by (auto simp: at_get_def split: option.splits item.splits)
qed (simp_all add: at_get_put at_get_remove)

end
