(* ===== verification/Cmd_Write.thy ===== *)
theory Cmd_Write
  imports Toml_Edit Cfg_Types "HOL-Library.Sublist"
begin

text \<open>
  The edits the write commands make to one document:
  \<^verbatim>\<open>set.rs\<close> (\<^verbatim>\<open>apply_set\<close> and its helpers, \<^verbatim>\<open>parse_value\<close>), \<^verbatim>\<open>remove.rs\<close> (\<^verbatim>\<open>remove_in_doc\<close>,
  \<^verbatim>\<open>remove_in_item\<close>) and the body of \<^verbatim>\<open>add.rs\<close>. A document is a table of the abstract \<^verbatim>\<open>toml_edit\<close>
  interface. In the source the edits happen in place; here each returns the edited document or
  the error, and a document that an edit gave up on is never used again.
\<close>

section \<open>set\<close>

text \<open>
  \<^verbatim>\<open>parse_value\<close>: Booleans, then integers, then floats, else text. Reading a float is a parameter:
  the nearest binary number of a decimal literal.
\<close>

definition parse_value :: "(rstr \<Rightarrow> f64 option) \<Rightarrow> rstr \<Rightarrow> te_value" where
  "parse_value parse_f64 raw =
     (case parse_bool raw of
        Some b \<Rightarrow> EBoolean b
      | None \<Rightarrow>
          (case parse_i64 raw of
             Some i \<Rightarrow> EInteger i
           | None \<Rightarrow>
               (case parse_f64 raw of Some f \<Rightarrow> EFloat f | None \<Rightarrow> EString raw)))"

definition ensure_table :: "'tbl toml_edit \<Rightarrow> 'tbl \<Rightarrow> rstr \<Rightarrow> (cfg_error, 'tbl) result" where
  "ensure_table te doc section =
     (case te_get te doc section of
        None \<Rightarrow> Ok (te_insert te doc section (ITable (te_new te)))
      | Some (ITable _) \<Rightarrow> Ok doc
      | Some _ \<Rightarrow> Err (NotATable section))"

definition ensure_array_of_tables ::
  "'tbl toml_edit \<Rightarrow> 'tbl \<Rightarrow> rstr \<Rightarrow> (cfg_error, 'tbl) result" where
  "ensure_array_of_tables te doc section =
     (case te_get te doc section of
        None \<Rightarrow> Ok (te_insert te doc section (IArrayOfTables []))
      | Some (IArrayOfTables _) \<Rightarrow> Ok doc
      | Some _ \<Rightarrow> Err (NotAnArrayOfTables section))"

fun set_in_table ::
  "'tbl toml_edit \<Rightarrow> 'tbl \<Rightarrow> segment list \<Rightarrow> te_value \<Rightarrow> (cfg_error, 'tbl) result" where
  "set_in_table te table [] parsed = Err EmptySegmentList"
| "set_in_table te table [Index i] parsed = Err AssignToIndex"
| "set_in_table te table [Field name] parsed = Ok (te_insert te table name (IValue parsed))"
| "set_in_table te table (Field name # tail) parsed =
     (case te_get te table name of
        Some (ITable t) \<Rightarrow>
          bind_result (set_in_table te t tail parsed)
            (\<lambda>t'. Ok (te_write te table name (ITable t')))
      | Some _ \<Rightarrow> Err (NotATable name)
      | None \<Rightarrow>
          (let table1 = te_insert te table name (ITable (te_new te))
           in bind_result (set_in_table te (te_new te) tail parsed)
                (\<lambda>t'. Ok (te_write te table1 name (ITable t')))))"
| "set_in_table te table (Index i # tail) parsed = Err NestedIndexSet"

text \<open>
  In \<^verbatim>\<open>apply_set\<close> the section decides whether a table or an element of an array of tables is
  edited; the edited table is written back in its place.
\<close>

definition apply_set ::
  "'tbl toml_edit \<Rightarrow> (rstr \<Rightarrow> f64 option) \<Rightarrow> 'tbl \<Rightarrow> key_path \<Rightarrow> rstr \<Rightarrow>
   (cfg_error, 'tbl) result" where
  "apply_set te parse_f64 doc key raw =
     (let parsed = parse_value parse_f64 raw
      in case kp_segments key of
           [] \<Rightarrow> Err EmptyKeyPath
         | Index _ # _ \<Rightarrow> Err NoSectionName
         | Field section # Index i # rest \<Rightarrow>
             bind_result (ensure_array_of_tables te doc section) (\<lambda>doc1.
               case te_get te doc1 section of
                 Some (IArrayOfTables arr) \<Rightarrow>
                   (case nth_opt arr i of
                      None \<Rightarrow> Err (IndexOutOfRange i section (length arr))
                    | Some target \<Rightarrow>
                        bind_result (set_in_table te target rest parsed) (\<lambda>target'.
                          Ok (te_write te doc1 section (IArrayOfTables (arr[i := target'])))))
               | _ \<Rightarrow> Err (NotAnArrayOfTables section))
         | Field section # tail \<Rightarrow>
             bind_result (ensure_table te doc section) (\<lambda>doc1.
               case te_get te doc1 section of
                 Some (ITable target) \<Rightarrow>
                   bind_result (set_in_table te target tail parsed) (\<lambda>target'.
                     Ok (te_write te doc1 section (ITable target')))
               | _ \<Rightarrow> Err (NotATable section)))"

section \<open>remove\<close>

text \<open>Where the source leaves the item alone the result is the item itself.\<close>

fun remove_in_item ::
  "'tbl toml_edit \<Rightarrow> 'tbl item \<Rightarrow> segment list \<Rightarrow> (cfg_error, 'tbl item) result" where
  "remove_in_item te it [] = Err EmptySegmentList"
| "remove_in_item te it [Field name] =
     (case it of ITable t \<Rightarrow> Ok (ITable (te_remove te t name)) | _ \<Rightarrow> Ok it)"
| "remove_in_item te it [Index i] =
     (case it of
        IArrayOfTables arr \<Rightarrow>
          Ok (if i < length arr then IArrayOfTables (remove_nth i arr) else it)
      | IValue (EArray arr) \<Rightarrow>
          Ok (if i < length arr then IValue (EArray (remove_nth i arr)) else it)
      | _ \<Rightarrow> Ok it)"
| "remove_in_item te it (Field name # tail) =
     (case it of
        ITable t \<Rightarrow>
          (case te_get te t name of
             Some nxt \<Rightarrow>
               bind_result (remove_in_item te nxt tail)
                 (\<lambda>nxt'. Ok (ITable (te_write te t name nxt')))
           | None \<Rightarrow> Ok it)
      | _ \<Rightarrow> Ok it)"
| "remove_in_item te it (Index i # tail) = Err NestedIndexRemove"

definition remove_in_doc ::
  "'tbl toml_edit \<Rightarrow> 'tbl \<Rightarrow> key_path \<Rightarrow> (cfg_error, 'tbl) result" where
  "remove_in_doc te doc key =
     (case kp_segments key of
        [] \<Rightarrow> Err EmptyKeyPath
      | Index _ # _ \<Rightarrow> Err NoSectionName
      | [Field section] \<Rightarrow> Ok (te_remove te doc section)
      | Field section # tail \<Rightarrow>
          (case te_get te doc section of
             None \<Rightarrow> Ok doc
           | Some it \<Rightarrow>
               bind_result (remove_in_item te it tail)
                 (\<lambda>it'. Ok (te_write te doc section it'))))"

section \<open>add\<close>

text \<open>
  \<^verbatim>\<open>doc.entry(section).or_insert(..)\<close>, then a push of an empty table onto the array of tables.
\<close>

definition add_entry :: "'tbl toml_edit \<Rightarrow> 'tbl \<Rightarrow> rstr \<Rightarrow> (cfg_error, 'tbl) result" where
  "add_entry te doc section =
     (let doc1 = (case te_get te doc section of
                    None \<Rightarrow> te_insert te doc section (IArrayOfTables [])
                  | Some _ \<Rightarrow> doc)
      in case te_get te doc1 section of
           Some (IArrayOfTables arr) \<Rightarrow>
             Ok (te_write te doc1 section (IArrayOfTables (arr @ [te_new te])))
         | _ \<Rightarrow> Err (NotAnArrayOfTables section))"

section \<open>Lemmas on the edits, for every implementation of the interface\<close>

lemma parallel_Cons: "parallel (x # xs) (y # ys) \<longleftrightarrow> x \<noteq> y \<or> parallel xs ys"
  by (auto simp: parallel_def)

lemma parallel_nonempty: "parallel xs ys \<Longrightarrow> xs \<noteq> [] \<and> ys \<noteq> []"
  by (auto simp: parallel_def)

text \<open>The part of a document a removal may change: below the key, or below the indexed array.\<close>

definition removal_scope :: "segment list \<Rightarrow> segment list" where
  "removal_scope p = (case last p of Field _ \<Rightarrow> p | Index _ \<Rightarrow> butlast p)"

lemma removal_scope_Cons: "p \<noteq> [] \<Longrightarrow> removal_scope (s # p) = s # removal_scope p"
  by (simp add: removal_scope_def split: segment.split)

text \<open>The node that a path through plain tables addresses; inline tables are not entered.\<close>

fun table_lookup :: "'t toml_edit \<Rightarrow> segment list \<Rightarrow> 't item \<Rightarrow> 't item option" where
  "table_lookup te [] it = Some it"
| "table_lookup te (Field n # p) (ITable t) =
     (case te_get te t n of None \<Rightarrow> None | Some nxt \<Rightarrow> table_lookup te p nxt)"
| "table_lookup te _ _ = None"

text \<open>An array with one element taken out, the later ones moved up; any other node is kept.\<close>

fun without_element :: "nat \<Rightarrow> 't item \<Rightarrow> 't item" where
  "without_element i (IArrayOfTables arr) = IArrayOfTables (take i arr @ drop (Suc i) arr)"
| "without_element i (IValue (EArray arr)) = IValue (EArray (take i arr @ drop (Suc i) arr))"
| "without_element i it = it"

lemma table_lookup_doc: "table_lookup te p it = Some x \<Longrightarrow> doc_lookup te p it = Some x"
  by (induction te p it rule: table_lookup.induct) (auto split: option.split_asm)

context toml_edit_api
begin

lemma set_in_table_lookup:
  "set_in_table te t p v = Ok t' \<Longrightarrow> doc_lookup te p (ITable t') = Some (IValue v)"
proof (induction p arbitrary: t t')
  case (Cons s p)
  show ?case
  proof (cases s)
    case (Field name)
    show ?thesis
    proof (cases p)
      case Nil
      with Field Cons.prems show ?thesis by (auto simp: get_insert)
    next
      case (Cons s' p')
      from Field Cons Cons.prems obtain t0 t1 t2 where
        t1: "set_in_table te t1 p v = Ok t2" "t' = te_write te t0 name (ITable t2)"
        "te_get te t0 name \<noteq> None"
        by (auto simp: bind_result_Ok_iff get_insert Let_def split: option.splits item.splits)
      with Field Cons.IH [OF t1(1)] show ?thesis by (simp add: get_write)
    qed
  next
    case (Index i)
    with Cons.prems show ?thesis by (cases p) simp_all
  qed
qed simp

lemma set_in_table_frame:
  "set_in_table te t p v = Ok t' \<Longrightarrow> parallel p q \<Longrightarrow>
   doc_lookup te q (ITable t') = doc_lookup te q (ITable t)"
proof (induction p arbitrary: t t' q)
  case (Cons s p)
  obtain s2 q' where q: "q = s2 # q'"
    using Cons.prems(2) parallel_nonempty by (cases q) auto
  show ?case
  proof (cases "\<exists>name l. s = Field name \<and> s2 = Field l")
    case False
    with Cons.prems(1) q show ?thesis by (cases s; cases s2; cases p) auto
  next
    case True
    then obtain name l where s: "s = Field name" "s2 = Field l" by auto
    show ?thesis
    proof (cases p)
      case Nil
      with s q Cons.prems show ?thesis by (auto simp: get_insert parallel_Cons parallel_def)
    next
      case (Cons s' p')
      from s Cons Cons.prems(1) obtain t0 t1 t2 where
        t1: "set_in_table te t1 p v = Ok t2" "t' = te_write te t0 name (ITable t2)"
        "te_get te t0 name \<noteq> None"
        "te_get te t name = Some (ITable t1) \<and> t0 = t \<or>
         te_get te t name = None \<and> t1 = te_new te \<and> t0 = te_insert te t name (ITable t1)"
        by (auto simp: bind_result_Ok_iff get_insert Let_def split: option.splits item.splits)
      show ?thesis
      proof (cases "l = name")
        case True
        then have "parallel p q'" using Cons.prems(2) s q by (simp add: parallel_Cons)
        with t1(4) Cons.IH [OF t1(1) this] lookup_new [of q'] parallel_nonempty [OF this]
        show ?thesis using q s True t1 by (auto simp: get_write)
      next
        case False
        with q s t1 show ?thesis by (auto simp: get_write get_insert)
      qed
    qed
  qed
qed simp

text \<open>What a successful \<open>apply_set\<close> did: which table it edited, and where it put it back.\<close>

lemma ensure_table_Ok:
  "ensure_table te doc sect = Ok doc1 \<Longrightarrow> te_get te doc1 sect = Some (ITable t) \<Longrightarrow>
   te_get te doc sect = Some (ITable t) \<and> doc1 = doc \<or>
   te_get te doc sect = None \<and> t = te_new te \<and> doc1 = te_insert te doc sect (ITable t)"
  by (auto simp: ensure_table_def get_insert split: option.splits item.splits)

lemma ensure_array_Ok:
  "ensure_array_of_tables te doc sect = Ok doc1 \<Longrightarrow> te_get te doc1 sect = Some (IArrayOfTables arr) \<Longrightarrow>
   i < length arr \<Longrightarrow> te_get te doc sect = Some (IArrayOfTables arr) \<and> doc1 = doc"
  by (auto simp: ensure_array_of_tables_def get_insert split: option.splits item.splits)

lemma apply_set_cases:
  assumes "apply_set te pf doc key raw = Ok doc'"
  obtains (table) sect rest doc1 t t' where
      "kp_segments key = Field sect # rest" "rest = [] \<or> (\<exists>n r. rest = Field n # r)"
      "te_get te doc1 sect = Some (ITable t)"
      "te_get te doc sect = Some (ITable t) \<and> doc1 = doc \<or>
       te_get te doc sect = None \<and> t = te_new te \<and> doc1 = te_insert te doc sect (ITable t)"
      "set_in_table te t rest (parse_value pf raw) = Ok t'"
      "doc' = te_write te doc1 sect (ITable t')"
    | (array) sect i rest arr t' where
      "kp_segments key = Field sect # Index i # rest"
      "te_get te doc sect = Some (IArrayOfTables arr)" "i < length arr"
      "set_in_table te (arr ! i) rest (parse_value pf raw) = Ok t'"
      "doc' = te_write te doc sect (IArrayOfTables (arr[i := t']))"
proof -
  from assms obtain sect rest where key: "kp_segments key = Field sect # rest"
    by (auto simp: apply_set_def Let_def split: list.splits segment.splits)
  show ?thesis
  proof (cases "\<exists>i r. rest = Index i # r")
    case True
    then obtain i r where rest: "rest = Index i # r" by auto
    with assms key obtain doc1 arr t t' where
      *: "ensure_array_of_tables te doc sect = Ok doc1"
        "te_get te doc1 sect = Some (IArrayOfTables arr)" "nth_opt arr i = Some t"
        "set_in_table te t r (parse_value pf raw) = Ok t'"
        "doc' = te_write te doc1 sect (IArrayOfTables (arr[i := t']))"
      by (auto simp: apply_set_def elim!: bind_result_OkE
          split: option.split_asm item.split_asm)
    then have "i < length arr" "arr ! i = t" by (auto simp: nth_opt_Some_iff)
    with * ensure_array_Ok [OF *(1,2)] key rest array [of sect i r arr t'] show ?thesis by simp
  next
    case False
    then have shape: "rest = [] \<or> (\<exists>n r. rest = Field n # r)"
      by (metis neq_Nil_conv segment.exhaust)
    with assms key obtain doc1 t t' where
      *: "ensure_table te doc sect = Ok doc1" "te_get te doc1 sect = Some (ITable t)"
        "set_in_table te t rest (parse_value pf raw) = Ok t'"
        "doc' = te_write te doc1 sect (ITable t')"
      by (auto simp: apply_set_def elim!: bind_result_OkE
          split: option.split_asm item.split_asm)
    then show ?thesis using table [OF key shape *(2) ensure_table_Ok [OF *(1,2)] *(3,4)] by simp
  qed
qed

lemma apply_set_lookup:
  assumes "apply_set te pf doc key raw = Ok doc'"
  shows "doc_lookup te (kp_segments key) (ITable doc') = Some (IValue (parse_value pf raw))"
  using assms
proof (cases rule: apply_set_cases)
  case (table sect rest doc1 t t')
  then show ?thesis using set_in_table_lookup [OF table(5)] by (simp add: get_write)
next
  case (array sect i rest arr t')
  then show ?thesis
    using set_in_table_lookup [OF array(4)] by (simp add: get_write nth_opt_update)
qed

lemma lookup_array_update:
  assumes "parallel (Index i # rest) q" and "i < length arr" and "set_in_table te (arr ! i) rest v = Ok t'"
  shows "doc_lookup te q (IArrayOfTables (arr[i := t'])) = doc_lookup te q (IArrayOfTables arr)"
proof -
  obtain s q' where q: "q = s # q'" using assms(1) parallel_nonempty by (cases q) auto
  show ?thesis
  proof (cases "s = Index i")
    case True
    with assms(1) q have "parallel rest q'" by (simp add: parallel_Cons)
    from set_in_table_frame [OF assms(3) this] q True assms(2) show ?thesis
      by (simp add: nth_opt_update) (simp add: nth_opt_def)
  next
    case False
    then show ?thesis using q by (cases s) (auto simp: nth_opt_update)
  qed
qed

lemma apply_set_frame:
  assumes "apply_set te pf doc key raw = Ok doc'" and "parallel (kp_segments key) q"
  shows "doc_lookup te q (ITable doc') = doc_lookup te q (ITable doc)"
proof -
  obtain s q' where q: "q = s # q'" using assms(2) parallel_nonempty by (cases q) auto
  show ?thesis
    using assms(1)
  proof (cases rule: apply_set_cases)
    case (table sect rest doc1 t t')
    show ?thesis
    proof (cases "s = Field sect")
      case True
      then have par: "parallel rest q'" using assms(2) table(1) q by (simp add: parallel_Cons)
      with table q True set_in_table_frame [OF table(5) par] lookup_new [of q']
        parallel_nonempty [OF par]
      show ?thesis by (auto simp: get_write)
    next
      case False
      with table q show ?thesis by (cases s) (auto simp: get_write get_insert)
    qed
  next
    case (array sect i rest arr t')
    show ?thesis
    proof (cases "s = Field sect")
      case True
      then have "parallel (Index i # rest) q'" using assms(2) array(1) q by (simp add: parallel_Cons)
      from lookup_array_update [OF this array(3,4)] array q True show ?thesis by (simp add: get_write)
    next
      case False
      with array q show ?thesis by (cases s) (auto simp: get_write)
    qed
  qed
qed

lemma doc_lookup_IValue:
  "doc_lookup te p (IValue v) = Some x \<Longrightarrow> \<exists>w. x = IValue w"
proof (induction p arbitrary: v)
  case (Cons s p)
  then show ?case by (cases s; cases v) (auto split: option.splits)
qed auto

text \<open>Removing from a document is removing from its root item.\<close>

lemma remove_in_doc_item:
  assumes "kp_segments key = Field sect # tail"
  shows "remove_in_doc te doc key = Ok doc' \<longleftrightarrow>
         remove_in_item te (ITable doc) (kp_segments key) = Ok (ITable doc')"
proof (cases tail)
  case Nil
  with assms show ?thesis by (simp add: remove_in_doc_def)
next
  case (Cons s tail')
  with assms show ?thesis
    by (auto simp: remove_in_doc_def bind_result_Ok_iff split: option.splits)
qed

lemma remove_in_item_present:
  "remove_in_item te it p = Ok it' \<Longrightarrow> it \<noteq> INone \<Longrightarrow> it' \<noteq> INone"
proof (induction te it p rule: remove_in_item.induct)
  case (4 te it name v va)
  then show ?case
    by (auto elim!: bind_result_OkE split: item.split_asm option.split_asm)
qed (auto split: item.splits te_value.splits if_splits)

text \<open>One level of a removal through a table.\<close>

lemma remove_in_item_step:
  assumes "remove_in_item te it (Field n # p) = Ok it'" and "p \<noteq> []"
  obtains (through) t nxt nxt' where "it = ITable t" "te_get te t n = Some nxt"
      "remove_in_item te nxt p = Ok nxt'" "nxt' \<noteq> INone"
      "it' = ITable (te_write te t n nxt')"
    | (absent) t where "it = ITable t" "te_get te t n = None" "it' = it"
    | (other) "\<nexists>t. it = ITable t" "it' = it"
proof -
  obtain s p' where p: "p = s # p'" using assms(2) by (cases p) auto
  consider t nxt where "it = ITable t" "te_get te t n = Some nxt"
    | t where "it = ITable t" "te_get te t n = None" | "\<nexists>t. it = ITable t"
    by (cases it) auto
  then show ?thesis
  proof cases
    case 1
    then obtain nxt' where "remove_in_item te nxt p = Ok nxt'"
        "it' = ITable (te_write te t n nxt')"
      using assms(1) p by (auto elim!: bind_result_OkE)
    moreover have "nxt \<noteq> INone" using 1(2) get_present by auto
    ultimately show ?thesis
      using through [OF 1, of nxt'] remove_in_item_present [of nxt p nxt'] by simp
  next
    case 2
    with assms(1) p have "it' = it" by simp
    then show ?thesis by (rule absent [OF 2])
  next
    case 3
    with assms(1) p have "it' = it" by (cases it) auto
    then show ?thesis by (rule other [OF 3])
  qed
qed

lemma remove_in_item_gone:
  "remove_in_item te it (p @ [Field n]) = Ok it' \<Longrightarrow>
   \<nexists>es. doc_lookup te p it = Some (IValue (EInlineTable es)) \<Longrightarrow>
   doc_lookup te (p @ [Field n]) it' = None"
proof (induction p arbitrary: it it')
  case Nil
  then show ?case
    by (cases it) (auto simp: get_remove split: te_value.splits)
next
  case (Cons s p)
  show ?case
  proof (cases s)
    case (Field name)
    with Cons.prems(1) have "remove_in_item te it (Field name # p @ [Field n]) = Ok it'"
      and "p @ [Field n] \<noteq> []" by simp_all
    then show ?thesis
    proof (cases rule: remove_in_item_step)
      case (through t nxt nxt')
      with Field Cons show ?thesis by (simp add: get_write)
    next
      case (absent t)
      with Field show ?thesis by simp
    next
      case other
      show ?thesis
      proof (cases "doc_lookup te (s # p) it")
        case None
        then show ?thesis using other doc_lookup_append [of te "s # p" "[Field n]" it] by simp
      next
        case (Some x)
        with other Field obtain v where "it = IValue v" by (cases it) auto
        with Some obtain w where "x = IValue w" using doc_lookup_IValue by blast
        with Some other Cons.prems(2) show ?thesis
          using doc_lookup_append [of te "s # p" "[Field n]" it]
          by (cases w) auto
      qed
    qed
  next
    case (Index i)
    with Cons.prems show ?thesis by (cases p) auto
  qed
qed

lemma remove_in_item_frame:
  "remove_in_item te it p = Ok it' \<Longrightarrow> parallel (removal_scope p) q \<Longrightarrow>
   doc_lookup te q it' = doc_lookup te q it"
proof (induction p arbitrary: it it' q)
  case (Cons s p)
  obtain s2 q' where q: "q = s2 # q'"
    using Cons.prems(2) parallel_nonempty by (cases q) auto
  show ?case
  proof (cases s)
    case (Field n)
    show ?thesis
    proof (cases "p = []")
      case True
      with Field Cons.prems q show ?thesis
        by (cases it; cases s2)
           (auto simp: removal_scope_def get_remove parallel_Cons parallel_def)
    next
      case False
      with Field Cons.prems(1) have "remove_in_item te it (Field n # p) = Ok it'" by simp
      from this False show ?thesis
      proof (cases rule: remove_in_item_step)
        case (through t nxt nxt')
        have par: "s2 \<noteq> Field n \<or> parallel (removal_scope p) q'"
          using Cons.prems(2) q Field removal_scope_Cons [OF False] by (auto simp: parallel_Cons)
        show ?thesis
        proof (cases "s2 = Field n")
          case True
          with par Cons.IH [OF through(3)] q through show ?thesis by (simp add: get_write)
        next
          case False
          with q through show ?thesis by (cases s2) (auto simp: get_write)
        qed
      qed simp_all
    qed
  next
    case (Index i)
    with Cons.prems show ?thesis
      by (cases p) (auto simp: removal_scope_def parallel_def)
  qed
qed simp

lemma remove_in_doc_frame:
  assumes "remove_in_doc te doc key = Ok doc'" and "parallel (removal_scope (kp_segments key)) q"
  shows "doc_lookup te q (ITable doc') = doc_lookup te q (ITable doc)"
proof -
  obtain sect tail where "kp_segments key = Field sect # tail"
    using assms(1) by (auto simp: remove_in_doc_def split: list.split_asm segment.split_asm)
  with assms show ?thesis using remove_in_doc_item remove_in_item_frame by blast
qed

text \<open>Inside an inline table nothing is removed.\<close>

lemma remove_in_item_inline:
  "remove_in_item te it (p @ [Field n]) = Ok it' \<Longrightarrow>
   doc_lookup te p it = Some (IValue (EInlineTable es)) \<Longrightarrow>
   doc_lookup te (p @ [Field n]) it' = doc_lookup te (p @ [Field n]) it"
proof (induction p arbitrary: it it')
  case (Cons s p)
  show ?case
  proof (cases s)
    case (Field name)
    with Cons.prems(1) have "remove_in_item te it (Field name # p @ [Field n]) = Ok it'" "p @ [Field n] \<noteq> []"
      by simp_all
    then show ?thesis
    proof (cases rule: remove_in_item_step)
      case (through t nxt nxt')
      with Field Cons show ?thesis by (simp add: get_write)
    qed simp_all
  next
    case (Index i)
    with Cons.prems show ?thesis by (cases p) auto
  qed
qed auto

lemma remove_in_item_last: "remove_in_item te it [Index i] = Ok (without_element i it)"
  by (cases "(i, it)" rule: without_element.cases) (auto simp: remove_nth_def)

lemma remove_in_item_index:
  "remove_in_item te it (p @ [Index i]) = Ok it' \<Longrightarrow>
   doc_lookup te p it' =
     (case table_lookup te p it of Some x \<Rightarrow> Some (without_element i x) | None \<Rightarrow> doc_lookup te p it)"
proof (induction p arbitrary: it it')
  case Nil
  then show ?case using remove_in_item_last [of it i] by (simp del: remove_in_item.simps)
next
  case (Cons s p)
  show ?case
  proof (cases s)
    case (Field n)
    with Cons.prems have "remove_in_item te it (Field n # p @ [Index i]) = Ok it'" "p @ [Index i] \<noteq> []" by simp_all
    then show ?thesis
    proof (cases rule: remove_in_item_step)
      case (through t nxt nxt')
      with Field Cons.IH [OF through(3)] show ?thesis by (simp add: get_write split: option.split)
    next
      case (absent t)
      with Field show ?thesis by simp
    next
      case other
      then have "table_lookup te (Field n # p) it = None" by (cases it) auto
      with other Field show ?thesis by simp
    qed
  next
    case (Index j)
    with Cons.prems show ?thesis by (cases p) auto
  qed
qed

lemma add_entry_get:
  assumes "add_entry te doc sect = Ok doc'"
  obtains arr where
    "te_get te doc sect = Some (IArrayOfTables arr) \<or> te_get te doc sect = None \<and> arr = []"
    "te_get te doc' sect = Some (IArrayOfTables (arr @ [te_new te]))"
    "\<And>l. l \<noteq> sect \<Longrightarrow> te_get te doc' l = te_get te doc l"
proof (cases "te_get te doc sect")
  case None
  with assms that [of "[]"] show ?thesis
    by (auto simp: add_entry_def get_insert get_write)
next
  case (Some it)
  with assms obtain arr where "it = IArrayOfTables arr"
    by (auto simp: add_entry_def split: item.split_asm)
  with assms Some that [of arr] show ?thesis by (auto simp: add_entry_def get_write)
qed

end

section \<open>Properties\<close>

text \<open>A concrete interface and two documents for the examples.\<close>

definition te0 :: "atable toml_edit" where
  "te0 = at_api (\<lambda>_. Err []) (\<lambda>_. [])"

definition doc_wg :: atable where
  "doc_wg = ATable [(lit ''wg'', IArrayOfTables [ATable [(lit ''name'', IValue (EString (lit ''wg0'')))]]),
                    (lit ''ssh'', ITable (ATable [(lit ''port'', IValue (EInteger 22))]))]"

lemma te0_api: "toml_edit_api te0"
  unfolding te0_def by (rule at.toml_edit_api_axioms)

lemmas te0_simps = te0_def at_get_def at_put_def at_remove_def nth_opt_def

text \<open>
  C8. After a successful \<^verbatim>\<open>set\<close> the path addresses, in the edited document, exactly the value read
  from the command line, for every implementation of the document interface.
\<close>

theorem set_reads_back:
  assumes "toml_edit_api te" and "apply_set te pf doc key raw = Ok doc'"
  shows "doc_lookup te (kp_segments key) (ITable doc') = Some (IValue (parse_value pf raw))"
  using assms by (rule toml_edit_api.apply_set_lookup)

theorem set_reads_back_witness:
  "\<exists>doc'. apply_set te0 (\<lambda>_. None) doc_wg
            \<lparr>kp_segments = [Field (lit ''wg''), Index 0, Field (lit ''listen_port'')]\<rparr>
            (lit ''49428'') = Ok doc' \<and>
     doc_lookup te0 [Field (lit ''wg''), Index 0, Field (lit ''listen_port'')] (ITable doc') =
       Some (IValue (EInteger 49428))"
proof -
  let ?key = "\<lparr>kp_segments = [Field (lit ''wg''), Index 0, Field (lit ''listen_port'')]\<rparr>"
  obtain doc' where ok: "apply_set te0 (\<lambda>_. None) doc_wg ?key (lit ''49428'') = Ok doc'"
    by (simp add: apply_set_def ensure_array_of_tables_def doc_wg_def te0_simps Let_def)
  have "parse_value (\<lambda>_. None) (lit ''49428'') = EInteger 49428"
    by (simp add: parse_value_def parse_bool_def parse_i64_def parse_digits_def str_simps
        is_ascii_digit_def dec_val_def i64_min_def i64_max_def)
  with ok set_reads_back [OF te0_api ok] show ?thesis by auto
qed

text \<open>
  C9. A successful \<^verbatim>\<open>set\<close> changes nothing else: every path that neither extends the path set nor is
  a part of it addresses what it addressed before.
\<close>

theorem set_frame:
  assumes "toml_edit_api te" and "apply_set te pf doc key raw = Ok doc'"
    and "parallel (kp_segments key) q"
  shows "doc_lookup te q (ITable doc') = doc_lookup te q (ITable doc)"
  using assms by (rule toml_edit_api.apply_set_frame)

theorem set_frame_witness:
  "\<exists>doc'. apply_set te0 (\<lambda>_. None) doc_wg
            \<lparr>kp_segments = [Field (lit ''console''), Field (lit ''font'')]\<rparr> (lit ''x'') = Ok doc' \<and>
     doc_lookup te0 [Field (lit ''ssh''), Field (lit ''port'')] (ITable doc') =
       Some (IValue (EInteger 22))"
proof -
  let ?key = "\<lparr>kp_segments = [Field (lit ''console''), Field (lit ''font'')]\<rparr>"
  obtain doc' where ok: "apply_set te0 (\<lambda>_. None) doc_wg ?key (lit ''x'') = Ok doc'"
    by (simp add: apply_set_def ensure_table_def doc_wg_def te0_simps)
  have "parallel (kp_segments ?key) [Field (lit ''ssh''), Field (lit ''port'')]"
    by (simp add: parallel_Cons)
  from ok set_frame [OF te0_api ok this] show ?thesis
    by (simp add: doc_wg_def te0_simps)
qed

text \<open>
  \<^verbatim>\<open>set\<close> never grows an array of tables: an index at or past the end, or any index into an
  absent section, is refused with the index, the section and the length.
\<close>

lemma set_index_out_of_range:
  assumes "toml_edit_api te"
    and "te_get te doc sect = Some (IArrayOfTables arr) \<or> te_get te doc sect = None \<and> arr = []"
    and "kp_segments key = Field sect # Index i # rest" and "length arr \<le> i"
  shows "apply_set te pf doc key raw = Err (IndexOutOfRange i sect (length arr))"
proof -
  have "te_get te (te_insert te doc sect (IArrayOfTables [])) sect = Some (IArrayOfTables [])"
    using assms(1) by (simp add: toml_edit_api.get_insert)
  with assms show ?thesis
    by (auto simp: apply_set_def Let_def ensure_array_of_tables_def nth_opt_def)
qed

text \<open>
  C28. Removing a key, on every branch: after a successful \<^verbatim>\<open>remove\<close> of a path that ends in a key the path
  addresses nothing, except when the key sits in an inline table, where it stays and addresses what
  it did before; and every path that neither extends the path removed nor is a part of it addresses what
  it addressed before.
\<close>

theorem remove_key_gone:
  assumes "toml_edit_api te" and "remove_in_doc te doc key = Ok doc'"
    and "kp_segments key = p @ [Field n]"
  shows "doc_lookup te (kp_segments key) (ITable doc') =
           (case doc_lookup te p (ITable doc) of
              Some (IValue (EInlineTable es)) \<Rightarrow> doc_lookup te (kp_segments key) (ITable doc)
            | _ \<Rightarrow> None) \<and>
         (\<forall>q. parallel (kp_segments key) q \<longrightarrow> doc_lookup te q (ITable doc') = doc_lookup te q (ITable doc))"
proof -
  obtain sect tail where "kp_segments key = Field sect # tail"
    using assms(2) by (auto simp: remove_in_doc_def split: list.split_asm segment.split_asm)
  with assms(1,2) have item: "remove_in_item te (ITable doc) (p @ [Field n]) = Ok (ITable doc')"
    using assms(3) by (simp add: toml_edit_api.remove_in_doc_item)
  have "removal_scope (kp_segments key) = kp_segments key" using assms(3) by (simp add: removal_scope_def)
  then have frame: "parallel (kp_segments key) q \<Longrightarrow> doc_lookup te q (ITable doc') = doc_lookup te q (ITable doc)" for q
    using toml_edit_api.remove_in_doc_frame [OF assms(1,2)] by simp
  show ?thesis
  proof (cases "\<exists>es. doc_lookup te p (ITable doc) = Some (IValue (EInlineTable es))")
    case True
    with frame toml_edit_api.remove_in_item_inline [OF assms(1) item] assms(3) show ?thesis by auto
  next
    case False
    with frame toml_edit_api.remove_in_item_gone [OF assms(1) item False] assms(3) show ?thesis
      by (auto split: option.split item.split te_value.split)
  qed
qed

theorem remove_key_gone_witness:
  "\<exists>doc'. remove_in_doc te0 doc_wg \<lparr>kp_segments = [Field (lit ''ssh''), Field (lit ''port'')]\<rparr> = Ok doc' \<and>
     doc_lookup te0 [Field (lit ''ssh''), Field (lit ''port'')] (ITable doc') = None \<and>
     doc_lookup te0 [Field (lit ''wg''), Index 0, Field (lit ''name'')] (ITable doc') = Some (IValue (EString (lit ''wg0'')))"
proof -
  let ?key = "\<lparr>kp_segments = [Field (lit ''ssh''), Field (lit ''port'')]\<rparr>"
  obtain doc' where ok: "remove_in_doc te0 doc_wg ?key = Ok doc'"
    by (simp add: remove_in_doc_def doc_wg_def te0_simps)
  have par: "parallel (kp_segments ?key) [Field (lit ''wg''), Index 0, Field (lit ''name'')]" by (simp add: parallel_Cons)
  have old: "\<exists>t. doc_lookup te0 [Field (lit ''ssh'')] (ITable doc_wg) = Some (ITable t)"
    "doc_lookup te0 [Field (lit ''wg''), Index 0, Field (lit ''name'')] (ITable doc_wg) = Some (IValue (EString (lit ''wg0'')))"
    by (simp_all add: doc_wg_def te0_simps)
  from remove_key_gone [OF te0_api ok, of "[Field (lit ''ssh'')]" "lit ''port''"] old(1) par
  have "doc_lookup te0 (kp_segments ?key) (ITable doc') = None \<and>
      doc_lookup te0 [Field (lit ''wg''), Index 0, Field (lit ''name'')] (ITable doc') =
      doc_lookup te0 [Field (lit ''wg''), Index 0, Field (lit ''name'')] (ITable doc_wg)"
    by (auto simp del: doc_lookup.simps)
  with ok old(2) show ?thesis by (auto simp del: doc_lookup.simps)
qed

text \<open>
  C27. Removing an element, on every branch: after a successful \<^verbatim>\<open>remove\<close> of a path that ends in an index, the
  array of tables or the array of values at the indexed path is the old one with exactly that element
  taken out and the later ones moved up, or the old one when the index is past the end; any
  other node there, and an array inside an inline table, is as it was; and every path outside the
  indexed array addresses what it addressed before.
\<close>

theorem remove_element_and_frame:
  assumes "toml_edit_api te" and "remove_in_doc te doc key = Ok doc'"
    and "kp_segments key = p @ [Index i]"
  shows "doc_lookup te p (ITable doc') =
           (case table_lookup te p (ITable doc) of
              Some (IArrayOfTables arr) \<Rightarrow> Some (IArrayOfTables (take i arr @ drop (Suc i) arr))
            | Some (IValue (EArray arr)) \<Rightarrow> Some (IValue (EArray (take i arr @ drop (Suc i) arr)))
            | _ \<Rightarrow> doc_lookup te p (ITable doc)) \<and>
         (\<forall>q. parallel p q \<longrightarrow> doc_lookup te q (ITable doc') = doc_lookup te q (ITable doc))"
proof -
  obtain sect tail where "kp_segments key = Field sect # tail"
    using assms(2) by (auto simp: remove_in_doc_def split: list.split_asm segment.split_asm)
  with assms(1,2) have item: "remove_in_item te (ITable doc) (p @ [Index i]) = Ok (ITable doc')"
    using assms(3) by (simp add: toml_edit_api.remove_in_doc_item)
  have "removal_scope (kp_segments key) = p" using assms(3) by (simp add: removal_scope_def)
  then have frame: "\<forall>q. parallel p q \<longrightarrow> doc_lookup te q (ITable doc') = doc_lookup te q (ITable doc)"
    using toml_edit_api.remove_in_doc_frame [OF assms(1,2)] by simp
  note at = toml_edit_api.remove_in_item_index [OF assms(1) item]
  show ?thesis
  proof (cases "table_lookup te p (ITable doc)")
    case None
    with at frame show ?thesis by simp
  next
    case (Some x)
    with at frame table_lookup_doc [OF Some] show ?thesis
      by (cases "(i, x)" rule: without_element.cases) simp_all
  qed
qed

text \<open>An array of values.\<close>

definition doc_dns :: atable where
  "doc_dns = ATable [(lit ''ipv4'', ITable (ATable [(lit ''dns'', IValue (EArray [EInteger 1, EInteger 2, EInteger 3]))])),
                     (lit ''ssh'', ITable (ATable [(lit ''port'', IValue (EInteger 22))]))]"

theorem remove_element_and_frame_witness:
  "\<exists>doc'. remove_in_doc te0 doc_dns \<lparr>kp_segments = [Field (lit ''ipv4''), Field (lit ''dns''), Index 1]\<rparr> = Ok doc' \<and>
     doc_lookup te0 [Field (lit ''ipv4''), Field (lit ''dns'')] (ITable doc') = Some (IValue (EArray [EInteger 1, EInteger 3])) \<and>
     doc_lookup te0 [Field (lit ''ssh''), Field (lit ''port'')] (ITable doc') = Some (IValue (EInteger 22))"
proof -
  let ?key = "\<lparr>kp_segments = [Field (lit ''ipv4''), Field (lit ''dns''), Index 1]\<rparr>"
  obtain doc' where ok: "remove_in_doc te0 doc_dns ?key = Ok doc'"
    by (simp add: remove_in_doc_def doc_dns_def te0_simps)
  let ?p = "[Field (lit ''ipv4''), Field (lit ''dns'')]" and ?q = "[Field (lit ''ssh''), Field (lit ''port'')]"
  have par: "parallel ?p ?q" by (simp add: parallel_Cons)
  have old: "table_lookup te0 ?p (ITable doc_dns) = Some (IValue (EArray [EInteger 1, EInteger 2, EInteger 3]))"
    "doc_lookup te0 ?q (ITable doc_dns) = Some (IValue (EInteger 22))"
    by (simp_all add: doc_dns_def te0_simps)
  from remove_element_and_frame [OF te0_api ok, of ?p 1] old(1) par
  have "doc_lookup te0 ?p (ITable doc') = Some (IValue (EArray [EInteger 1, EInteger 3])) \<and>
      doc_lookup te0 ?q (ITable doc') = doc_lookup te0 ?q (ITable doc_dns)"
    by (auto simp del: doc_lookup.simps table_lookup.simps)
  with ok old(2) show ?thesis by (auto simp del: doc_lookup.simps)
qed

text \<open>
  C29. The documented workflow: \<^verbatim>\<open>add\<close> appends one empty table to the section's array of tables
  (creating it when absent) and keeps the other sections; a following \<^verbatim>\<open>set\<close> of a field at the old
  length succeeds and is read back.
\<close>

theorem add_then_set:
  assumes "toml_edit_api te" and "add_entry te doc sect = Ok doc1"
    and "te_get te doc sect = Some (IArrayOfTables arr) \<or> te_get te doc sect = None \<and> arr = []"
  shows "te_get te doc1 sect = Some (IArrayOfTables (arr @ [te_new te])) \<and>
         (l \<noteq> sect \<longrightarrow> te_get te doc1 l = te_get te doc l) \<and>
         (\<exists>doc2. apply_set te pf doc1
                   \<lparr>kp_segments = [Field sect, Index (length arr), Field name]\<rparr> raw = Ok doc2 \<and>
            doc_lookup te [Field sect, Index (length arr), Field name] (ITable doc2) =
              Some (IValue (parse_value pf raw)))"
proof -
  let ?key = "\<lparr>kp_segments = [Field sect, Index (length arr), Field name]\<rparr>"
  obtain arr' where arr':
    "te_get te doc sect = Some (IArrayOfTables arr') \<or> te_get te doc sect = None \<and> arr' = []"
    "te_get te doc1 sect = Some (IArrayOfTables (arr' @ [te_new te]))"
    "\<And>l. l \<noteq> sect \<Longrightarrow> te_get te doc1 l = te_get te doc l"
    using toml_edit_api.add_entry_get [OF assms(1,2)] by metis
  then have "arr' = arr" using assms(3) by auto
  then have "\<exists>doc2. apply_set te pf doc1 ?key raw = Ok doc2"
    using arr'(2)
    by (simp add: apply_set_def Let_def ensure_array_of_tables_def nth_opt_def nth_append)
  then obtain doc2 where "apply_set te pf doc1 ?key raw = Ok doc2" ..
  with toml_edit_api.apply_set_lookup [OF assms(1) this] arr' \<open>arr' = arr\<close> show ?thesis by auto
qed

theorem add_then_set_witness:
  "\<exists>doc1 doc2. add_entry te0 doc_wg (lit ''wg'') = Ok doc1 \<and>
     apply_set te0 (\<lambda>_. None) doc1
       \<lparr>kp_segments = [Field (lit ''wg''), Index 1, Field (lit ''name'')]\<rparr> (lit ''wg1'') = Ok doc2"
proof -
  obtain doc1 where ok: "add_entry te0 doc_wg (lit ''wg'') = Ok doc1"
    by (simp add: add_entry_def doc_wg_def te0_simps)
  have "te_get te0 doc_wg (lit ''wg'') =
      Some (IArrayOfTables [ATable [(lit ''name'', IValue (EString (lit ''wg0'')))]])"
    by (simp add: doc_wg_def te0_simps)
  with add_then_set [OF te0_api ok, of "[ATable [(lit ''name'', IValue (EString (lit ''wg0'')))]]"
      _ "\<lambda>_. None" "lit ''name''" "lit ''wg1''"] ok
  show ?thesis by auto
qed

end
