(* ===== verification/Store.thy ===== *)
theory Store
  imports Toml_Edit Efi
begin

text \<open>
  \<^verbatim>\<open>zebrafish-config/src/store.rs\<close>: which file a write command edits, loading a document, and the
  atomic replacement of a file. The replacement is also given as a step relation over the single
  system calls, with the text written one character at a time and a failure possible at every
  point, so that the state after a crash at any moment is a reachable state.
\<close>

section \<open>Definitions\<close>

definition target_path ::
  "efi_env \<Rightarrow> rstr \<Rightarrow> path option \<Rightarrow> path option \<Rightarrow> bool \<Rightarrow> fsys \<Rightarrow>
   (cfg_error, path) result \<times> fsys" where
  "target_path env sect efi_dir_override explicit efi fs =
     (case explicit of
        Some p \<Rightarrow> (Ok p, fs)
      | None \<Rightarrow>
          if sect = lit ''machine'' then
            (case efi_dir_override of
               Some d \<Rightarrow> (Ok (machine_file d), fs)
             | None \<Rightarrow>
                 if efi then
                   (case discover_efi_dir env fs of
                      (Inl e, fs1) \<Rightarrow> (Err e, fs1)
                    | (Inr d, fs1) \<Rightarrow> (Ok (machine_file d), fs1))
                 else (Err NoEfiAccess, fs))
          else (Ok SYSTEM_FILE, fs))"

definition load_document :: "'tbl toml_edit \<Rightarrow> path \<Rightarrow> fsys \<Rightarrow> (cfg_error, 'tbl) result" where
  "load_document te p fs =
     (case read_to_string fs p of
        Inr s \<Rightarrow> (case te_parse te s of Inl e \<Rightarrow> Err (TomlError e) | Inr d \<Rightarrow> Ok d)
      | Inl NotFound \<Rightarrow> Ok (te_new te)
      | Inl e \<Rightarrow> Err (IoError (lit ''reading'') p e))"

definition tmp_path :: "path \<Rightarrow> path" where
  "tmp_path p = with_extension p (lit ''toml.tmp'')"

text \<open>The part of \<^verbatim>\<open>write_document\<close> after the parent directory exists.\<close>

definition replace_file :: "path \<Rightarrow> rstr \<Rightarrow> fsys \<Rightarrow> (cfg_error, unit) result \<times> fsys" where
  "replace_file p content fs =
     (case fs_write (tmp_path p) content fs of
        (Inl e, fs1) \<Rightarrow> (Err (IoError (lit ''writing'') (tmp_path p) e), fs1)
      | (Inr _, fs1) \<Rightarrow>
          (case fs_rename (tmp_path p) p fs1 of
             (Inl e, fs2) \<Rightarrow> (Err (IoError (lit ''renaming'') (tmp_path p) e), fs2)
           | (Inr _, fs2) \<Rightarrow> (Ok (), fs2)))"

definition write_document ::
  "'tbl toml_edit \<Rightarrow> path \<Rightarrow> 'tbl \<Rightarrow> fsys \<Rightarrow> (cfg_error, unit) result \<times> fsys" where
  "write_document te p doc fs =
     (case parent p of
        Some par \<Rightarrow>
          if par \<noteq> [] then
            (case create_dir_all par fs of
               (Inl e, fs1) \<Rightarrow> (Err (IoError (lit ''creating'') par e), fs1)
             | (Inr _, fs1) \<Rightarrow> replace_file p (te_to_string te doc) fs1)
          else replace_file p (te_to_string te doc) fs
      | None \<Rightarrow> replace_file p (te_to_string te doc) fs)"

section \<open>The replacement, call by call\<close>

datatype wpc = WBegin | WReady | WWriting nat | WRename | WDone | WFailed

inductive write_step :: "path \<Rightarrow> rstr \<Rightarrow> wpc \<times> fsys \<Rightarrow> wpc \<times> fsys \<Rightarrow> bool" for p content where
  mkdirs: "parent p = Some par \<Longrightarrow> par \<noteq> [] \<Longrightarrow> create_dir_all par fs = (Ok (), fs') \<Longrightarrow>
    write_step p content (WBegin, fs) (WReady, fs')"
| mkdirs_fail: "parent p = Some par \<Longrightarrow> par \<noteq> [] \<Longrightarrow> create_dir_all par fs = (Err e, fs') \<Longrightarrow>
    write_step p content (WBegin, fs) (WFailed, fs')"
| no_parent: "parent p = None \<or> parent p = Some [] \<Longrightarrow>
    write_step p content (WBegin, fs) (WReady, fs)"
| truncate: "write_step p content (WReady, fs)
    (WWriting 0, set_node (path_key (tmp_path p)) (FileNode []) fs)"
| truncate_fail: "write_step p content (WReady, fs) (WFailed, fs)"
| append_char: "n < length content \<Longrightarrow> write_step p content (WWriting n, fs)
    (WWriting (Suc n), set_node (path_key (tmp_path p)) (FileNode (take (Suc n) content)) fs)"
| append_fail: "write_step p content (WWriting n, fs) (WFailed, fs)"
| written: "write_step p content (WWriting (length content), fs) (WRename, fs)"
| rename: "fs_rename (tmp_path p) p fs = (Ok (), fs') \<Longrightarrow>
    write_step p content (WRename, fs) (WDone, fs')"
| rename_fail: "write_step p content (WRename, fs) (WFailed, fs)"

inductive_simps write_step_Done: "write_step p content (WDone, fs) (pc', fs')"
inductive_simps write_step_Failed: "write_step p content (WFailed, fs) (pc', fs')"

abbreviation write_run :: "path \<Rightarrow> rstr \<Rightarrow> fsys \<Rightarrow> wpc \<Rightarrow> fsys \<Rightarrow> bool" where
  "write_run p content fs pc fs' \<equiv> (write_step p content)\<^sup>*\<^sup>* (WBegin, fs) (pc, fs')"

text \<open>
  The invariant: up to the rename the target holds what it held, after it the whole new text;
  the temporary file holds a prefix of the text; every other file is untouched.
\<close>

definition write_inv :: "path \<Rightarrow> rstr \<Rightarrow> fsys \<Rightarrow> wpc \<Rightarrow> fsys \<Rightarrow> bool" where
  "write_inv p content fs0 pc fs \<longleftrightarrow>
     (\<forall>k. k \<noteq> path_key p \<and> k \<noteq> path_key (tmp_path p) \<longrightarrow> fs_file fs k = fs_file fs0 k) \<and>
     fs_file fs (path_key p) = (if pc = WDone then Some content else fs_file fs0 (path_key p)) \<and>
     (\<forall>n. pc = WWriting n \<longrightarrow> fs_file fs (path_key (tmp_path p)) = Some (take n content)) \<and>
     (pc = WRename \<longrightarrow> fs_file fs (path_key (tmp_path p)) = Some content)"

lemma fs_rename_Ok:
  assumes "fs_rename p q fs = (Ok (), fs')"
  obtains t where "fs_file fs (path_key p) = Some t"
    and "fs' = set_node (path_key q) (FileNode t) (del_node (path_key p) fs)"
  using assms by (auto simp: fs_rename_def Let_def split: option.splits if_splits)

lemma write_step_inv:
  assumes step: "write_step p content (pc, fs) (pc', fs')" and inv: "write_inv p content fs0 pc fs"
    and tmp: "path_key (tmp_path p) \<noteq> path_key p"
  shows "write_inv p content fs0 pc' fs'"
  using step
proof cases
  case (mkdirs par)
  then have "fs_file fs' = fs_file fs" using create_dir_all_files [of par fs] by simp
  with inv mkdirs show ?thesis by (simp add: write_inv_def)
next
  case (mkdirs_fail par e)
  then have "fs_file fs' = fs_file fs" using create_dir_all_files [of par fs] by simp
  with inv mkdirs_fail show ?thesis by (simp add: write_inv_def)
next
  case rename
  then show ?thesis
    using inv tmp by (auto elim!: fs_rename_Ok simp: write_inv_def fs_simps)
qed (use inv tmp in \<open>auto simp: write_inv_def fs_simps\<close>)

lemma write_run_inv:
  assumes "write_run p content fs0 pc fs" and "path_key (tmp_path p) \<noteq> path_key p"
  shows "write_inv p content fs0 pc fs"
  using assms(1)
proof (induction "(pc, fs)" arbitrary: pc fs rule: rtranclp_induct)
  case base
  then show ?case by (simp add: write_inv_def)
next
  case (step y)
  then show ?case using write_step_inv [OF _ _ assms(2)] by (cases y) blast
qed

lemma tmp_path_differs: "file_name p = Some f \<Longrightarrow> path_key (tmp_path p) \<noteq> path_key p"
  unfolding tmp_path_def by (rule tmp_key_differs)

section \<open>The function is a run of the protocol\<close>

lemma set_node_twice: "set_node k n (set_node k m fs) = set_node k n fs"
  by (simp add: set_node_def)

lemma write_run_chars:
  assumes "write_run p content fs0 WReady fs" and "n \<le> length content"
  shows "write_run p content fs0 (WWriting n)
           (set_node (path_key (tmp_path p)) (FileNode (take n content)) fs)"
  using assms(2)
proof (induction n)
  case 0
  show ?case using assms(1) write_step.truncate [of p content fs] by simp
next
  case (Suc n)
  then have "write_run p content fs0 (WWriting n)
      (set_node (path_key (tmp_path p)) (FileNode (take n content)) fs)" by simp
  moreover have "write_step p content
      (WWriting n, set_node (path_key (tmp_path p)) (FileNode (take n content)) fs)
      (WWriting (Suc n), set_node (path_key (tmp_path p)) (FileNode (take (Suc n) content)) fs)"
    using write_step.append_char [of n content p
        "set_node (path_key (tmp_path p)) (FileNode (take n content)) fs"] Suc.prems
    by (simp add: set_node_twice)
  ultimately show ?case by (rule rtranclp.rtrancl_into_rtrancl)
qed

lemma fs_write_cases:
  assumes "fs_write p t fs = (r, fs')"
  obtains (ok) "r = Ok ()" "fs' = set_node (path_key p) (FileNode t) fs"
    | (untouched) e where "r = Err e" "fs' = fs"
    | (partial) e n where "r = Err e" "fs' = set_node (path_key p) (FileNode (take n t)) fs"
  using assms by (auto simp: fs_write_def Let_def split: if_splits option.splits prod.splits)

lemma fs_rename_cases:
  assumes "fs_rename p q fs = (r, fs')"
  obtains (ok) "r = Ok ()" | (untouched) e where "r = Err e" "fs' = fs"
  using assms by (auto simp: fs_rename_def Let_def split: if_splits option.splits)

definition end_pc :: "(cfg_error, unit) result \<Rightarrow> wpc" where
  "end_pc r = (case r of Inr _ \<Rightarrow> WDone | Inl _ \<Rightarrow> WFailed)"

lemma replace_file_run:
  assumes start: "write_run p content fs0 WReady fs" and res: "replace_file p content fs = (r, fs')"
  shows "write_run p content fs0 (end_pc r) fs'"
proof -
  obtain r1 fs1 where w: "fs_write (tmp_path p) content fs = (r1, fs1)" by (cases "fs_write (tmp_path p) content fs")
  from w show ?thesis
  proof (cases rule: fs_write_cases)
    case ok
    have "write_run p content fs0 WRename fs1"
      using write_run_chars [OF start, of "length content"] ok(2)
        write_step.written [of p content fs1] by simp
    moreover obtain r2 fs2 where rn: "fs_rename (tmp_path p) p fs1 = (r2, fs2)"
      by (cases "fs_rename (tmp_path p) p fs1")
    then have "write_step p content (WRename, fs1) (case r2 of Inr _ \<Rightarrow> WDone | Inl _ \<Rightarrow> WFailed, fs2)"
      using rn by (cases rule: fs_rename_cases)
        (auto intro: write_step.rename write_step.rename_fail)
    ultimately show ?thesis
      using res w ok rn by (auto simp: replace_file_def end_pc_def split: sum.splits)
  next
    case (untouched e)
    then show ?thesis
      using start res w write_step.truncate_fail [of p content fs]
      by (auto simp: replace_file_def end_pc_def)
  next
    case (partial e n)
    have "take (min n (length content)) content = take n content" by (simp add: min_def)
    then have "write_run p content fs0 (WWriting (min n (length content))) fs1"
      using write_run_chars [OF start, of "min n (length content)"] partial(2) by simp
    then show ?thesis
      using partial(1) res w write_step.append_fail [of p content _ fs1]
      by (auto simp: replace_file_def end_pc_def intro: rtranclp.rtrancl_into_rtrancl)
  qed
qed

lemma write_document_run:
  assumes "write_document te p doc fs = (r, fs')"
  shows "write_run p (te_to_string te doc) fs (end_pc r) fs'"
proof (cases "parent p = None \<or> parent p = Some []")
  case True
  then have "write_run p (te_to_string te doc) fs WReady fs"
    using write_step.no_parent [of p "te_to_string te doc" fs] by auto
  then show ?thesis
    using assms True by (intro replace_file_run) (auto simp: write_document_def)
next
  case False
  then obtain par where par: "parent p = Some par" "par \<noteq> []" by auto
  obtain r1 fs1 where mk: "create_dir_all par fs = (r1, fs1)" by (cases "create_dir_all par fs")
  show ?thesis
  proof (cases r1)
    case (Inl e)
    then show ?thesis
      using assms par mk write_step.mkdirs_fail [OF par]
      by (auto simp: write_document_def end_pc_def)
  next
    case (Inr u)
    then have "write_run p (te_to_string te doc) fs WReady fs1"
      using mk write_step.mkdirs [OF par] by auto
    then show ?thesis
      using assms par mk Inr by (intro replace_file_run) (auto simp: write_document_def)
  qed
qed

lemma write_document_ends:
  assumes "file_name p = Some f" and "write_document te p doc fs = (r, fs')"
  shows "fs_file fs' (path_key p) =
           (if r = Ok () then Some (te_to_string te doc) else fs_file fs (path_key p))"
    and "{k. fs_file fs' k \<noteq> fs_file fs k} \<subseteq> {path_key p, path_key (tmp_path p)}"
proof -
  have "write_inv p (te_to_string te doc) fs (end_pc r) fs'"
    using write_document_run [OF assms(2)] tmp_path_differs [OF assms(1)] by (rule write_run_inv)
  moreover have "end_pc r = WDone \<longleftrightarrow> r = Ok ()" by (auto simp: end_pc_def split: sum.split)
  ultimately show "fs_file fs' (path_key p) =
           (if r = Ok () then Some (te_to_string te doc) else fs_file fs (path_key p))"
    and "{k. fs_file fs' k \<noteq> fs_file fs k} \<subseteq> {path_key p, path_key (tmp_path p)}"
    by (auto simp: write_inv_def)
qed

text \<open>Writing a document does not change which files can be read.\<close>

lemma write_step_read_fault:
  assumes "write_step p content (pc, fs) (pc', fs')"
  shows "fs_read_fault fs' = fs_read_fault fs"
  using assms
proof cases
  case (mkdirs par)
  then show ?thesis using create_dir_all_faults(1) [of par fs] by simp
next
  case (mkdirs_fail par e)
  then show ?thesis using create_dir_all_faults(1) [of par fs] by simp
qed (auto simp: fs_simps elim!: fs_rename_Ok)

lemma write_run_read_fault: "write_run p content fs pc fs' \<Longrightarrow> fs_read_fault fs' = fs_read_fault fs"
proof (induction "(pc, fs')" arbitrary: pc fs' rule: rtranclp_induct)
  case (step y)
  then show ?case by (cases y) (metis write_step_read_fault)
qed simp

section \<open>Properties\<close>

text \<open>
  C1. Crash safety of the replacement: whenever it is interrupted, after any number of the single
  steps, the target file holds either exactly what it held before or exactly the new text, and
  no file other than the target and the temporary file has changed.
\<close>

theorem write_crash_safe:
  assumes "file_name p = Some f" and "write_run p content fs0 pc fs"
  shows "(fs_file fs (path_key p) = fs_file fs0 (path_key p) \<or>
          fs_file fs (path_key p) = Some content) \<and>
         {k. fs_file fs k \<noteq> fs_file fs0 k} \<subseteq> {path_key p, path_key (tmp_path p)}"
proof -
  have "write_inv p content fs0 pc fs"
    using assms(2) tmp_path_differs [OF assms(1)] by (rule write_run_inv)
  then show ?thesis by (auto simp: write_inv_def)
qed

lemma example_paths:
  "file_name (lit ''/a.toml'') = Some (lit ''a.toml'')"
  "path_key (lit ''/a.toml'') = (True, [lit ''a.toml''])"
  "path_key (tmp_path (lit ''/a.toml'')) = (True, [lit ''a.toml.tmp''])"
  "parent (lit ''/a.toml'') = Some (lit ''/'')"
  "create_dir_all (lit ''/'') fs = (Ok (), fs)"
  by (simp_all add: file_name_def path_pieces_def drop_trailing_def trivial_piece_def str_simps
      tmp_path_def with_extension_def name_stem_def path_key_def is_absolute_def parent_def
      create_dir_all_def)

theorem write_crash_safe_witness:
  "fs_file (set_node (True, [lit ''a.toml.tmp'']) (FileNode (lit ''x'')) empty_fs)
     (path_key (lit ''/a.toml'')) = None"
proof -
  let ?p = "lit ''/a.toml''" and ?t = "lit ''xy''"
  have "write_step ?p ?t (WBegin, empty_fs) (WReady, empty_fs)"
    by (rule mkdirs [OF example_paths(4)]) (simp_all add: example_paths)
  then have "write_run ?p ?t empty_fs WReady empty_fs" by simp
  from write_run_chars [OF this, of 1]
  have "write_run ?p ?t empty_fs (WWriting 1)
      (set_node (True, [lit ''a.toml.tmp'']) (FileNode (lit ''x'')) empty_fs)"
    unfolding example_paths by (simp add: lit_def)
  from write_crash_safe [OF example_paths(1) this]
  show ?thesis by (auto simp: fs_simps example_paths)
qed

text \<open>
  C16. The function \<^verbatim>\<open>write_document\<close> performs a complete run of that protocol, ending in the rename
  exactly when it reports success: a successful write leaves the target with the document's text
  and no temporary file, a failed one leaves the target as it was; both leave every file other
  than the target and the temporary file alone.
\<close>

theorem write_document_effect:
  assumes "file_name p = Some f" and "write_document te p doc fs = (r, fs')"
  shows "write_run p (te_to_string te doc) fs (end_pc r) fs' \<and>
         fs_file fs' (path_key p) =
           (if r = Ok () then Some (te_to_string te doc) else fs_file fs (path_key p)) \<and>
         {k. fs_file fs' k \<noteq> fs_file fs k} \<subseteq> {path_key p, path_key (tmp_path p)}"
  using write_document_run [OF assms(2)] write_document_ends [OF assms] by simp

theorem write_document_effect_witness:
  "fs_file (snd (write_document (at_api (\<lambda>_. Err []) (\<lambda>_. lit ''xy'')) (lit ''/a.toml'')
      (ATable []) empty_fs)) (path_key (lit ''/a.toml'')) = Some (lit ''xy'')"
proof -
  let ?te = "at_api (\<lambda>_. Err []) (\<lambda>_. lit ''xy'')"
  have "fst (write_document ?te (lit ''/a.toml'') (ATable []) empty_fs) = Ok ()"
    by (simp add: write_document_def replace_file_def fs_write_def fs_rename_def example_paths
        fs_simps Let_def)
  then have "write_document ?te (lit ''/a.toml'') (ATable []) empty_fs =
      (Ok (), snd (write_document ?te (lit ''/a.toml'') (ATable []) empty_fs))"
    by (metis prod.collapse)
  from write_document_effect [OF example_paths(1) this] show ?thesis by simp
qed

end
