(* ===== verification/Cmd_Run.thy ===== *)
theory Cmd_Run
  imports Cmd_Write Store
begin

text \<open>
  The write commands as a whole, \<^verbatim>\<open>run\<close> and \<^verbatim>\<open>run_inner\<close> of \<^verbatim>\<open>set.rs\<close>, \<^verbatim>\<open>remove.rs\<close> and \<^verbatim>\<open>add.rs\<close>: parse the key,
  refuse \<^verbatim>\<open>--file\<close> for \<^verbatim>\<open>[machine]\<close>, find the file, load it, edit the document, write it back. All three
  end in the same four calls, here \<open>edit_file\<close>.
\<close>

section \<open>Definitions\<close>

definition edit_file ::
  "'tbl toml_edit \<Rightarrow> efi_env \<Rightarrow> ctx \<Rightarrow> rstr \<Rightarrow> ('tbl \<Rightarrow> (cfg_error, 'tbl) result) \<Rightarrow> fsys \<Rightarrow>
   (cfg_error, nat \<times> rstr) result \<times> fsys" where
  "edit_file te env ctx sect edit fs =
     (case target_path env sect (c_efi_dir ctx) (c_file ctx) (c_efi ctx) fs of
        (Inl e, fs1) \<Rightarrow> (Err e, fs1)
      | (Inr p, fs1) \<Rightarrow>
          (case bind_result (load_document te p fs1) edit of
             Inl e \<Rightarrow> (Err e, fs1)
           | Inr doc \<Rightarrow>
               (case write_document te p doc fs1 of
                  (Inl e, fs2) \<Rightarrow> (Err e, fs2)
                | (Inr _, fs2) \<Rightarrow> (Ok (0, []), fs2))))"

definition set_run_inner ::
  "'tbl toml_edit \<Rightarrow> (rstr \<Rightarrow> f64 option) \<Rightarrow> efi_env \<Rightarrow> ctx \<Rightarrow> set_args \<Rightarrow> fsys \<Rightarrow>
   (cfg_error, nat \<times> rstr) result \<times> fsys" where
  "set_run_inner te pf env ctx args fs =
     (case parse (sa_key args) of
        None \<Rightarrow> (Err (InvalidKeyPath (sa_key args)), fs)
      | Some key \<Rightarrow>
          (case section_of key of
             None \<Rightarrow> (Err NoSectionName, fs)
           | Some sect \<Rightarrow>
               if sect = lit ''machine'' \<and> c_file ctx \<noteq> None then (Err FileForMachine, fs)
               else edit_file te env ctx sect (\<lambda>doc. apply_set te pf doc key (sa_value args)) fs))"

definition set_run ::
  "'tbl toml_edit \<Rightarrow> (rstr \<Rightarrow> f64 option) \<Rightarrow> efi_env \<Rightarrow> ctx \<Rightarrow> set_args \<Rightarrow> fsys \<Rightarrow> outcome" where
  "set_run te pf env ctx args fs = run_with (set_run_inner te pf env ctx args fs)"

definition remove_run_inner ::
  "'tbl toml_edit \<Rightarrow> efi_env \<Rightarrow> ctx \<Rightarrow> remove_args \<Rightarrow> fsys \<Rightarrow>
   (cfg_error, nat \<times> rstr) result \<times> fsys" where
  "remove_run_inner te env ctx args fs =
     (case parse (ra_key args) of
        None \<Rightarrow> (Err (InvalidKeyPath (ra_key args)), fs)
      | Some key \<Rightarrow>
          (case section_of key of
             None \<Rightarrow> (Err NoSectionName, fs)
           | Some sect \<Rightarrow>
               if sect = lit ''machine'' \<and> c_file ctx \<noteq> None then (Err FileForMachine, fs)
               else edit_file te env ctx sect (\<lambda>doc. remove_in_doc te doc key) fs))"

definition remove_run ::
  "'tbl toml_edit \<Rightarrow> efi_env \<Rightarrow> ctx \<Rightarrow> remove_args \<Rightarrow> fsys \<Rightarrow> outcome" where
  "remove_run te env ctx args fs = run_with (remove_run_inner te env ctx args fs)"

text \<open>The section given to \<^verbatim>\<open>add\<close> is used as it is, without parsing.\<close>

definition add_inner ::
  "'tbl toml_edit \<Rightarrow> efi_env \<Rightarrow> ctx \<Rightarrow> add_args \<Rightarrow> fsys \<Rightarrow>
   (cfg_error, nat \<times> rstr) result \<times> fsys" where
  "add_inner te env ctx args fs =
     (let sect = aa_section args
      in if sect = lit ''machine'' then (Err AddToMachine, fs)
         else edit_file te env ctx sect (\<lambda>doc. add_entry te doc sect) fs)"

definition add_run ::
  "'tbl toml_edit \<Rightarrow> efi_env \<Rightarrow> ctx \<Rightarrow> add_args \<Rightarrow> fsys \<Rightarrow> outcome" where
  "add_run te env ctx args fs = run_with (add_inner te env ctx args fs)"

section \<open>Lemmas\<close>

lemma edit_file_cases:
  assumes "edit_file te env ctx sect edit fs = (r, fs')"
    and "target_path env sect (c_efi_dir ctx) (c_file ctx) (c_efi ctx) fs = (Ok p, fs1)"
  obtains (refused) e where "r = Err e" "fs' = fs1" "bind_result (load_document te p fs1) edit = Err e"
    | (written) doc doc' w where "load_document te p fs1 = Ok doc" "edit doc = Ok doc'"
        "write_document te p doc' fs1 = (w, fs')" "r = bind_result w (\<lambda>_. Ok (0, []))"
proof (cases "bind_result (load_document te p fs1) edit")
  case (Inl e)
  with assms have "r = Err e" "fs' = fs1" by (simp_all add: edit_file_def)
  with Inl refused show ?thesis by blast
next
  case (Inr doc')
  obtain w fs2 where w: "write_document te p doc' fs1 = (w, fs2)"
    by (cases "write_document te p doc' fs1")
  with assms Inr have "fs' = fs2" "r = bind_result w (\<lambda>_. Ok (0, []))"
    by (auto simp: edit_file_def split: sum.splits)
  moreover obtain doc where "load_document te p fs1 = Ok doc" "edit doc = Ok doc'"
    using Inr by (rule bind_result_OkE)
  ultimately show ?thesis using w written by blast
qed

text \<open>The contract of the four calls together.\<close>

lemma edit_file_effect:
  assumes "edit_file te env ctx sect edit fs = (r, fs')"
    and tgt: "target_path env sect (c_efi_dir ctx) (c_file ctx) (c_efi ctx) fs = (Ok p, fs1)"
    and name: "file_name p = Some f"
  shows "{k. fs_file fs' k \<noteq> fs_file fs1 k} \<subseteq> {path_key p, path_key (tmp_path p)}"
    and "r = Err e \<Longrightarrow> fs_file fs' (path_key p) = fs_file fs1 (path_key p)"
    and "r = Ok c \<Longrightarrow> c = (0, []) \<and>
           (\<exists>doc doc'. load_document te p fs1 = Ok doc \<and> edit doc = Ok doc' \<and>
              fs_file fs' (path_key p) = Some (te_to_string te doc'))"
proof -
  have "{k. fs_file fs' k \<noteq> fs_file fs1 k} \<subseteq> {path_key p, path_key (tmp_path p)} \<and>
        (\<forall>e. r = Err e \<longrightarrow> fs_file fs' (path_key p) = fs_file fs1 (path_key p)) \<and>
        (\<forall>c. r = Ok c \<longrightarrow> c = (0, []) \<and>
           (\<exists>doc doc'. load_document te p fs1 = Ok doc \<and> edit doc = Ok doc' \<and>
              fs_file fs' (path_key p) = Some (te_to_string te doc')))"
    using assms(1) tgt
  proof (cases rule: edit_file_cases)
    case (refused e)
    then show ?thesis by simp
  next
    case (written doc doc' w)
    from write_document_ends [OF name written(3)] written show ?thesis
      by (cases w) (auto simp: bind_result_def)
  qed
  then show "{k. fs_file fs' k \<noteq> fs_file fs1 k} \<subseteq> {path_key p, path_key (tmp_path p)}"
    and "r = Err e \<Longrightarrow> fs_file fs' (path_key p) = fs_file fs1 (path_key p)"
    and "r = Ok c \<Longrightarrow> c = (0, []) \<and>
           (\<exists>doc doc'. load_document te p fs1 = Ok doc \<and> edit doc = Ok doc' \<and>
              fs_file fs' (path_key p) = Some (te_to_string te doc'))"
    by blast+
qed

text \<open>
  A command as a transaction on one file: it reports success and the file holds the text of the
  edited document, or it reports an error and the file holds what it held; no third file changes.
\<close>

definition file_transaction ::
  "'tbl toml_edit \<Rightarrow> path \<Rightarrow> ('tbl \<Rightarrow> (cfg_error, 'tbl) result) \<Rightarrow> fsys \<Rightarrow> outcome \<Rightarrow> bool" where
  "file_transaction te p edit fs out \<longleftrightarrow>
     {k. fs_file (o_fs out) k \<noteq> fs_file fs k} \<subseteq> {path_key p, path_key (tmp_path p)} \<and>
     (o_exit out = 0 \<and> o_error out = None \<and>
        (\<exists>doc doc'. load_document te p fs = Ok doc \<and> edit doc = Ok doc' \<and>
           fs_file (o_fs out) (path_key p) = Some (te_to_string te doc')) \<or>
      o_exit out = 1 \<and> o_error out \<noteq> None \<and>
        fs_file (o_fs out) (path_key p) = fs_file fs (path_key p))"

lemma edit_file_transaction:
  assumes "target_path env sect (c_efi_dir ctx) (c_file ctx) (c_efi ctx) fs = (Ok p, fs1)"
    and "file_name p = Some f"
  shows "file_transaction te p edit fs1 (run_with (edit_file te env ctx sect edit fs))"
proof -
  obtain r fs' where ef: "edit_file te env ctx sect edit fs = (r, fs')"
    by (cases "edit_file te env ctx sect edit fs")
  note effect = edit_file_effect [OF ef assms]
  show ?thesis
  proof (cases r)
    case (Inl e)
    with effect(1) effect(2) [OF Inl] ef show ?thesis by (simp add: file_transaction_def)
  next
    case (Inr c)
    with effect(1) effect(3) [OF Inr] ef show ?thesis by (auto simp: file_transaction_def)
  qed
qed

text \<open>The machine file always has a name, whatever the directory.\<close>

lemma file_name_machine_file: "file_name (machine_file d) = Some (lit ''zebrafish.toml'')"
proof -
  let ?f = "lit ''zebrafish.toml''"
  have f: "slash \<notin> set ?f" "\<not> trivial_piece ?f" "?f \<noteq> [dot, dot]" "\<not> is_absolute ?f"
    by (simp_all add: trivial_piece_def is_absolute_def str_simps)
  have "split_char slash (machine_file d) = [?f] \<or>
      (\<exists>p ps. split_char slash (machine_file d) = p # ps @ [?f])"
  proof (cases "d = []")
    case True
    with f show ?thesis by (simp add: machine_file_def path_join_def split_char_id)
  next
    case False
    have "\<exists>e. machine_file d = e @ slash # ?f"
    proof (cases "last d = slash")
      case True
      with False have "machine_file d = butlast d @ slash # ?f"
        using f(4) append_butlast_last_id [OF False] by (simp add: machine_file_def path_join_def)
      then show ?thesis by (rule exI [where x = "butlast d"])
    qed (use False f(4) in \<open>simp add: machine_file_def path_join_def\<close>)
    then obtain e where e: "machine_file d = e @ slash # ?f" by (rule exE)
    show ?thesis
      using split_char_append_sep [of slash e ?f] split_char_id [OF f(1)]
      by (cases "split_char slash e") (simp_all add: e)
  qed
  with f(2,3) show ?thesis
    by (auto simp: file_name_def path_pieces_def drop_trailing_def)
qed

section \<open>Properties\<close>

text \<open>
  C3. Every write command is a transaction on the file chosen for its section: with a valid key and
  a file chosen, \<^verbatim>\<open>set\<close>, \<^verbatim>\<open>remove\<close> and \<^verbatim>\<open>add\<close> each either exit with 0 and leave the text of the edited
  document in that file, or exit with 1 and leave the file as it was; nothing but that file and
  the temporary file beside it changes.
\<close>

theorem write_commands_transactional:
  assumes "parse k = Some key" and "section_of key = Some sect"
    and "sect \<noteq> lit ''machine'' \<or> c_file ctx = None"
    and "target_path env sect (c_efi_dir ctx) (c_file ctx) (c_efi ctx) fs = (Ok p, fs1)"
    and "file_name p = Some f"
  shows "file_transaction te p (\<lambda>doc. apply_set te pf doc key raw) fs1
           (set_run te pf env ctx \<lparr>sa_key = k, sa_value = raw\<rparr> fs) \<and>
         file_transaction te p (\<lambda>doc. remove_in_doc te doc key) fs1
           (remove_run te env ctx \<lparr>ra_key = k\<rparr> fs) \<and>
         (sect \<noteq> lit ''machine'' \<longrightarrow>
           file_transaction te p (\<lambda>doc. add_entry te doc sect) fs1
             (add_run te env ctx \<lparr>aa_section = sect\<rparr> fs))"
  using assms edit_file_transaction [OF assms(4,5)]
  by (auto simp: set_run_def set_run_inner_def remove_run_def remove_run_inner_def add_run_def
      add_inner_def)

text \<open>A file system holding one empty file, and the context that names it.\<close>

definition fs_a :: fsys where
  "fs_a = set_node (True, [lit ''a.toml'']) (FileNode []) empty_fs"

definition ctx_a :: ctx where
  "ctx_a = \<lparr>c_file = Some (lit ''/a.toml''), c_efi_dir = None, c_efi = False\<rparr>"

definition env_none :: efi_env where
  "env_none = \<lparr>lsblk_cmd = Err [], mount_cmd = (\<lambda>_ _ fs. (Err [], fs))\<rparr>"

lemma parse_ssh_port: "parse (lit ''ssh.port'') = Some \<lparr>kp_segments = [Field (lit ''ssh''), Field (lit ''port'')]\<rparr>"
  by (simp add: parse_def trim_def is_whitespace_def parse_finish_def push_field_def str_simps)

theorem write_commands_transactional_witness:
  "file_transaction te0 (lit ''/a.toml'')
     (\<lambda>doc. apply_set te0 (\<lambda>_. None) doc \<lparr>kp_segments = [Field (lit ''ssh''), Field (lit ''port'')]\<rparr> (lit ''22''))
     fs_a (set_run te0 (\<lambda>_. None) env_none ctx_a \<lparr>sa_key = lit ''ssh.port'', sa_value = lit ''22''\<rparr> fs_a)"
proof -
  have "target_path env_none (lit ''ssh'') (c_efi_dir ctx_a) (c_file ctx_a) (c_efi ctx_a) fs_a =
      (Ok (lit ''/a.toml''), fs_a)"
    by (simp add: target_path_def ctx_a_def)
  from write_commands_transactional [OF parse_ssh_port _ _ this example_paths(1),
      where te = te0 and pf = "\<lambda>_. None" and raw = "lit ''22''"]
  show ?thesis by (simp add: section_of_def)
qed

text \<open>
  C31. The machine section never leaves the EFI partition. For a key in \<^verbatim>\<open>[machine]\<close>, \<^verbatim>\<open>set\<close> and \<^verbatim>\<open>remove\<close>
  with \<^verbatim>\<open>--file\<close>, and \<^verbatim>\<open>add machine\<close> always, exit with 1 and leave the file system as it was. Without
  \<^verbatim>\<open>--file\<close> the EFI directory is the one given, or else the one discovered under \<^verbatim>\<open>--efi\<close>. When there is
  none, the commands exit with 1 and the file system is what looking for the directory left, that
  is at most the mount point created and mounted. When there is one, each command is a transaction on
  \<^verbatim>\<open>zebrafish.toml\<close> in that directory: no file but that and the temporary file beside it changes.
\<close>

theorem machine_stays_on_efi:
  assumes "parse k = Some key" and "section_of key = Some (lit ''machine'')"
  shows "o_exit (add_run te env ctx \<lparr>aa_section = lit ''machine''\<rparr> fs) = 1 \<and>
         o_fs (add_run te env ctx \<lparr>aa_section = lit ''machine''\<rparr> fs) = fs \<and>
         (\<forall>(out, edit) \<in> {(set_run te pf env ctx \<lparr>sa_key = k, sa_value = raw\<rparr> fs,
                              \<lambda>doc. apply_set te pf doc key raw),
                            (remove_run te env ctx \<lparr>ra_key = k\<rparr> fs, \<lambda>doc. remove_in_doc te doc key)}.
            if c_file ctx \<noteq> None then o_exit out = 1 \<and> o_fs out = fs
            else case (case c_efi_dir ctx of
                         Some d \<Rightarrow> (Ok d, fs)
                       | None \<Rightarrow> if c_efi ctx then discover_efi_dir env fs else (Err NoEfiAccess, fs)) of
                   (Inl e, fs1) \<Rightarrow> o_exit out = 1 \<and> o_fs out = fs1 \<and> mount_effect env fs fs1
                 | (Inr d, fs1) \<Rightarrow> file_transaction te (machine_file d) edit fs1 out \<and>
                                    mount_effect env fs fs1)"
proof -
  let ?sect = "lit ''machine''"
  define place where "place = (case c_efi_dir ctx of Some d \<Rightarrow> (Ok d, fs)
     | None \<Rightarrow> if c_efi ctx then discover_efi_dir env fs else (Err NoEfiAccess, fs))"
  have effect: "mount_effect env fs (snd place)"
    using discover_effect [of env fs] by (simp add: place_def split: option.split)
  have target: "target_path env ?sect (c_efi_dir ctx) (c_file ctx) (c_efi ctx) fs =
      (case place of (Inl e, fs1) \<Rightarrow> (Err e, fs1) | (Inr d, fs1) \<Rightarrow> (Ok (machine_file d), fs1))"
    if "c_file ctx = None"
    using that by (simp add: target_path_def place_def split: option.split)
  have edit: "if c_file ctx \<noteq> None then True
      else case place of
             (Inl e, fs1) \<Rightarrow> o_exit out = 1 \<and> o_fs out = fs1 \<and> mount_effect env fs fs1
           | (Inr d, fs1) \<Rightarrow> file_transaction te (machine_file d) edit fs1 out \<and> mount_effect env fs fs1"
    if out: "out = run_with (edit_file te env ctx ?sect edit fs)" for out edit
  proof (cases "c_file ctx")
    case None
    note target = target [OF None]
    show ?thesis
    proof (cases place)
      case (Pair r fs1)
      show ?thesis
      proof (cases r)
        case (Inl e)
        with Pair target None out effect show ?thesis by (simp add: edit_file_def)
      next
        case (Inr d)
        from target Pair Inr have
          "target_path env ?sect (c_efi_dir ctx) (c_file ctx) (c_efi ctx) fs = (Ok (machine_file d), fs1)"
          by simp
        from edit_file_transaction [OF this file_name_machine_file] Pair Inr None out effect
        show ?thesis by simp
      qed
    qed
  qed simp
  have runs: "set_run te pf env ctx \<lparr>sa_key = k, sa_value = raw\<rparr> fs = run_with
        (if c_file ctx \<noteq> None then (Err FileForMachine, fs)
         else edit_file te env ctx ?sect (\<lambda>doc. apply_set te pf doc key raw) fs)"
    "remove_run te env ctx \<lparr>ra_key = k\<rparr> fs = run_with
        (if c_file ctx \<noteq> None then (Err FileForMachine, fs)
         else edit_file te env ctx ?sect (\<lambda>doc. remove_in_doc te doc key) fs)"
    "add_run te env ctx \<lparr>aa_section = ?sect\<rparr> fs = run_with (Err AddToMachine, fs)"
    using assms by (simp_all add: set_run_def set_run_inner_def remove_run_def remove_run_inner_def
        add_run_def add_inner_def)
  show ?thesis
  proof (cases "c_file ctx")
    case None
    with edit [OF refl, of "\<lambda>doc. apply_set te pf doc key raw"]
      edit [OF refl, of "\<lambda>doc. remove_in_doc te doc key"]
    show ?thesis unfolding place_def [symmetric] by (simp add: runs)
  qed (simp add: runs)
qed

text \<open>With the directory \<^verbatim>\<open>/efi\<close> given, setting the identifier touches \<^verbatim>\<open>/efi/zebrafish.toml\<close> only.\<close>

theorem machine_stays_on_efi_witness:
  "file_transaction te0 (machine_file (lit ''/efi''))
     (\<lambda>doc. apply_set te0 (\<lambda>_. None) doc \<lparr>kp_segments = [Field (lit ''machine''), Field (lit ''id'')]\<rparr> (lit ''x''))
     fs_a
     (set_run te0 (\<lambda>_. None) env_none \<lparr>c_file = None, c_efi_dir = Some (lit ''/efi''), c_efi = False\<rparr>
        \<lparr>sa_key = lit ''machine.id'', sa_value = lit ''x''\<rparr> fs_a)"
proof -
  have p: "parse (lit ''machine.id'') = Some \<lparr>kp_segments = [Field (lit ''machine''), Field (lit ''id'')]\<rparr>"
    by (simp add: parse_def trim_def is_whitespace_def parse_finish_def push_field_def str_simps)
  have "section_of \<lparr>kp_segments = [Field (lit ''machine''), Field (lit ''id'')]\<rparr> = Some (lit ''machine'')"
    by (simp add: section_of_def)
  from machine_stays_on_efi [OF p this, where te = te0 and pf = "\<lambda>_. None" and env = env_none and
      ctx = "\<lparr>c_file = None, c_efi_dir = Some (lit ''/efi''), c_efi = False\<rparr>" and
      raw = "lit ''x''" and fs = fs_a]
  show ?thesis by simp
qed

end
