(* ===== verification/Config_Main.thy ===== *)
theory Config_Main
  imports Cmd_List Cmd_Run
begin

text \<open>
  \<^verbatim>\<open>edit.rs\<close> and the entry point \<^verbatim>\<open>main.rs\<close> of \<^verbatim>\<open>zebrafish-config\<close>: creating the file, running the editor
  and checking the result; filling in the EFI directory and dispatching the parsed command line.
  The editor is a program of the user's: what running it yields is a parameter.
\<close>

section \<open>Definitions\<close>

text \<open>
  \<open>ed_var\<close> is the environment variable, \<open>ed_cmd\<close> the failure to start the editor or its exit code
  (\<open>None\<close> when a signal ended it), with the file system afterwards.
\<close>

record editor =
  ed_var :: "rstr option"
  ed_cmd :: "rstr \<Rightarrow> path \<Rightarrow> fsys \<Rightarrow> (rstr, int option) result \<times> fsys"

definition ensure_exists :: "path \<Rightarrow> fsys \<Rightarrow> (cfg_error, unit) result \<times> fsys" where
  "ensure_exists p fs =
     (if fs_exists fs p then (Ok (), fs)
      else case (case parent p of
                   Some par \<Rightarrow>
                     (case create_dir_all par fs of
                        (Inl e, fs1) \<Rightarrow> (Err (IoError (lit ''creating'') par e), fs1)
                      | (Inr _, fs1) \<Rightarrow> (Ok (), fs1))
                 | None \<Rightarrow> (Ok (), fs)) of
             (Inl e, fs1) \<Rightarrow> (Err e, fs1)
           | (Inr _, fs1) \<Rightarrow>
               (case fs_write p [] fs1 of
                  (Inl e, fs2) \<Rightarrow> (Err (IoError (lit ''creating'') p e), fs2)
                | (Inr _, fs2) \<Rightarrow> (Ok (), fs2)))"

definition edit_run_inner ::
  "'tbl toml_edit \<Rightarrow> editor \<Rightarrow> ctx \<Rightarrow> fsys \<Rightarrow> (cfg_error, nat \<times> rstr) result \<times> fsys" where
  "edit_run_inner te ed ctx fs =
     (let p = (case c_file ctx of Some f \<Rightarrow> f | None \<Rightarrow> SYSTEM_FILE)
      in case ensure_exists p fs of
           (Inl e, fs1) \<Rightarrow> (Err e, fs1)
         | (Inr _, fs1) \<Rightarrow>
             (let editor = (case ed_var ed of Some v \<Rightarrow> v | None \<Rightarrow> lit ''nano'')
              in case ed_cmd ed editor p fs1 of
                   (Inl e, fs2) \<Rightarrow> (Err (EditorNotRun editor), fs2)
                 | (Inr code, fs2) \<Rightarrow>
                     if code \<noteq> Some 0
                     then (Ok (unat (word_of_int (case code of Some c \<Rightarrow> c | None \<Rightarrow> 1) :: u8), []), fs2)
                     else (case load_document te p fs2 of
                             Inl e \<Rightarrow> (Err e, fs2)
                           | Inr _ \<Rightarrow> (Ok (0, []), fs2))))"

definition edit_run :: "'tbl toml_edit \<Rightarrow> editor \<Rightarrow> ctx \<Rightarrow> fsys \<Rightarrow> outcome" where
  "edit_run te ed ctx fs = run_with (edit_run_inner te ed ctx fs)"

text \<open>Everything outside the repository that a command may call.\<close>

record 'tbl world =
  w_te :: "'tbl toml_edit"
  w_f64 :: "rstr \<Rightarrow> f64 option"
  w_tc :: toml_crate
  w_upper :: "rchar \<Rightarrow> rstr"
  w_efi :: efi_env
  w_ed :: editor

definition fill_efi_dir :: "efi_env \<Rightarrow> ctx \<Rightarrow> fsys \<Rightarrow> ctx \<times> fsys" where
  "fill_efi_dir env ctx fs =
     (if c_efi ctx \<and> c_efi_dir ctx = None then
        (case discover_efi_dir env fs of
           (Inr d, fs1) \<Rightarrow> (ctx\<lparr>c_efi_dir := Some d\<rparr>, fs1)
         | (Inl _, fs1) \<Rightarrow> (ctx, fs1))
      else (ctx, fs))"

definition dispatch :: "'tbl world \<Rightarrow> ctx \<Rightarrow> command \<Rightarrow> fsys \<Rightarrow> outcome" where
  "dispatch w ctx cmd fs =
     (case cmd of
        CmdGet args \<Rightarrow> get_run (w_tc w) (w_efi w) ctx args fs
      | CmdSet args \<Rightarrow> set_run (w_te w) (w_f64 w) (w_efi w) ctx args fs
      | CmdList args \<Rightarrow> list_run (w_tc w) (w_upper w) (w_efi w) ctx args fs
      | CmdAdd args \<Rightarrow> add_run (w_te w) (w_efi w) ctx args fs
      | CmdRemove args \<Rightarrow> remove_run (w_te w) (w_efi w) ctx args fs
      | CmdEdit \<Rightarrow> edit_run (w_te w) (w_ed w) ctx fs
      | CmdPath args \<Rightarrow> path_run (w_efi w) ctx args fs
      | CmdValidate args \<Rightarrow> validate_run (w_tc w) (w_efi w) ctx args fs)"

definition config_main :: "'tbl world \<Rightarrow> cli \<Rightarrow> fsys \<Rightarrow> outcome" where
  "config_main w c fs =
     (case fill_efi_dir (w_efi w) (from_cli c) fs of
        (ctx, fs1) \<Rightarrow> dispatch w ctx (cli_command c) fs1)"

section \<open>Lemmas\<close>

fun read_only :: "command \<Rightarrow> bool" where
  "read_only (CmdGet _) = True"
| "read_only (CmdList _) = True"
| "read_only (CmdPath _) = True"
| "read_only (CmdValidate _) = True"
| "read_only _ = False"

text \<open>
  A reading command looks for the EFI directory at most once more, and only when none is given and
  the partition may be mounted.
\<close>

lemma load_fs:
  "snd (load tc env d mo efi fs) = (if d = None \<and> efi then snd (discover_efi_dir env fs) else fs)"
  by (auto simp: load_def resolve_paths_def Let_def split: option.split prod.split sum.split)

lemma read_config_looks:
  "snd (read_config tc env context ctx fs) \<in>
     {fs, if c_efi_dir ctx = None \<and> c_efi ctx then snd (discover_efi_dir env fs) else fs}"
  by (auto simp: read_config_def load_fs split: option.split sum.split)

lemma get_run_looks:
  "o_fs (get_run tc env ctx args fs) \<in>
     {fs, if c_efi_dir ctx = None \<and> c_efi ctx then snd (discover_efi_dir env fs) else fs}"
  using read_config_looks [of tc env "lit ''reading''" ctx fs]
  by (cases "parse (ga_key args)"; cases "read_config tc env (lit ''reading'') ctx fs")
    (auto simp: get_run_def get_run_inner_def split: sum.split)

lemma list_run_looks:
  "o_fs (list_run tc up env ctx args fs) \<in>
     {fs, if c_efi_dir ctx = None \<and> c_efi ctx then snd (discover_efi_dir env fs) else fs}"
  using read_config_looks [of tc env "[]" ctx fs]
  by (cases "read_config tc env [] ctx fs")
    (auto simp: list_run_def list_run_inner_def Let_def split: sum.split option.split)

lemma path_run_looks:
  "o_fs (path_run env ctx args fs) \<in>
     {fs, if c_efi_dir ctx = None \<and> c_efi ctx then snd (discover_efi_dir env fs) else fs}"
  by (auto simp: path_run_def path_run_inner_def Let_def split: option.split prod.split sum.split)

lemma validate_run_looks:
  "o_fs (validate_run tc env ctx args fs) \<in>
     {fs, if c_efi_dir ctx = None \<and> c_efi ctx then snd (discover_efi_dir env fs) else fs}"
  using load_fs [of tc env "c_efi_dir ctx" True "c_efi ctx" fs]
    load_fs [of tc env "c_efi_dir ctx" False "c_efi ctx" fs]
  by (cases "load tc env (c_efi_dir ctx) True (c_efi ctx) fs";
      cases "load tc env (c_efi_dir ctx) False (c_efi ctx) fs")
    (auto simp: validate_run_def validate_run_inner_def Let_def split: option.split sum.split)

lemma read_only_looks:
  assumes "read_only cmd"
  shows "o_fs (dispatch w ctx cmd fs) \<in>
     {fs, if c_efi_dir ctx = None \<and> c_efi ctx then snd (discover_efi_dir (w_efi w) fs) else fs}"
  using assms get_run_looks list_run_looks path_run_looks validate_run_looks
  by (cases cmd) (simp_all add: dispatch_def)

lemma read_only_fs:
  assumes "read_only cmd" and "c_efi_dir ctx \<noteq> None \<or> \<not> c_efi ctx"
  shows "o_fs (dispatch w ctx cmd fs) = fs"
  using read_only_looks [OF assms(1), of w ctx fs] assms(2) by auto

text \<open>What it reports depends on the configuration files alone.\<close>

definition config_paths :: "ctx \<Rightarrow> path set" where
  "config_paths ctx = {SYSTEM_FILE} \<union> machine_file ` set_option (c_efi_dir ctx) \<union> set_option (c_file ctx)"

definition same_report :: "outcome \<Rightarrow> outcome \<Rightarrow> bool" where
  "same_report a b \<longleftrightarrow> o_exit a = o_exit b \<and> o_stdout a = o_stdout b \<and> o_error a = o_error b"

lemma same_report_run_with: "fst a = fst b \<Longrightarrow> same_report (run_with a) (run_with b)"
  by (cases a; cases b; cases "fst a") (auto simp: same_report_def)

lemma load_depends:
  assumes "\<And>p. p \<in> insert SYSTEM_FILE (machine_file ` set_option d) \<Longrightarrow>
             read_to_string fs2 p = read_to_string fs p"
    and "d \<noteq> None \<or> \<not> efi"
  shows "load tc env d mo efi fs = (fst (load tc env d mo efi fs2), fs)"
  using assms
  by (auto simp: load_def resolve_paths_def load_from_paths_def read_part_def read_optional_def Let_def
      split: option.split)

lemma read_config_depends:
  assumes "\<And>p. p \<in> config_paths ctx \<Longrightarrow> read_to_string fs2 p = read_to_string fs p"
    and "c_efi_dir ctx \<noteq> None \<or> \<not> c_efi ctx"
  shows "read_config tc env context ctx fs = (fst (read_config tc env context ctx fs2), fs)"
  using assms load_depends [of "c_efi_dir ctx" fs2 fs "c_efi ctx" tc env False]
  by (auto simp: read_config_def config_paths_def split: option.split sum.split)

lemma read_only_depends:
  assumes "read_only cmd" and nm: "c_efi_dir ctx \<noteq> None \<or> \<not> c_efi ctx"
    and same: "\<And>p. p \<in> config_paths ctx \<Longrightarrow> read_to_string fs2 p = read_to_string fs p"
  shows "same_report (dispatch w ctx cmd fs2) (dispatch w ctx cmd fs)"
proof (cases cmd)
  case (CmdGet args)
  have "fst (get_run_inner (w_tc w) (w_efi w) ctx args fs2) = fst (get_run_inner (w_tc w) (w_efi w) ctx args fs)"
    using read_config_depends [OF same nm, of "w_tc w" "w_efi w" "lit ''reading''"]
    by (cases "read_config (w_tc w) (w_efi w) (lit ''reading'') ctx fs2")
      (auto simp: get_run_inner_def split: option.split sum.split)
  then show ?thesis by (simp add: CmdGet dispatch_def get_run_def same_report_run_with)
next
  case (CmdList args)
  have "fst (list_run_inner (w_tc w) (w_upper w) (w_efi w) ctx args fs2) =
        fst (list_run_inner (w_tc w) (w_upper w) (w_efi w) ctx args fs)"
    using read_config_depends [OF same nm, of "w_tc w" "w_efi w" "[]"]
    by (cases "read_config (w_tc w) (w_efi w) [] ctx fs2")
      (auto simp: list_run_inner_def Let_def split: option.split sum.split)
  then show ?thesis by (simp add: CmdList dispatch_def list_run_def same_report_run_with)
next
  case (CmdPath args)
  have "fst (path_run_inner (w_efi w) ctx args fs2) = fst (path_run_inner (w_efi w) ctx args fs)"
    using nm by (auto simp: path_run_inner_def Let_def split: option.split)
  then show ?thesis by (simp add: CmdPath dispatch_def path_run_def same_report_run_with)
next
  case (CmdValidate args)
  have loads: "load (w_tc w) (w_efi w) (c_efi_dir ctx) mo (c_efi ctx) fs =
      (fst (load (w_tc w) (w_efi w) (c_efi_dir ctx) mo (c_efi ctx) fs2), fs)" for mo
    using same nm by (intro load_depends) (auto simp: config_paths_def)
  have "fst (validate_run_inner (w_tc w) (w_efi w) ctx args fs2) =
        fst (validate_run_inner (w_tc w) (w_efi w) ctx args fs)"
    using same loads [of True] loads [of False]
    by (cases "load (w_tc w) (w_efi w) (c_efi_dir ctx) True (c_efi ctx) fs2";
        cases "load (w_tc w) (w_efi w) (c_efi_dir ctx) False (c_efi ctx) fs2")
      (auto simp: validate_run_inner_def Let_def config_paths_def split: option.split sum.split)
  then show ?thesis by (simp add: CmdValidate dispatch_def validate_run_def same_report_run_with)
qed (use assms(1) in auto)

lemma ensure_exists_file:
  assumes "ensure_exists p fs = (Ok (), fs1)"
  shows "fs_exists fs p \<and> fs1 = fs \<or> \<not> fs_exists fs p \<and> fs_file fs1 = (fs_file fs)(path_key p \<mapsto> [])"
proof (cases "fs_exists fs p")
  case True
  with assms show ?thesis by (simp add: ensure_exists_def)
next
  case False
  have "\<exists>fs'. fs_file fs' = fs_file fs \<and> fs_write p [] fs' = (Ok (), fs1)"
  proof (cases "parent p")
    case None
    with assms False show ?thesis
      by (auto simp: ensure_exists_def split: prod.split_asm sum.split_asm)
  next
    case (Some par)
    with assms False create_dir_all_files [of par fs] show ?thesis
      by (auto simp: ensure_exists_def split: prod.split_asm sum.split_asm)
  qed
  then obtain fs' where fs': "fs_file fs' = fs_file fs" "fs_write p [] fs' = (Ok (), fs1)" by blast
  then have "fs1 = set_node (path_key p) (FileNode []) fs'"
    by (auto simp: fs_write_def Let_def split: if_split_asm option.split_asm prod.split_asm)
  with fs'(1) False show ?thesis by (auto simp: fun_eq_iff fs_simps)
qed

section \<open>Properties\<close>

text \<open>
  C32. The reading commands \<^verbatim>\<open>get\<close>, \<^verbatim>\<open>list\<close>, \<^verbatim>\<open>path\<close> and \<^verbatim>\<open>validate\<close>, run from the command line. When the EFI
  directory is given or the partition may not be mounted, they leave the whole file system as it
  was, and what they report depends on nothing but what reading the system file, the machine file
  and the file given yields. With \<^verbatim>\<open>--efi\<close> and no directory the partition is looked for once when the
  program starts, and a second time by the command only when the first try failed; each try creates at
  most the mount point and runs \<^verbatim>\<open>mount\<close> at most once. In every case a file changes only if the
  \<^verbatim>\<open>mount\<close> program changes it.
\<close>

theorem read_commands_pure:
  assumes "read_only (cli_command c)"
  shows "(if cli_efi c \<and> cli_efi_dir c = None then
            (\<exists>fs1. mount_effect (w_efi w) fs fs1 \<and>
               (o_fs (config_main w c fs) = fs1 \<or>
                (\<exists>e. fst (discover_efi_dir (w_efi w) fs) = Err e) \<and>
                mount_effect (w_efi w) fs1 (o_fs (config_main w c fs))))
          else o_fs (config_main w c fs) = fs \<and>
            (\<forall>fs2. (\<forall>p \<in> config_paths (from_cli c). read_to_string fs2 p = read_to_string fs p) \<longrightarrow>
               same_report (config_main w c fs2) (config_main w c fs))) \<and>
         (\<forall>k. (\<forall>d g. fs_file (snd (mount_cmd (w_efi w) d EFI_MOUNT_POINT g)) k = fs_file g k) \<longrightarrow>
            fs_file (o_fs (config_main w c fs)) k = fs_file fs k)"
proof (cases "cli_efi c \<and> cli_efi_dir c = None")
  case True
  obtain r fs1 where d: "discover_efi_dir (w_efi w) fs = (r, fs1)" by (cases "discover_efi_dir (w_efi w) fs")
  define ctx where "ctx = (case r of Inr dir \<Rightarrow> (from_cli c)\<lparr>c_efi_dir := Some dir\<rparr> | Inl _ \<Rightarrow> from_cli c)"
  have main: "config_main w c fs = dispatch w ctx (cli_command c) fs1"
    using True d by (auto simp: config_main_def fill_efi_dir_def from_cli_def ctx_def split: sum.split)
  have one: "mount_effect (w_efi w) fs fs1" using discover_effect [of "w_efi w" fs] d by simp
  have "o_fs (config_main w c fs) = fs1 \<or>
      (\<exists>e. r = Err e) \<and> mount_effect (w_efi w) fs1 (o_fs (config_main w c fs))"
    using read_only_looks [OF assms, of w ctx fs1] discover_effect [of "w_efi w" fs1]
    unfolding main by (cases r) (auto simp: ctx_def split: if_split_asm)
  with one True d show ?thesis
    by (auto intro!: exI [of _ fs1] intro: mount_effect_files [OF one]
        mount_effect_files [THEN trans] simp: mount_effect_files [OF one])
next
  case False
  then have nm: "c_efi_dir (from_cli c) \<noteq> None \<or> \<not> c_efi (from_cli c)" by (auto simp: from_cli_def)
  have main: "config_main w c g = dispatch w (from_cli c) (cli_command c) g" for g
    using nm by (auto simp: config_main_def fill_efi_dir_def)
  have "o_fs (config_main w c fs) = fs" unfolding main by (rule read_only_fs [OF assms nm])
  with False read_only_depends [OF assms nm, of _ fs w] show ?thesis by (auto simp: main)
qed

lemma read_to_string_set_other:
  assumes "path_key p \<noteq> k"
  shows "read_to_string (set_node k n fs) p = read_to_string fs p"
proof -
  have "fs_is_dir (set_node k n fs) (path_key p) = fs_is_dir fs (path_key p)"
    using assms by (auto simp: fs_is_dir_def fs_nodes_set_node)
  moreover have "fs_file (set_node k n fs) (path_key p) = fs_file fs (path_key p)"
    using assms by (simp add: fs_simps)
  ultimately show ?thesis by (simp add: read_to_string_def Let_def fs_faults_set_node split: option.split)
qed

text \<open>The command line \<^verbatim>\<open>zebrafish-config list\<close>.\<close>

definition cli_list :: cli where
  "cli_list = \<lparr>cli_efi = False, cli_efi_dir = None, cli_file = None, cli_quiet = False,
     cli_verbose = False, cli_command = CmdList \<lparr>la_section = None, la_format = FormatToml\<rparr>\<rparr>"

definition world0 :: "atable world" where
  "world0 = \<lparr>w_te = te0, w_f64 = (\<lambda>_. None), w_tc = tc_empty, w_upper = (\<lambda>_. []), w_efi = env_none,
     w_ed = \<lparr>ed_var = None, ed_cmd = (\<lambda>_ _ fs. (Ok (Some 0), fs))\<rparr>\<rparr>"

theorem read_commands_pure_witness:
  "o_fs (config_main world0 cli_list fs_sys) = fs_sys \<and>
   same_report (config_main world0 cli_list (set_node (True, [lit ''a.toml'']) (FileNode []) fs_sys))
     (config_main world0 cli_list fs_sys)"
proof -
  have "read_only (cli_command cli_list)" by (simp add: cli_list_def)
  note main = conjunct1 [OF read_commands_pure [OF this, of world0 fs_sys]]
  have "path_key SYSTEM_FILE \<noteq> (True, [lit ''a.toml''])"
    by (simp add: SYSTEM_FILE_def path_key_def trivial_piece_def str_simps)
  then have other: "read_to_string (set_node (True, [lit ''a.toml'']) (FileNode []) fs_sys) SYSTEM_FILE =
      read_to_string fs_sys SYSTEM_FILE"
    by (rule read_to_string_set_other)
  have "read_to_string (set_node (True, [lit ''a.toml'']) (FileNode []) fs_sys) p = read_to_string fs_sys p"
    if "p \<in> config_paths (from_cli cli_list)" for p
    using that other by (auto simp: config_paths_def from_cli_def cli_list_def)
  with main show ?thesis by (simp add: cli_list_def)
qed

text \<open>
  C38. A successful \<^verbatim>\<open>edit\<close> leaves a document that parses: when the editor reports exit codes as the
  system does, 0 to 255, the command exits with 0 only if the edited file was loaded again;
  the editor was started on a file that existed or was created, empty, for it.
\<close>

theorem edit_success_parses:
  assumes "\<forall>e q f. fst (ed_cmd ed e q f) \<in> range Inl \<union> {Ok None} \<union> Ok ` Some ` {0..255}"
    and "o_exit (edit_run te ed ctx fs) = 0"
    and "p = (case c_file ctx of Some f \<Rightarrow> f | None \<Rightarrow> SYSTEM_FILE)"
  shows "(\<exists>doc. load_document te p (o_fs (edit_run te ed ctx fs)) = Ok doc) \<and>
         (\<exists>e fs1. o_fs (edit_run te ed ctx fs) = snd (ed_cmd ed e p fs1) \<and>
            (fs_exists fs p \<and> fs1 = fs \<or>
             \<not> fs_exists fs p \<and> fs_file fs1 = (fs_file fs)(path_key p \<mapsto> [])))"
proof -
  obtain r fs1 where ens: "ensure_exists p fs = (r, fs1)" by (cases "ensure_exists p fs")
  define e where "e = (case ed_var ed of Some v \<Rightarrow> v | None \<Rightarrow> lit ''nano'')"
  obtain s fs2 where cmd: "ed_cmd ed e p fs1 = (s, fs2)" by (cases "ed_cmd ed e p fs1")
  have run: "edit_run te ed ctx fs = run_with
      (case r of Inl err \<Rightarrow> (Err err, fs1) | Inr _ \<Rightarrow>
         (case s of Inl _ \<Rightarrow> (Err (EditorNotRun e), fs2)
          | Inr code \<Rightarrow> if code \<noteq> Some 0
              then (Ok (unat (word_of_int (case code of Some c \<Rightarrow> c | None \<Rightarrow> 1) :: u8), []), fs2)
              else (case load_document te p fs2 of Inl err \<Rightarrow> (Err err, fs2) | Inr _ \<Rightarrow> (Ok (0, []), fs2))))"
    using ens cmd assms(3) by (simp add: edit_run_def edit_run_inner_def Let_def e_def split: sum.split)
  have r: "r = Ok ()" using assms(2) run by (cases r) auto
  obtain code where code: "s = Ok code" using assms(2) run r by (cases s) auto
  have "code = Some 0"
  proof (rule ccontr)
    assume no: "code \<noteq> Some 0"
    have "fst (ed_cmd ed e p fs1) \<in> range Inl \<union> {Ok None} \<union> Ok ` Some ` {0..255}"
      using assms(1) by blast
    then have "code \<in> {None} \<union> Some ` {0..255}" using cmd code by auto
    with no run r code assms(2) show False
      by (auto simp: unat_eq_zero word_of_int_eq_0_iff)
  qed
  then have "\<exists>doc. load_document te p fs2 = Ok doc" "o_fs (edit_run te ed ctx fs) = fs2"
    using run r code assms(2) by (auto split: sum.split_asm)
  moreover have "fs_exists fs p \<and> fs1 = fs \<or>
      \<not> fs_exists fs p \<and> fs_file fs1 = (fs_file fs)(path_key p \<mapsto> [])"
    using ens r ensure_exists_file by blast
  ultimately show ?thesis using cmd by (metis snd_conv)
qed

theorem edit_success_parses_witness:
  "\<exists>doc. load_document (te0\<lparr>te_parse := \<lambda>_. Ok (ATable [])\<rparr>) SYSTEM_FILE
      (o_fs (edit_run (te0\<lparr>te_parse := \<lambda>_. Ok (ATable [])\<rparr>)
        (w_ed world0) \<lparr>c_file = None, c_efi_dir = None, c_efi = False\<rparr> fs_sys)) = Ok doc"
proof -
  let ?te = "te0\<lparr>te_parse := \<lambda>_. Ok (ATable [])\<rparr>"
  let ?ctx = "\<lparr>c_file = None, c_efi_dir = None, c_efi = False\<rparr>"
  have "snd (path_key SYSTEM_FILE) \<noteq> []"
    by (simp add: SYSTEM_FILE_def path_key_def path_pieces_def trivial_piece_def str_simps)
  then have "read_to_string fs_sys SYSTEM_FILE = Ok []"
    by (intro read_to_string_file) (simp_all add: fs_sys_def fs_simps)
  moreover have "fs_exists fs_sys SYSTEM_FILE" by (simp add: fs_exists_def fs_sys_def fs_simps)
  ultimately have "o_exit (edit_run ?te (w_ed world0) ?ctx fs_sys) = 0"
    by (simp add: edit_run_def edit_run_inner_def ensure_exists_def world0_def load_document_def)
  from edit_success_parses [OF _ this refl] show ?thesis
    by (auto simp: world0_def)
qed

end
