(* ===== verification/Toml_Text.thy ===== *)
theory Toml_Text
  imports Cmd_Write Load "HOL-Library.Countable"
begin

text \<open>
  Where the two TOML crates meet: the write commands print a file with \<^verbatim>\<open>toml_edit\<close>, the read commands
  parse it with \<^verbatim>\<open>toml\<close>. The locale states what the program relies on: a printed document parses, and
  every scalar it holds is found at the same path. It is interpreted on the association-list tables with
  a numbering of documents as their text.
\<close>

section \<open>Interface\<close>

fun value_view :: "te_value \<Rightarrow> toml_value" where
  "value_view (EString s) = TString s"
| "value_view (EInteger i) = TInteger i"
| "value_view (EFloat f) = TFloat f"
| "value_view (EBoolean b) = TBoolean b"
| "value_view (EDatetime d) = TDatetime d"
| "value_view (EArray vs) = TArray (map value_view vs)"
| "value_view (EInlineTable es) = TTable (map (\<lambda>e. (fst e, value_view (snd e))) es)"

fun is_scalar :: "te_value \<Rightarrow> bool" where
  "is_scalar (EArray _) = False"
| "is_scalar (EInlineTable _) = False"
| "is_scalar _ = True"

locale toml_text = toml_edit_api te
  for te :: "'tbl toml_edit" +
  fixes tc :: toml_crate
  assumes printed_parses: "\<exists>t. tc_parse tc (te_to_string te d) = Ok t"
    and printed_scalar: "tc_parse tc (te_to_string te d) = Ok t \<Longrightarrow>
      doc_lookup te q (ITable d) = Some (IValue v) \<Longrightarrow> is_scalar v \<Longrightarrow>
      walk_segments q (TTable t) = Some (value_view v)"

lemma parse_value_scalar: "is_scalar (parse_value pf raw)"
  by (simp add: parse_value_def split: option.split)

section \<open>Association lists and numbered texts\<close>

function at_view :: "atable \<Rightarrow> toml_table"
  and entries_view :: "(rstr \<times> atable item) list \<Rightarrow> toml_table"
  and tables_view :: "atable list \<Rightarrow> toml_value list" where
  "at_view (ATable es) = entries_view es"
| "entries_view [] = []"
| "entries_view ((k, INone) # es) = entries_view es"
| "entries_view ((k, IValue v) # es) = (k, value_view v) # entries_view es"
| "entries_view ((k, ITable t) # es) = (k, TTable (at_view t)) # entries_view es"
| "entries_view ((k, IArrayOfTables ts) # es) = (k, TArray (tables_view ts)) # entries_view es"
| "tables_view [] = []"
| "tables_view (t # ts) = TTable (at_view t) # tables_view ts"
  by pat_completeness auto
termination
  by (relation "measure (case_sum size (case_sum (size_list (size_prod (\<lambda>_. 0) (size_item size))) (size_list size)))")
     auto

fun item_view :: "atable item \<Rightarrow> toml_value option" where
  "item_view INone = None"
| "item_view (IValue v) = Some (value_view v)"
| "item_view (ITable t) = Some (TTable (at_view t))"
| "item_view (IArrayOfTables ts) = Some (TArray (tables_view ts))"

lemma tables_view_map: "tables_view ts = map (\<lambda>t. TTable (at_view t)) ts"
  by (induction ts) simp_all

lemma entries_view_get:
  "map_of es k = Some it \<Longrightarrow> it \<noteq> INone \<Longrightarrow> map_of (entries_view es) k = item_view it"
proof (induction es)
  case (Cons e es)
  obtain n i where "e = (n, i)" by (cases e)
  with Cons show ?case by (cases i) (auto split: if_split_asm)
qed simp

lemma at_view_get: "at_get t k = Some it \<Longrightarrow> map_of (at_view t) k = item_view it"
  by (cases t) (auto simp: at_get_def entries_view_get split: option.split_asm item.split_asm)

lemma map_of_value_view:
  "map_of es k = Some v \<Longrightarrow> map_of (map (\<lambda>e. (fst e, value_view (snd e))) es) k = Some (value_view v)"
  by (induction es) auto

lemma item_view_walk:
  "doc_lookup (at_api prs shw) q it = Some (IValue v) \<Longrightarrow> item_view it = Some w \<Longrightarrow>
   walk_segments q w = Some (value_view v)"
proof (induction q arbitrary: it w)
  case (Cons s q)
  show ?case
  proof (cases s)
    case (Field n)
    show ?thesis
    proof (cases it)
      case (ITable t)
      with Cons.prems Field obtain nxt where nxt: "at_get t n = Some nxt"
          "doc_lookup (at_api prs shw) q nxt = Some (IValue v)"
        by (auto split: option.split_asm)
      have "nxt \<noteq> INone" using nxt(1) by (auto simp: at_get_def split: option.split_asm item.split_asm)
      then obtain w' where "item_view nxt = Some w'" by (cases nxt) auto
      with nxt Cons.IH [OF nxt(2) this] at_view_get [OF nxt(1)] ITable Field Cons.prems
      show ?thesis by auto
    next
      case (IValue u)
      with Cons Field show ?thesis
        by (cases u) (fastforce split: option.split_asm dest: map_of_value_view)+
    qed (use Cons.prems Field in simp_all)
  next
    case (Index i)
    show ?thesis
    proof (cases it)
      case (IArrayOfTables ts)
      with Cons Index show ?thesis
        by (fastforce simp: tables_view_map nth_opt_map split: option.split_asm)
    next
      case (IValue u)
      with Cons Index show ?thesis
        by (cases u) (fastforce simp: nth_opt_map split: option.split_asm)+
    qed (use Cons.prems Index in simp_all)
  qed
qed simp

instance te_value :: countable
  by countable_datatype

instance item :: (countable) countable
  by countable_datatype

instance atable :: countable
  by countable_datatype

text \<open>A document's number is its text; the empty text is the empty document.\<close>

definition num_text :: "atable \<Rightarrow> rstr" where
  "num_text d = [to_nat d]"

definition num_read :: "rstr \<Rightarrow> (rstr, atable) result" where
  "num_read s = (case s of [] \<Rightarrow> Ok (ATable []) | [n] \<Rightarrow> Ok (from_nat n) | _ \<Rightarrow> Err [])"

definition num_parse :: "rstr \<Rightarrow> (rstr, toml_table) result" where
  "num_parse s = (case num_read s of Inl e \<Rightarrow> Err e | Inr d \<Rightarrow> Ok (at_view d))"

interpretation num: toml_text "at_api num_read num_text" "tc0\<lparr>tc_parse := num_parse\<rparr>"
proof
  show "\<exists>t. tc_parse (tc0\<lparr>tc_parse := num_parse\<rparr>) (te_to_string (at_api num_read num_text) d) = Ok t" for d
    by (simp add: num_parse_def num_read_def num_text_def)
  show "walk_segments q (TTable t) = Some (value_view v)"
    if "tc_parse (tc0\<lparr>tc_parse := num_parse\<rparr>) (te_to_string (at_api num_read num_text) d) = Ok t"
      and "doc_lookup (at_api num_read num_text) q (ITable d) = Some (IValue v)" for d t q v
    using that item_view_walk [of num_read num_text q "ITable d" v]
    by (simp add: num_parse_def num_read_def num_text_def)
qed

end
