(* ===== verification/Set_Get.thy ===== *)
theory Set_Get
  imports Config_Main Toml_Text
begin

text \<open>
  From writing to reading: a value set by \<^verbatim>\<open>set\<close> is printed by \<^verbatim>\<open>get\<close>. The chain runs through the document
  edit, the atomic replacement, the text of the file, the parser of the other crate, the schema,
  and the lookup. The two crates meet in the text of a file; what they promise each other is the
  locale \<open>toml_text\<close>.
\<close>

section \<open>Structures keep their scalar fields\<close>

locale struct_codec = serde_codec ser de
  for ser :: "'a \<Rightarrow> toml_value" and de :: "toml_value \<Rightarrow> 'a option" +
  fixes scalars :: "rstr set"
  assumes keeps: "de (TTable u) = Some x \<Longrightarrow> map_of u f = Some v \<Longrightarrow> f \<in> scalars \<Longrightarrow>
    walk_segments [Field f] (ser x) = Some v"
begin

lemma opt_section_keeps:
  assumes "opt_field (map_of t) s de = Some y" and "map_of t s = Some w"
    and "walk_segments [Field f] w = Some v" and "f \<in> scalars"
  shows "(case map_option ser y of None \<Rightarrow> None | Some w' \<Rightarrow> walk_segments [Field f] w') = Some v"
proof -
  obtain u where u: "w = TTable u" "map_of u f = Some v"
    using assms(3) by (auto split: option.split_asm)
  moreover obtain x where "y = Some x" "de (TTable u) = Some x"
    using assms(1,2) u by (cases "de (TTable u)") (auto simp: opt_field_def)
  ultimately show ?thesis using keeps assms(4) by simp
qed

lemma de_all_nth: "de_all de vs = Some xs \<Longrightarrow> length xs = length vs \<and> (\<forall>i < length vs. de (vs ! i) = Some (xs ! i))"
proof (induction vs arbitrary: xs)
  case (Cons v vs)
  then show ?case by (auto simp: nth_Cons split: option.split_asm nat.split)
qed simp

lemma vec_section_keeps:
  assumes "vec_field (map_of t) s de = Some ys" and "map_of t s = Some w"
    and "walk_segments [Index i, Field f] w = Some v" and "f \<in> scalars"
  shows "(case vec_entry ser ys of None \<Rightarrow> None | Some w' \<Rightarrow> walk_segments [Index i, Field f] w') = Some v"
proof -
  obtain vs u where u: "w = TArray vs" "i < length vs" "vs ! i = TTable u" "map_of u f = Some v"
    using assms(3) by (auto simp: nth_opt_def split: option.split_asm if_split_asm)
  then have "de_all de vs = Some ys" using assms(1,2) by (simp add: default_field_def)
  from de_all_nth [OF this] u have "i < length ys" "de (TTable u) = Some (ys ! i)" by auto
  then show ?thesis
    using keeps [of u "ys ! i" f v] assms(4) u by (simp only: walk_vec_entry if_True)
qed

end

text \<open>A scalar that was read is written as it was.\<close>

locale scalar_codec = serde_codec ser de
  for ser :: "'a \<Rightarrow> toml_value" and de :: "toml_value \<Rightarrow> 'a option" +
  assumes ser_de: "de v = Some x \<Longrightarrow> ser x = v"
begin

lemma req_keeps: "req_field fs n de = Some x \<Longrightarrow> fs n = Some (ser x)"
  by (auto simp: req_field_def ser_de split: option.split_asm)

lemma opt_keeps: "opt_field fs n de = Some y \<Longrightarrow> fs n = map_option ser y"
  by (cases "fs n"; cases "de (the (fs n))") (auto simp: opt_field_def ser_de)

lemma default_keeps: "default_field d fs n de = Some x \<Longrightarrow> fs n = Some v \<Longrightarrow> v = ser x"
  by (auto simp: default_field_def ser_de)

lemmas keeps_laws = req_keeps opt_keeps

end

interpretation s_string: scalar_codec TString de_string
proof
  show "de_string v = Some x \<Longrightarrow> TString x = v" for v x by (cases v) auto
qed

interpretation s_bool: scalar_codec TBoolean as_bool
  by unfold_locales simp

interpretation s_uint: scalar_codec "ser_uint :: 'w :: len word \<Rightarrow> toml_value" de_uint
proof
  show "de_uint v = Some x \<Longrightarrow> ser_uint x = v" for v and x :: "'w word"
    by (cases v) (auto simp: ser_uint_def unsigned_of_int take_bit_int_eq_self split: if_split_asm)
qed

lemmas scalar_keeps = s_string.keeps_laws s_uint.keeps_laws

interpretation k_machine: struct_codec ser_machine de_machine
  "{lit ''id''}"
  by unfold_locales (auto simp: de_machine_def ser_machine_def walk_struct bind_eq_Some_conv
      simp del: walk_segments.simps(2) dest!: scalar_keeps s_bool.default_keeps)

interpretation k_console: struct_codec ser_console de_console
  "{lit ''keymap'', lit ''font''}"
  by unfold_locales (auto simp: de_console_def ser_console_def walk_struct bind_eq_Some_conv
      simp del: walk_segments.simps(2) dest!: scalar_keeps s_bool.default_keeps)

interpretation k_flag: struct_codec ser_flag de_flag
  "{lit ''enabled''}"
  by unfold_locales (auto simp: de_flag_def ser_flag_def walk_struct bind_eq_Some_conv
      simp del: walk_segments.simps(2) dest!: scalar_keeps s_bool.default_keeps)

interpretation k_hostname: struct_codec ser_hostname de_hostname
  "{lit ''name''}"
  by unfold_locales (auto simp: de_hostname_def ser_hostname_def walk_struct bind_eq_Some_conv
      simp del: walk_segments.simps(2) dest!: scalar_keeps s_bool.default_keeps)

interpretation k_ssh: struct_codec ser_ssh de_ssh
  "{lit ''port''}"
  by unfold_locales (auto simp: de_ssh_def ser_ssh_def walk_struct bind_eq_Some_conv
      simp del: walk_segments.simps(2) dest!: scalar_keeps s_bool.default_keeps)

interpretation k_ip_config: struct_codec ser_ip_config de_ip_config
  "{lit ''address'', lit ''broadcast'', lit ''subnet'', lit ''netmask'', lit ''gateway''}"
  by unfold_locales (auto simp: de_ip_config_def ser_ip_config_def walk_struct bind_eq_Some_conv
      simp del: walk_segments.simps(2) dest!: scalar_keeps s_bool.default_keeps)

interpretation k_wg_interface: struct_codec ser_wg_interface de_wg_interface
  "{lit ''name'', lit ''private_key'', lit ''address'', lit ''listen_port''}"
  by unfold_locales (auto simp: de_wg_interface_def ser_wg_interface_def walk_struct bind_eq_Some_conv
      simp del: walk_segments.simps(2) dest!: scalar_keeps s_bool.default_keeps)

interpretation k_nbd_client: struct_codec ser_nbd_client de_nbd_client
  "{lit ''address'', lit ''port'', lit ''device'', lit ''export'', lit ''timeout''}"
  by unfold_locales (auto simp: de_nbd_client_def ser_nbd_client_def walk_struct bind_eq_Some_conv
      simp del: walk_segments.simps(2) dest!: scalar_keeps s_bool.default_keeps)

interpretation k_nbd_server: struct_codec ser_nbd_server de_nbd_server
  "{lit ''address'', lit ''device''}"
  by unfold_locales (auto simp: de_nbd_server_def ser_nbd_server_def walk_struct bind_eq_Some_conv
      simp del: walk_segments.simps(2) dest!: scalar_keeps s_bool.default_keeps)

interpretation k_zfs_key: struct_codec ser_zfs_key de_zfs_key
  "{lit ''dataset'', lit ''key''}"
  by unfold_locales (auto simp: de_zfs_key_def ser_zfs_key_def walk_struct bind_eq_Some_conv
      simp del: walk_segments.simps(2) dest!: scalar_keeps s_bool.default_keeps)

interpretation k_zfs_mount: struct_codec ser_zfs_mount de_zfs_mount
  "{lit ''name''}"
  by unfold_locales (auto simp: de_zfs_mount_def ser_zfs_mount_def walk_struct bind_eq_Some_conv
      simp del: walk_segments.simps(2) dest!: scalar_keeps s_bool.default_keeps)

interpretation k_docker_registry: struct_codec ser_docker_registry de_docker_registry
  "{lit ''hostname'', lit ''username'', lit ''password''}"
  by unfold_locales (auto simp: de_docker_registry_def ser_docker_registry_def walk_struct bind_eq_Some_conv
      simp del: walk_segments.simps(2) dest!: scalar_keeps s_bool.default_keeps)

section \<open>The scalar fields of the configuration\<close>

text \<open>By section: those of the plain tables and those of the arrays of tables.\<close>

definition table_scalars :: "(rstr \<times> rstr list) list" where
  "table_scalars =
     [(lit ''machine'', map lit [''id'']),
      (lit ''console'', map lit [''keymap'', ''font'']),
      (lit ''headless'', map lit [''enabled'']),
      (lit ''rescue'', map lit [''enabled'']),
      (lit ''hostname'', map lit [''name'']),
      (lit ''ssh'', map lit [''port'']),
      (lit ''ipv4'', map lit [''address'', ''broadcast'', ''subnet'', ''netmask'', ''gateway'']),
      (lit ''ipv6'', map lit [''address'', ''broadcast'', ''subnet'', ''netmask'', ''gateway''])]"

definition array_scalars :: "(rstr \<times> rstr list) list" where
  "array_scalars =
     [(lit ''wg'', map lit [''name'', ''private_key'', ''address'', ''listen_port'']),
      (lit ''wg-server'', map lit [''name'', ''private_key'', ''address'', ''listen_port'']),
      (lit ''nbd-client'', map lit [''address'', ''port'', ''device'', ''export'', ''timeout'']),
      (lit ''nbd-server'', map lit [''address'', ''device'']),
      (lit ''zfs-key'', map lit [''dataset'', ''key'']),
      (lit ''zfs-mount'', map lit [''name'']),
      (lit ''docker-registry'', map lit [''hostname'', ''username'', ''password''])]"

lemma de_config_fields:
  assumes "de_config (TTable t) = Some cfg"
  shows "opt_field (map_of t) (lit ''machine'') de_machine = Some (cfg_machine cfg)"
    and "opt_field (map_of t) (lit ''console'') de_console = Some (cfg_console cfg)"
    and "opt_field (map_of t) (lit ''headless'') de_flag = Some (cfg_headless cfg)"
    and "opt_field (map_of t) (lit ''rescue'') de_flag = Some (cfg_rescue cfg)"
    and "opt_field (map_of t) (lit ''hostname'') de_hostname = Some (cfg_hostname cfg)"
    and "opt_field (map_of t) (lit ''ssh'') de_ssh = Some (cfg_ssh cfg)"
    and "opt_field (map_of t) (lit ''ipv4'') de_ip_config = Some (cfg_ipv4 cfg)"
    and "opt_field (map_of t) (lit ''ipv6'') de_ip_config = Some (cfg_ipv6 cfg)"
    and "vec_field (map_of t) (lit ''wg'') de_wg_interface = Some (cfg_wg cfg)"
    and "vec_field (map_of t) (lit ''wg-server'') de_wg_interface = Some (cfg_wg_server cfg)"
    and "vec_field (map_of t) (lit ''nbd-client'') de_nbd_client = Some (cfg_nbd_client cfg)"
    and "vec_field (map_of t) (lit ''nbd-server'') de_nbd_server = Some (cfg_nbd_server cfg)"
    and "vec_field (map_of t) (lit ''zfs-key'') de_zfs_key = Some (cfg_zfs_key cfg)"
    and "vec_field (map_of t) (lit ''zfs-mount'') de_zfs_mount = Some (cfg_zfs_mount cfg)"
    and "vec_field (map_of t) (lit ''docker-registry'') de_docker_registry = Some (cfg_docker_registry cfg)"
  using assms by (auto simp: de_config_def bind_eq_Some_conv)

lemma config_keeps_table:
  assumes cfg: "de_config (TTable t) = Some cfg" and leaf: "(s, fs) \<in> set table_scalars" "f \<in> set fs"
    and val: "map_of t s = Some w" "walk_segments [Field f] w = Some v"
  shows "walk_segments [Field s, Field f] (ser_config cfg) = Some v"
proof -
  note flds = de_config_fields [OF cfg]
  from leaf(1) consider "s = lit ''machine''" "fs = map lit [''id'']"
    | "s = lit ''console''" "fs = map lit [''keymap'', ''font'']"
    | "s = lit ''headless''" "fs = map lit [''enabled'']"
    | "s = lit ''rescue''" "fs = map lit [''enabled'']"
    | "s = lit ''hostname''" "fs = map lit [''name'']"
    | "s = lit ''ssh''" "fs = map lit [''port'']"
    | "s = lit ''ipv4''" "fs = map lit [''address'', ''broadcast'', ''subnet'', ''netmask'', ''gateway'']"
    | "s = lit ''ipv6''" "fs = map lit [''address'', ''broadcast'', ''subnet'', ''netmask'', ''gateway'']"
    by (auto simp: table_scalars_def)
  then show ?thesis
    using k_machine.opt_section_keeps [OF flds(1) _ val(2)] k_console.opt_section_keeps [OF flds(2) _ val(2)]
      k_flag.opt_section_keeps [OF flds(3) _ val(2)] k_flag.opt_section_keeps [OF flds(4) _ val(2)]
      k_hostname.opt_section_keeps [OF flds(5) _ val(2)] k_ssh.opt_section_keeps [OF flds(6) _ val(2)]
      k_ip_config.opt_section_keeps [OF flds(7) _ val(2)] k_ip_config.opt_section_keeps [OF flds(8) _ val(2)]
      leaf(2) val(1)
    by cases (auto simp: walk_struct ser_config_def simp del: walk_segments.simps)
qed

lemma config_keeps_array:
  assumes cfg: "de_config (TTable t) = Some cfg" and leaf: "(s, fs) \<in> set array_scalars" "f \<in> set fs"
    and val: "map_of t s = Some w" "walk_segments [Index i, Field f] w = Some v"
  shows "walk_segments [Field s, Index i, Field f] (ser_config cfg) = Some v"
proof -
  note flds = de_config_fields [OF cfg]
  from leaf(1) consider "s = lit ''wg''" "fs = map lit [''name'', ''private_key'', ''address'', ''listen_port'']"
    | "s = lit ''wg-server''" "fs = map lit [''name'', ''private_key'', ''address'', ''listen_port'']"
    | "s = lit ''nbd-client''" "fs = map lit [''address'', ''port'', ''device'', ''export'', ''timeout'']"
    | "s = lit ''nbd-server''" "fs = map lit [''address'', ''device'']"
    | "s = lit ''zfs-key''" "fs = map lit [''dataset'', ''key'']"
    | "s = lit ''zfs-mount''" "fs = map lit [''name'']"
    | "s = lit ''docker-registry''" "fs = map lit [''hostname'', ''username'', ''password'']"
    by (auto simp: array_scalars_def)
  then show ?thesis
    using k_wg_interface.vec_section_keeps [OF flds(9) _ val(2)] k_wg_interface.vec_section_keeps [OF flds(10) _ val(2)]
      k_nbd_client.vec_section_keeps [OF flds(11) _ val(2)] k_nbd_server.vec_section_keeps [OF flds(12) _ val(2)]
      k_zfs_key.vec_section_keeps [OF flds(13) _ val(2)] k_zfs_mount.vec_section_keeps [OF flds(14) _ val(2)]
      k_docker_registry.vec_section_keeps [OF flds(15) _ val(2)] leaf(2) val(1)
    by cases (auto simp: walk_struct ser_config_def simp del: walk_segments.simps)
qed

text \<open>The paths of scalar fields that \<^verbatim>\<open>set\<close> can address.\<close>

fun scalar_path :: "segment list \<Rightarrow> bool" where
  "scalar_path [Field s, Field f] = list_ex (\<lambda>(n, fs). n = s \<and> f \<in> set fs) table_scalars"
| "scalar_path [Field s, Index i, Field f] = list_ex (\<lambda>(n, fs). n = s \<and> f \<in> set fs) array_scalars"
| "scalar_path _ = False"

lemma config_keeps_scalar:
  assumes "de_config (TTable t) = Some cfg" and "scalar_path p"
    and "walk_segments p (TTable t) = Some v"
  shows "walk_segments p (ser_config cfg) = Some v"
  using assms(2)
proof (cases p rule: scalar_path.cases)
  case (1 s f)
  then obtain fs where "(s, fs) \<in> set table_scalars" "f \<in> set fs"
    using assms(2) by (auto simp: list_ex_iff)
  moreover obtain w where "map_of t s = Some w" "walk_segments [Field f] w = Some v"
    using assms(3) 1 by (auto split: option.split_asm)
  ultimately show ?thesis using config_keeps_table [OF assms(1)] 1 by blast
next
  case (2 s i f)
  then obtain fs where "(s, fs) \<in> set array_scalars" "f \<in> set fs"
    using assms(2) by (auto simp: list_ex_iff)
  moreover obtain w where "map_of t s = Some w" "walk_segments [Index i, Field f] w = Some v"
    using assms(3) 2 by (auto split: option.split_asm)
  ultimately show ?thesis using config_keeps_array [OF assms(1)] 2 by blast
qed auto

section \<open>Reading a printed file\<close>

lemma get_of_printed:
  assumes "toml_text te tc" and "parse k = Some key" and "scalar_path (kp_segments key)"
    and "c_file ctx = Some p" and "read_to_string fs p = Ok (te_to_string te d)"
    and "doc_lookup te (kp_segments key) (ITable d) = Some (IValue v)" and "is_scalar v"
    and "out = get_run tc env ctx \<lparr>ga_key = k, ga_default = None, ga_bool = False\<rparr> fs"
  shows "o_exit out = 0 \<and> o_stdout out = print_value tc (value_view v) \<or>
         o_exit out = 1 \<and>
         (\<exists>t. tc_parse tc (te_to_string te d) = Ok t \<and> de_config (TTable t) = None)"
proof -
  obtain t where t: "tc_parse tc (te_to_string te d) = Ok t"
    using toml_text.printed_parses [OF assms(1)] by blast
  show ?thesis
  proof (cases "de_config (TTable t)")
    case None
    with t assms(2,4,5,8) show ?thesis
      by (auto simp: get_run_def get_run_inner_def read_config_def from_toml_def)
  next
    case (Some cfg)
    have "walk_segments (kp_segments key) (TTable t) = Some (value_view v)"
      using toml_text.printed_scalar [OF assms(1) t assms(6,7)] .
    with Some assms(3) have "lookup key cfg = Some (value_view v)"
      unfolding lookup_def by (intro config_keeps_scalar)
    with Some t assms(2,4,5,8) show ?thesis
      by (simp add: get_run_def get_run_inner_def read_config_def from_toml_def get_value_def)
  qed
qed

text \<open>
  The type of the value is inferred from the text alone, so a host name of digits is stored as an
  integer, and a file that holds one is no configuration.
\<close>

lemma numeric_hostname_rejected:
  "parse_value pf (lit ''123'') = EInteger 123"
  "map_of t (lit ''hostname'') = Some (TTable [(lit ''name'', TInteger i)]) \<Longrightarrow> de_config (TTable t) = None"
proof -
  show "parse_value pf (lit ''123'') = EInteger 123"
    by (simp add: parse_value_def parse_bool_def parse_i64_def parse_digits_def str_simps
      is_ascii_digit_def dec_val_def i64_min_def i64_max_def)
  assume host: "map_of t (lit ''hostname'') = Some (TTable [(lit ''name'', TInteger i)])"
  show "de_config (TTable t) = None"
  proof (rule ccontr)
    assume "de_config (TTable t) \<noteq> None"
    then obtain cfg where "de_config (TTable t) = Some cfg" by blast
    from de_config_fields(5) [OF this] host show False
      by (simp add: opt_field_def de_hostname_def req_field_def)
  qed
qed

end
