(* ===== verification/Session.thy ===== *)
theory Session
  imports Set_Get
begin

text \<open>
  Sessions: any sequence of invocations of \<^verbatim>\<open>zebrafish-config\<close> on one configuration file. The abstract
  specification of the file is a partial map from key paths to values: a successful \<^verbatim>\<open>set\<close> binds its path
  and forgets the paths above and below it, a successful \<^verbatim>\<open>remove\<close> forgets the paths it may have moved or
  deleted, \<^verbatim>\<open>add\<close> and the reading commands forget nothing, the editor forgets everything, and a
  command that fails changes nothing. The file system after every invocation refines the map: every
  binding is found in the printed document, and \<^verbatim>\<open>get\<close> prints it.
\<close>

section \<open>Specification\<close>

type_synonym bindings = "segment list \<rightharpoonup> te_value"

definition key_segments :: "rstr \<Rightarrow> segment list" where
  "key_segments k = (case parse k of Some key \<Rightarrow> kp_segments key | None \<Rightarrow> [])"

definition bind_path :: "segment list \<Rightarrow> te_value \<Rightarrow> bindings \<Rightarrow> bindings" where
  "bind_path p v A = (\<lambda>q. if q = p then Some v else if parallel p q then A q else None)"

definition unbind_path :: "segment list \<Rightarrow> bindings \<Rightarrow> bindings" where
  "unbind_path p A = (\<lambda>q. if parallel (removal_scope p) q then A q else None)"

text \<open>What one invocation with its exit code does to the map.\<close>

fun spec_command :: "(rstr \<Rightarrow> f64 option) \<Rightarrow> command \<Rightarrow> nat \<Rightarrow> bindings \<Rightarrow> bindings" where
  "spec_command pf (CmdSet a) code A =
     (if code = 0 then bind_path (key_segments (sa_key a)) (parse_value pf (sa_value a)) A else A)"
| "spec_command pf (CmdRemove a) code A =
     (if code = 0 then unbind_path (key_segments (ra_key a)) A else A)"
| "spec_command pf CmdEdit code A = Map.empty"
| "spec_command pf _ code A = A"

text \<open>A session: the exit codes in order, the final file system and the final map.\<close>

fun session ::
  "'tbl world \<Rightarrow> ctx \<Rightarrow> command list \<Rightarrow> bindings \<times> fsys \<Rightarrow> nat list \<times> bindings \<times> fsys" where
  "session w ctx [] (A, fs) = ([], A, fs)"
| "session w ctx (cmd # cmds) (A, fs) =
     (let out = dispatch w ctx cmd fs;
          rest = session w ctx cmds (spec_command (w_f64 w) cmd (o_exit out) A, o_fs out)
      in (o_exit out # fst rest, snd rest))"

section \<open>Refinement\<close>

text \<open>What a file written by \<^verbatim>\<open>toml_edit\<close> reads back as, by the same crate and by \<^verbatim>\<open>toml\<close>.\<close>

locale toml_file = toml_text te tc
  for te :: "'tbl toml_edit" and tc :: toml_crate +
  assumes reparse: "\<exists>d'. te_parse te (te_to_string te d) = Ok d' \<and>
    (\<forall>q v. doc_lookup te q (ITable d) = Some (IValue v) \<and> is_scalar v \<longrightarrow>
       doc_lookup te q (ITable d') = Some (IValue v))"

interpretation num_file: toml_file "at_api num_read num_text" "tc0\<lparr>tc_parse := num_parse\<rparr>"
  by unfold_locales (simp add: num_read_def num_text_def)

definition file_holds :: "'tbl toml_edit \<Rightarrow> path \<Rightarrow> bindings \<Rightarrow> fsys \<Rightarrow> bool" where
  "file_holds te p A fs \<longleftrightarrow>
     (\<forall>q v. A q = Some v \<longrightarrow> is_scalar v \<and>
        (\<exists>d. read_to_string fs p = Ok (te_to_string te d) \<and>
             doc_lookup te q (ITable d) = Some (IValue v)))"

lemma file_holds_empty [simp]: "file_holds te p Map.empty fs"
  by (simp add: file_holds_def)

lemma read_to_string_Ok_iff:
  assumes "file_name p = Some g"
  shows "read_to_string fs p = Ok t \<longleftrightarrow>
         fs_read_fault fs (path_key p) = None \<and> fs_file fs (path_key p) = Some t"
proof -
  have "snd (path_key p) \<noteq> []"
    using path_key_with_extension [OF assms, of "[]"] by fastforce
  then show ?thesis
    using fs_file_not_dir [of fs "path_key p" t]
    by (auto simp: read_to_string_def Let_def split: option.splits if_splits)
qed

lemma load_document_readable:
  assumes "load_document te p fs = Ok d"
  shows "fs_read_fault fs (path_key p) = None"
  using assms by (cases "fs_read_fault fs (path_key p)") (auto simp: load_document_def read_to_string_def)

text \<open>What the four calls shared by the write commands do to the text of the file.\<close>

lemma edit_file_read:
  assumes "edit_file te env ctx sect edit fs = (r, fs')" and "c_file ctx = Some p"
    and "file_name p = Some g"
  obtains (failed) e where "r = Err e"
      "\<And>t. read_to_string fs p = Ok t \<Longrightarrow> read_to_string fs' p = Ok t"
    | (stored) d d' where "r = Ok (0, [])" "load_document te p fs = Ok d" "edit d = Ok d'"
        "read_to_string fs' p = Ok (te_to_string te d')"
proof -
  have tgt: "target_path env sect (c_efi_dir ctx) (c_file ctx) (c_efi ctx) fs = (Ok p, fs)"
    using assms(2) by (simp add: target_path_def)
  from assms(1) tgt show ?thesis
  proof (cases rule: edit_file_cases)
    case (refused e)
    then show ?thesis by (intro failed [of e]) simp_all
  next
    case (written d d' w)
    have fault: "fs_read_fault fs' = fs_read_fault fs"
      using write_run_read_fault [OF write_document_run [OF written(3)]] .
    note target = write_document_ends(1) [OF assms(3) written(3)]
    show ?thesis
    proof (cases w)
      case (Inl e)
      with written(4) target fault show ?thesis
        by (intro failed [of e]) (simp_all add: bind_result_def read_to_string_Ok_iff [OF assms(3)])
    next
      case (Inr u)
      with written load_document_readable [OF written(1)] target fault show ?thesis
        by (intro stored [of d d']) (simp_all add: bind_result_def read_to_string_Ok_iff [OF assms(3)])
    qed
  qed
qed

context toml_file
begin

lemma load_printed:
  assumes "read_to_string fs p = Ok (te_to_string te d)"
    and "load_document te p fs = Ok d'" and "doc_lookup te q (ITable d) = Some (IValue v)"
    and "is_scalar v"
  shows "doc_lookup te q (ITable d') = Some (IValue v)"
  using assms reparse [of d] by (auto simp: load_document_def)

lemma edit_file_holds:
  assumes run: "edit_file te env ctx sect edit fs = (r, fs')" and p: "c_file ctx = Some p" "file_name p = Some g"
    and holds: "file_holds te p A fs"
    and step: "\<And>d d' q v. edit d = Ok d' \<Longrightarrow> A' q = Some v \<Longrightarrow>
      (A q = Some v \<Longrightarrow> doc_lookup te q (ITable d) = Some (IValue v)) \<Longrightarrow>
      (A q = Some v \<Longrightarrow> is_scalar v) \<Longrightarrow>
      doc_lookup te q (ITable d') = Some (IValue v) \<and> is_scalar v"
  shows "file_holds te p (if o_exit (run_with (r, fs')) = 0 then A' else A) fs'"
  using run p
proof (cases rule: edit_file_read)
  case (failed e)
  with holds show ?thesis by (fastforce simp: file_holds_def)
next
  case (stored d d')
  have "doc_lookup te q (ITable d') = Some (IValue v) \<and> is_scalar v" if "A' q = Some v" for q v
  proof (rule step [OF stored(3) that])
    assume "A q = Some v"
    with holds obtain d0 where "is_scalar v" "read_to_string fs p = Ok (te_to_string te d0)"
        "doc_lookup te q (ITable d0) = Some (IValue v)" by (auto simp: file_holds_def)
    with load_printed stored(2) show "doc_lookup te q (ITable d) = Some (IValue v)" and "is_scalar v"
      by blast+
  qed
  with stored(1,4) show ?thesis by (auto simp: file_holds_def)
qed

lemma add_entry_keeps:
  assumes "add_entry te d sect = Ok d'" and "doc_lookup te q (ITable d) = Some (IValue v)"
  shows "doc_lookup te q (ITable d') = Some (IValue v)"
proof -
  obtain arr where arr: "te_get te d sect = Some (IArrayOfTables arr) \<or> te_get te d sect = None \<and> arr = []"
      "te_get te d' sect = Some (IArrayOfTables (arr @ [te_new te]))"
      "\<And>l. l \<noteq> sect \<Longrightarrow> te_get te d' l = te_get te d l"
    using add_entry_get [OF assms(1)] by metis
  obtain n q1 where q: "q = Field n # q1"
    using assms(2) by (cases "(te, q, ITable d)" rule: doc_lookup.cases) auto
  show ?thesis
  proof (cases "n = sect")
    case False
    with q assms(2) arr(3) show ?thesis by simp
  next
    case True
    with q assms(2) arr(1) have "doc_lookup te q1 (IArrayOfTables arr) = Some (IValue v)" by auto
    then have "doc_lookup te q1 (IArrayOfTables (arr @ [te_new te])) = Some (IValue v)"
      by (cases "(te, q1, IArrayOfTables arr)" rule: doc_lookup.cases)
         (auto simp: nth_opt_def nth_append split: option.split_asm if_split_asm)
    with q True arr(2) show ?thesis by simp
  qed
qed

text \<open>One invocation refines one step of the map.\<close>

lemma set_holds:
  assumes "c_file ctx = Some p" and "file_name p = Some g" and "file_holds te p A fs"
  shows "file_holds te p (spec_command pf (CmdSet a) (o_exit (set_run te pf env ctx a fs)) A)
           (o_fs (set_run te pf env ctx a fs))"
proof (cases "\<exists>key sect. parse (sa_key a) = Some key \<and>
    set_run te pf env ctx a fs =
      run_with (edit_file te env ctx sect (\<lambda>d. apply_set te pf d key (sa_value a)) fs)")
  case False
  with assms(3) show ?thesis
    by (auto simp: set_run_def set_run_inner_def split: option.split if_split)
next
  case True
  then obtain key sect where key: "parse (sa_key a) = Some key"
    and run: "set_run te pf env ctx a fs =
      run_with (edit_file te env ctx sect (\<lambda>d. apply_set te pf d key (sa_value a)) fs)" by blast
  obtain r fs' where ef: "edit_file te env ctx sect (\<lambda>d. apply_set te pf d key (sa_value a)) fs = (r, fs')"
    by fastforce
  let ?A = "bind_path (kp_segments key) (parse_value pf (sa_value a)) A"
  have "file_holds te p (if o_exit (run_with (r, fs')) = 0 then ?A else A) fs'"
    using ef assms
  proof (rule edit_file_holds)
    show "doc_lookup te q (ITable d') = Some (IValue v) \<and> is_scalar v"
      if "apply_set te pf d key (sa_value a) = Ok d'" "?A q = Some v"
        "A q = Some v \<Longrightarrow> doc_lookup te q (ITable d) = Some (IValue v)" "A q = Some v \<Longrightarrow> is_scalar v"
      for d d' q v
      using that apply_set_lookup [OF that(1)] apply_set_frame [OF that(1), of q] parse_value_scalar [of pf]
      by (auto simp: bind_path_def split: if_split_asm)
  qed
  with key run ef show ?thesis by (simp add: key_segments_def split: if_split_asm)
qed

lemma remove_holds:
  assumes "c_file ctx = Some p" and "file_name p = Some g" and "file_holds te p A fs"
  shows "file_holds te p (spec_command pf (CmdRemove a) (o_exit (remove_run te env ctx a fs)) A)
           (o_fs (remove_run te env ctx a fs))"
proof (cases "\<exists>key sect. parse (ra_key a) = Some key \<and>
    remove_run te env ctx a fs = run_with (edit_file te env ctx sect (\<lambda>d. remove_in_doc te d key) fs)")
  case False
  with assms(3) show ?thesis
    by (auto simp: remove_run_def remove_run_inner_def split: option.split if_split)
next
  case True
  then obtain key sect where key: "parse (ra_key a) = Some key"
    and run: "remove_run te env ctx a fs =
      run_with (edit_file te env ctx sect (\<lambda>d. remove_in_doc te d key) fs)" by blast
  obtain r fs' where ef: "edit_file te env ctx sect (\<lambda>d. remove_in_doc te d key) fs = (r, fs')"
    by fastforce
  let ?A = "unbind_path (kp_segments key) A"
  have "file_holds te p (if o_exit (run_with (r, fs')) = 0 then ?A else A) fs'"
    using ef assms
  proof (rule edit_file_holds)
    show "doc_lookup te q (ITable d') = Some (IValue v) \<and> is_scalar v"
      if "remove_in_doc te d key = Ok d'" "?A q = Some v"
        "A q = Some v \<Longrightarrow> doc_lookup te q (ITable d) = Some (IValue v)" "A q = Some v \<Longrightarrow> is_scalar v"
      for d d' q v
      using that remove_in_doc_frame [OF that(1), of q] by (auto simp: unbind_path_def split: if_split_asm)
  qed
  with key run ef show ?thesis by (simp add: key_segments_def split: if_split_asm)
qed

lemma add_holds:
  assumes "c_file ctx = Some p" and "file_name p = Some g" and "file_holds te p A fs"
  shows "file_holds te p A (o_fs (add_run te env ctx a fs))"
proof (cases "aa_section a = lit ''machine''")
  case True
  with assms(3) show ?thesis by (simp add: add_run_def add_inner_def)
next
  case False
  obtain r fs' where ef: "edit_file te env ctx (aa_section a) (\<lambda>d. add_entry te d (aa_section a)) fs = (r, fs')"
    by fastforce
  have "file_holds te p (if o_exit (run_with (r, fs')) = 0 then A else A) fs'"
    using ef assms by (rule edit_file_holds) (auto intro: add_entry_keeps)
  with False ef show ?thesis by (simp add: add_run_def add_inner_def)
qed

end

section \<open>Properties\<close>

lemma dispatch_holds:
  assumes "toml_file (w_te w) tc" and "c_file ctx = Some p" and "file_name p = Some g"
    and "c_efi_dir ctx \<noteq> None \<or> \<not> c_efi ctx" and "file_holds (w_te w) p A fs"
  shows "file_holds (w_te w) p (spec_command (w_f64 w) cmd (o_exit (dispatch w ctx cmd fs)) A)
           (o_fs (dispatch w ctx cmd fs))"
proof (cases "read_only cmd")
  case True
  with assms(5) read_only_fs [OF True assms(4), of w fs] show ?thesis by (cases cmd) auto
next
  case False
  then show ?thesis
    using toml_file.set_holds [OF assms(1-3,5)] toml_file.remove_holds [OF assms(1-3,5)]
      toml_file.add_holds [OF assms(1-3,5)]
    by (cases cmd) (simp_all add: dispatch_def)
qed

lemma session_holds:
  assumes "toml_file (w_te w) tc" and "c_file ctx = Some p" and "file_name p = Some g"
    and "c_efi_dir ctx \<noteq> None \<or> \<not> c_efi ctx"
  shows "file_holds (w_te w) p A fs \<Longrightarrow> session w ctx cmds (A, fs) = (codes, B, fs') \<Longrightarrow>
         file_holds (w_te w) p B fs'"
proof (induction cmds arbitrary: A fs codes)
  case (Cons cmd cmds)
  then show ?case
    using dispatch_holds [OF assms, of A fs cmd] by (auto simp: Let_def prod_eq_iff)
qed simp

text \<open>
  C2. The program implements a map from key paths to values: after any sequence of its commands on
  one configuration file, failed ones included, \<^verbatim>\<open>get\<close> of a scalar field that the abstract map binds
  exits with 0 and prints the bound value; or some value put into the file has the wrong type for
  the schema, and then \<^verbatim>\<open>get\<close> exits with 1 and the file parses as TOML but not as a configuration.
\<close>

theorem session_refines_map:
  assumes "toml_file (w_te w) (w_tc w)" and "c_file ctx = Some p" and "file_name p = Some g"
    and "c_efi_dir ctx \<noteq> None \<or> \<not> c_efi ctx"
    and "session w ctx cmds (Map.empty, fs) = (codes, A, fs')"
    and "parse k = Some key" and "scalar_path (kp_segments key)" and "A (kp_segments key) = Some v"
    and "out = dispatch w ctx (CmdGet \<lparr>ga_key = k, ga_default = None, ga_bool = False\<rparr>) fs'"
  shows "o_exit out = 0 \<and> o_stdout out = print_value (w_tc w) (value_view v) \<or>
         o_exit out = 1 \<and>
         (\<exists>content t. read_to_string fs' p = Ok content \<and> tc_parse (w_tc w) content = Ok t \<and>
            de_config (TTable t) = None)"
proof -
  have "file_holds (w_te w) p A fs'"
    using session_holds [OF assms(1-4) file_holds_empty assms(5)] .
  with assms(8) obtain d where "is_scalar v" "read_to_string fs' p = Ok (te_to_string (w_te w) d)"
      "doc_lookup (w_te w) (kp_segments key) (ITable d) = Some (IValue v)"
    by (auto simp: file_holds_def)
  then show ?thesis
    using get_of_printed [OF toml_file.axioms(1) [OF assms(1)] assms(6,7,2)] assms(9)
    by (fastforce simp: dispatch_def)
qed

definition te_num :: "atable toml_edit" where
  "te_num = at_api num_read num_text"

definition tc_num :: toml_crate where
  "tc_num = (tc_plain (\<lambda>_. Err []))\<lparr>tc_parse := num_parse\<rparr>"

definition doc_ssh :: atable where
  "doc_ssh = ATable [(lit ''ssh'', ITable (ATable [(lit ''port'', IValue (EInteger 22))]))]"

lemma set_ssh_port:
  "apply_set te_num (\<lambda>_. None) (ATable []) \<lparr>kp_segments = [Field (lit ''ssh''), Field (lit ''port'')]\<rparr> (lit ''22'') =
   Ok doc_ssh"
  by (simp add: apply_set_def ensure_table_def te_num_def at_get_def at_put_def doc_ssh_def
      parse_value_def parse_bool_def parse_i64_def parse_digits_def str_simps
      is_ascii_digit_def dec_val_def i64_min_def i64_max_def)

lemma set_run_ssh_port:
  fixes out defines "out \<equiv> set_run te_num (\<lambda>_. None) env_none ctx_a
    \<lparr>sa_key = lit ''ssh.port'', sa_value = lit ''22''\<rparr> fs_a"
  shows "o_exit out = 0" and "fs_file (o_fs out) (path_key (lit ''/a.toml'')) = Some (num_text doc_ssh)"
proof -
  obtain r fs' where w: "write_document te_num (lit ''/a.toml'') doc_ssh fs_a = (r, fs')"
    by (cases "write_document te_num (lit ''/a.toml'') doc_ssh fs_a")
  moreover have "fst (write_document te_num (lit ''/a.toml'') doc_ssh fs_a) = Ok ()"
    by (simp add: write_document_def replace_file_def fs_write_def fs_rename_def example_paths
        fs_simps Let_def fs_a_def)
  ultimately have r: "r = Ok ()" by simp
  have "load_document te_num (lit ''/a.toml'') fs_a = Ok (ATable [])"
    by (simp add: load_document_def read_to_string_def fs_a_def example_paths fs_simps te_num_def
        num_read_def)
  with w r have "out = \<lparr>o_exit = 0, o_stdout = [], o_error = None, o_fs = fs'\<rparr>"
    by (simp add: out_def set_run_def set_run_inner_def parse_ssh_port section_of_def edit_file_def
        target_path_def ctx_a_def set_ssh_port)
  with write_document_ends(1) [OF example_paths(1) w] r
  show "o_exit out = 0" and "fs_file (o_fs out) (path_key (lit ''/a.toml'')) = Some (num_text doc_ssh)"
    by (simp_all add: te_num_def)
qed

lemma ssh_port_value: "parse_value pf (lit ''22'') = EInteger 22"
  by (simp add: parse_value_def parse_bool_def parse_i64_def parse_digits_def str_simps
      is_ascii_digit_def dec_val_def i64_min_def i64_max_def)

lemma doc_ssh_config: "de_config (TTable (at_view doc_ssh)) \<noteq> None"
  by (simp add: doc_ssh_def de_config_def opt_field_def default_field_def de_ssh_def)

definition world_num :: "atable world" where
  "world_num = \<lparr>w_te = te_num, w_f64 = (\<lambda>_. None), w_tc = tc_num, w_upper = (\<lambda>c. [c]), w_efi = env_none,
     w_ed = \<lparr>ed_var = None, ed_cmd = (\<lambda>_ _ fs. (Err [], fs))\<rparr>\<rparr>"

theorem session_refines_map_witness:
  "\<exists>codes A fs' out. session world_num ctx_a
       [CmdSet \<lparr>sa_key = [], sa_value = []\<rparr>, CmdSet \<lparr>sa_key = lit ''ssh.port'', sa_value = lit ''22''\<rparr>]
       (Map.empty, fs_a) = (codes, A, fs') \<and>
     out = dispatch world_num ctx_a (CmdGet \<lparr>ga_key = lit ''ssh.port'', ga_default = None, ga_bool = False\<rparr>) fs' \<and>
     codes = [1, 0] \<and> o_exit out = 0 \<and> o_stdout out = show_int 22"
proof -
  let ?set = "set_run te_num (\<lambda>_. None) env_none ctx_a \<lparr>sa_key = lit ''ssh.port'', sa_value = lit ''22''\<rparr> fs_a"
  let ?segs = "[Field (lit ''ssh''), Field (lit ''port'')]"
  have bad: "set_run te_num (\<lambda>_. None) env_none ctx_a \<lparr>sa_key = [], sa_value = []\<rparr> fs_a =
      \<lparr>o_exit = 1, o_stdout = [], o_error = Some (InvalidKeyPath []), o_fs = fs_a\<rparr>"
    by (simp add: set_run_def set_run_inner_def parse_def trim_def)
  have run: "session world_num ctx_a
      [CmdSet \<lparr>sa_key = [], sa_value = []\<rparr>, CmdSet \<lparr>sa_key = lit ''ssh.port'', sa_value = lit ''22''\<rparr>]
      (Map.empty, fs_a) = ([1, 0], bind_path ?segs (EInteger 22) Map.empty, o_fs ?set)"
    using set_run_ssh_port(1) ssh_port_value
    by (simp add: world_num_def dispatch_def bad key_segments_def parse_ssh_port Let_def)
  have printed: "read_to_string (o_fs ?set) (lit ''/a.toml'') = Ok content \<Longrightarrow> content = num_text doc_ssh" for content
    using set_run_ssh_port(2) by (simp add: read_to_string_Ok_iff [OF example_paths(1)])
  have "toml_file (w_te world_num) (w_tc world_num)"
    unfolding world_num_def te_num_def tc_num_def by (simp add: num_file.toml_file_axioms)
  from session_refines_map [OF this _ example_paths(1) _ run parse_ssh_port _ _ refl, of "EInteger 22"]
  show ?thesis
    using run printed doc_ssh_config
    by (fastforce simp: ctx_a_def table_scalars_def bind_path_def world_num_def tc_num_def num_parse_def
        num_read_def num_text_def)
qed

end
