(* ===== verification/Writers.thy ===== *)
theory Writers
  imports Store
begin

text \<open>
  Several processes in \<^verbatim>\<open>write_document\<close> at the same time. The temporary file has a fixed name beside the
  target and is opened without any lock, so what one process does to it another can see. The state is
  therefore one level lower than in the store: names lead to inodes, an open file keeps its inode
  whatever happens to the name, opening truncates the inode that is there, writing goes to an offset,
  and renaming moves the inode. The parent directory exists; a process may fail or stop at every point.
\<close>

section \<open>Definitions\<close>

record 'k disk =
  dk_names :: "'k \<rightharpoonup> nat"
  dk_data :: "nat \<Rightarrow> rstr"
  dk_fresh :: nat

definition dk_file :: "'k disk \<Rightarrow> 'k \<Rightarrow> rstr option" where
  "dk_file d k = map_option (dk_data d) (dk_names d k)"

text \<open>Names with different inodes, and inodes still to be given out.\<close>

definition disk_ok :: "'k disk \<Rightarrow> bool" where
  "disk_ok d \<longleftrightarrow>
     (\<forall>k i. dk_names d k = Some i \<longrightarrow> i < dk_fresh d) \<and>
     (\<forall>k l i. dk_names d k = Some i \<longrightarrow> dk_names d l = Some i \<longrightarrow> k = l)"

text \<open>One character at an offset; a gap left by a truncation reads as zeros.\<close>

definition pwrite :: "nat \<Rightarrow> rchar \<Rightarrow> rstr \<Rightarrow> rstr" where
  "pwrite n c s = take n (s @ replicate (n - length s) 0) @ c # drop (Suc n) s"

definition dk_open :: "'k \<Rightarrow> 'k disk \<Rightarrow> nat \<times> 'k disk" where
  "dk_open k d =
     (case dk_names d k of
        Some i \<Rightarrow> (i, d\<lparr>dk_data := (dk_data d)(i := [])\<rparr>)
      | None \<Rightarrow>
          (dk_fresh d, d\<lparr>dk_names := (dk_names d)(k \<mapsto> dk_fresh d), dk_data := (dk_data d)(dk_fresh d := []),
                         dk_fresh := Suc (dk_fresh d)\<rparr>))"

definition dk_rename :: "'k \<Rightarrow> 'k \<Rightarrow> 'k disk \<Rightarrow> 'k disk option" where
  "dk_rename k l d =
     (case dk_names d k of
        None \<Rightarrow> None
      | Some i \<Rightarrow> Some (if k = l then d else d\<lparr>dk_names := (dk_names d)(k := None, l \<mapsto> i)\<rparr>))"

datatype writer = Ready | Writing nat nat | Renaming | Written | Stopped

text \<open>What a process was called with: the two names and the text.\<close>

record 'k write_job =
  wj_tmp :: 'k
  wj_target :: 'k
  wj_text :: rstr

definition job_of :: "path \<Rightarrow> rstr \<Rightarrow> fkey write_job" where
  "job_of p t = \<lparr>wj_tmp = path_key (tmp_path p), wj_target = path_key p, wj_text = t\<rparr>"

inductive writer_step ::
  "(nat \<Rightarrow> 'k write_job) \<Rightarrow> nat \<Rightarrow> (nat \<Rightarrow> writer) \<times> 'k disk \<Rightarrow> (nat \<Rightarrow> writer) \<times> 'k disk \<Rightarrow> bool"
  for job i where
  opened: "ws i = Ready \<Longrightarrow> dk_open (wj_tmp (job i)) d = (ino, d') \<Longrightarrow>
    writer_step job i (ws, d) (ws(i := Writing ino 0), d')"
| wrote: "ws i = Writing ino n \<Longrightarrow> n < length (wj_text (job i)) \<Longrightarrow>
    d' = d\<lparr>dk_data := (dk_data d)(ino := pwrite n (wj_text (job i) ! n) (dk_data d ino))\<rparr> \<Longrightarrow>
    writer_step job i (ws, d) (ws(i := Writing ino (Suc n)), d')"
| closed: "ws i = Writing ino (length (wj_text (job i))) \<Longrightarrow> writer_step job i (ws, d) (ws(i := Renaming), d)"
| renamed: "ws i = Renaming \<Longrightarrow> dk_rename (wj_tmp (job i)) (wj_target (job i)) d = Some d' \<Longrightarrow>
    writer_step job i (ws, d) (ws(i := Written), d')"
| failed: "ws i \<notin> {Written, Stopped} \<Longrightarrow> writer_step job i (ws, d) (ws(i := Stopped), d)"

definition any_writer ::
  "(nat \<Rightarrow> 'k write_job) \<Rightarrow> (nat \<Rightarrow> writer) \<times> 'k disk \<Rightarrow> (nat \<Rightarrow> writer) \<times> 'k disk \<Rightarrow> bool" where
  "any_writer job s s' \<longleftrightarrow> (\<exists>i. writer_step job i s s')"

section \<open>Writers on files of their own\<close>

definition fd_of :: "writer \<Rightarrow> nat option" where
  "fd_of w = (case w of Writing ino _ \<Rightarrow> Some ino | _ \<Rightarrow> None)"

text \<open>
  The invariant for one writer: its open file is the one its temporary name leads to and holds the
  text written so far, its target holds the old text up to the rename and the new text after it,
  and nobody else has one of its files open.
\<close>

definition alone ::
  "(nat \<Rightarrow> 'k write_job) \<Rightarrow> nat \<Rightarrow> 'k disk \<Rightarrow> (nat \<Rightarrow> writer) \<Rightarrow> 'k disk \<Rightarrow> bool" where
  "alone job i d0 ws d \<longleftrightarrow>
     disk_ok d \<and>
     (\<forall>j ino. fd_of (ws j) = Some ino \<longrightarrow> ino < dk_fresh d) \<and>
     (\<forall>j ino. fd_of (ws j) = Some ino \<longrightarrow> j \<noteq> i \<longrightarrow>
        dk_names d (wj_target (job i)) \<noteq> Some ino \<and> dk_names d (wj_tmp (job i)) \<noteq> Some ino) \<and>
     (\<forall>ino n. ws i = Writing ino n \<longrightarrow> n \<le> length (wj_text (job i)) \<and>
        dk_names d (wj_tmp (job i)) = Some ino \<and> dk_data d ino = take n (wj_text (job i))) \<and>
     (ws i = Renaming \<longrightarrow> dk_file d (wj_tmp (job i)) = Some (wj_text (job i))) \<and>
     dk_file d (wj_target (job i)) =
       (if ws i = Written then Some (wj_text (job i)) else dk_file d0 (wj_target (job i)))"

lemma pwrite_append: "n < length s \<Longrightarrow> pwrite n (s ! n) (take n s) = take (Suc n) s"
  by (simp add: pwrite_def take_Suc_conv_app_nth)

lemma disk_okI:
  assumes "\<And>k i. dk_names d k = Some i \<Longrightarrow> i < dk_fresh d"
    and "\<And>k l i. dk_names d k = Some i \<Longrightarrow> dk_names d l = Some i \<Longrightarrow> k = l"
  shows "disk_ok d"
  using assms unfolding disk_ok_def by blast

lemma disk_okD:
  assumes "disk_ok d"
  shows "dk_names d k = Some i \<Longrightarrow> i < dk_fresh d"
    and "dk_names d k = Some i \<Longrightarrow> dk_names d l = Some i \<Longrightarrow> k = l"
  using assms unfolding disk_ok_def by blast+

lemma disk_ok_data [simp]: "disk_ok (d\<lparr>dk_data := x\<rparr>) \<longleftrightarrow> disk_ok d"
  by (simp add: disk_ok_def)

lemma disk_ok_move:
  assumes "disk_ok d" and "dk_names d k = Some i"
  shows "disk_ok (d\<lparr>dk_names := (dk_names d)(k := None, l \<mapsto> i)\<rparr>)"
proof (rule disk_okI)
  fix m n j assume "dk_names (d\<lparr>dk_names := (dk_names d)(k := None, l \<mapsto> i)\<rparr>) m = Some j"
  then have m: "if m = l then j = i else m \<noteq> k \<and> dk_names d m = Some j" by (auto split: if_split_asm)
  then show "j < dk_fresh (d\<lparr>dk_names := (dk_names d)(k := None, l \<mapsto> i)\<rparr>)"
    using disk_okD(1) [OF assms(1)] assms(2) by (auto split: if_split_asm)
  assume "dk_names (d\<lparr>dk_names := (dk_names d)(k := None, l \<mapsto> i)\<rparr>) n = Some j"
  then have "if n = l then j = i else n \<noteq> k \<and> dk_names d n = Some j" by (auto split: if_split_asm)
  with m show "m = n" using disk_okD(2) [OF assms(1)] assms(2) by (metis (full_types))
qed

lemma disk_ok_create:
  assumes "disk_ok d"
  shows "disk_ok (d\<lparr>dk_names := (dk_names d)(k \<mapsto> dk_fresh d), dk_data := x, dk_fresh := Suc (dk_fresh d)\<rparr>)"
proof (rule disk_okI)
  let ?d = "d\<lparr>dk_names := (dk_names d)(k \<mapsto> dk_fresh d), dk_data := x, dk_fresh := Suc (dk_fresh d)\<rparr>"
  fix m n j assume m: "dk_names ?d m = Some j"
  then show "j < dk_fresh ?d" using disk_okD(1) [OF assms] by (fastforce split: if_split_asm)
  assume "dk_names ?d n = Some j"
  with m show "m = n" using disk_okD [OF assms] by (auto split: if_split_asm)
qed

lemma dk_open_cases:
  assumes "disk_ok d" and "dk_open k d = (ino, d')"
  obtains (existing) "dk_names d k = Some ino" "d' = d\<lparr>dk_data := (dk_data d)(ino := [])\<rparr>"
    | (created) "dk_names d k = None" "ino = dk_fresh d"
        "d' = d\<lparr>dk_names := (dk_names d)(k \<mapsto> ino), dk_data := (dk_data d)(ino := []), dk_fresh := Suc ino\<rparr>"
  using assms by (auto simp: dk_open_def split: option.split_asm)

lemma dk_open_ok:
  assumes "disk_ok d" and "dk_open k d = (ino, d')"
  shows "disk_ok d'" and "dk_names d' k = Some ino" and "dk_data d' ino = []"
    and "l \<noteq> k \<Longrightarrow> dk_names d' l = dk_names d l" and "l \<noteq> k \<Longrightarrow> dk_file d' l = dk_file d l"
    and "dk_fresh d \<le> dk_fresh d'" and "dk_names d k = Some ino \<or> ino = dk_fresh d \<and> dk_fresh d' = Suc ino"
proof -
  have same_file: "dk_file (d\<lparr>dk_data := (dk_data d)(ino := [])\<rparr>) l = dk_file d l" if "dk_names d l \<noteq> Some ino" for l
    using that by (cases "dk_names d l") (auto simp: dk_file_def)
  have other: "dk_names d l \<noteq> Some ino" if "l \<noteq> k" for l
    using that assms disk_okD [OF assms(1)]
    by (cases rule: dk_open_cases [OF assms]) auto
  show "disk_ok d'" and "dk_names d' k = Some ino" and "dk_data d' ino = []"
    and "l \<noteq> k \<Longrightarrow> dk_names d' l = dk_names d l" and "l \<noteq> k \<Longrightarrow> dk_file d' l = dk_file d l"
    and "dk_fresh d \<le> dk_fresh d'" and "dk_names d k = Some ino \<or> ino = dk_fresh d \<and> dk_fresh d' = Suc ino"
    using assms(1) same_file [of l] other [of l] disk_ok_create [OF assms(1)]
    by (cases rule: dk_open_cases [OF assms], simp_all add: dk_file_def)+
qed

lemma dk_rename_ok:
  assumes "disk_ok d" and "dk_rename k l d = Some d'" and "k \<noteq> l"
  shows "disk_ok d'" and "dk_file d' l = dk_file d k"
    and "m \<notin> {k, l} \<Longrightarrow> dk_names d' m = dk_names d m" and "dk_data d' = dk_data d" and "dk_fresh d' = dk_fresh d"
    and "dk_names d' m = Some x \<Longrightarrow> dk_names d m = Some x \<or> m = l \<and> dk_names d k = Some x"
proof -
  obtain i where i: "dk_names d k = Some i" "d' = d\<lparr>dk_names := (dk_names d)(k := None, l \<mapsto> i)\<rparr>"
    using assms(2,3) by (auto simp: dk_rename_def split: option.split_asm)
  then show "disk_ok d'" using disk_ok_move [OF assms(1)] by simp
  show "dk_file d' l = dk_file d k" and "m \<notin> {k, l} \<Longrightarrow> dk_names d' m = dk_names d m"
    and "dk_data d' = dk_data d" and "dk_fresh d' = dk_fresh d"
    and "dk_names d' m = Some x \<Longrightarrow> dk_names d m = Some x \<or> m = l \<and> dk_names d k = Some x"
    using i by (auto simp: dk_file_def split: if_split_asm)
qed

lemma fd_of_simps [simp]:
  "fd_of (Writing ino n) = Some ino" "fd_of Ready = None" "fd_of Renaming = None"
  "fd_of Written = None" "fd_of Stopped = None"
  by (simp_all add: fd_of_def)

locale separate_writer =
  fixes job :: "nat \<Rightarrow> 'k write_job" and i :: nat
  assumes own: "wj_tmp (job i) \<noteq> wj_target (job i)"
    and apart: "j \<noteq> i \<Longrightarrow> {wj_tmp (job j), wj_target (job j)} \<inter> {wj_tmp (job i), wj_target (job i)} = {}"
begin

text \<open>Another process: it has none of the two files open and touches neither name.\<close>

lemma other_step_frame:
  assumes "writer_step job j (ws, d) (ws', d')" and "j \<noteq> i" and "alone job i d0 ws d"
    and "k \<in> {wj_tmp (job i), wj_target (job i)}"
  shows "dk_names d' k = dk_names d k" and "dk_file d' k = dk_file d k" and "ws' i = ws i"
    and "disk_ok d'" and "dk_fresh d \<le> dk_fresh d'"
    and "fd_of (ws' l) = Some ino \<Longrightarrow>
      fd_of (ws l) = Some ino \<or> l = j \<and> dk_names d' k \<noteq> Some ino \<and> ino < dk_fresh d'"
proof -
  have ok: "disk_ok d" using assms(3) by (simp add: alone_def)
  have far: "k \<noteq> wj_tmp (job j)" "k \<noteq> wj_target (job j)" using apart [OF assms(2)] assms(4) by auto
  have fd: "dk_names d k \<noteq> Some ino \<and> ino < dk_fresh d" if "ws j = Writing ino n" for ino n
    using assms(2-4) that by (auto simp: alone_def) (metis fd_of_simps(1))+
  have "dk_names d' k = dk_names d k \<and> dk_file d' k = dk_file d k \<and> ws' i = ws i \<and> disk_ok d' \<and>
      dk_fresh d \<le> dk_fresh d' \<and> (fd_of (ws' l) = Some ino \<longrightarrow>
      fd_of (ws l) = Some ino \<or> l = j \<and> dk_names d' k \<noteq> Some ino \<and> ino < dk_fresh d')"
    using assms(1)
  proof cases
    case (opened x)
    note O = dk_open_ok [OF ok opened(3)]
    have "dk_names d' k \<noteq> Some x" and "x < dk_fresh d'" using O(1,2) disk_okD far by metis+
    with opened O far assms(2) show ?thesis by auto
  next
    case (wrote x n)
    then have "dk_file d' k = dk_file d k" using fd [OF wrote(2)] by (cases "dk_names d k") (auto simp: dk_file_def)
    with wrote ok assms(2) fd [OF wrote(2)] show ?thesis by auto
  next
    case renamed
    then consider "wj_tmp (job j) = wj_target (job j)" "d' = d" | "wj_tmp (job j) \<noteq> wj_target (job j)"
      by (auto simp: dk_rename_def split: option.split_asm if_split_asm)
    then show ?thesis
      using renamed ok assms(2) far dk_rename_ok [OF ok renamed(3)] by cases (auto simp: dk_file_def)
  qed (use ok assms(2) in auto)
  then show "dk_names d' k = dk_names d k" and "dk_file d' k = dk_file d k" and "ws' i = ws i"
    and "disk_ok d'" and "dk_fresh d \<le> dk_fresh d'"
    and "fd_of (ws' l) = Some ino \<Longrightarrow>
      fd_of (ws l) = Some ino \<or> l = j \<and> dk_names d' k \<noteq> Some ino \<and> ino < dk_fresh d'"
    by blast+
qed

lemma other_step:
  assumes step: "writer_step job j (ws, d) (ws', d')" and "j \<noteq> i" and inv: "alone job i d0 ws d"
  shows "alone job i d0 ws' d'"
proof -
  note T = other_step_frame [OF assms, of "wj_target (job i)", simplified]
  note S = other_step_frame [OF assms, of "wj_tmp (job i)", simplified]
  have "dk_data d' ino = dk_data d ino" if "dk_names d (wj_tmp (job i)) = Some ino" for ino
    using that S(1,2) by (simp add: dk_file_def)
  moreover have "fd_of (ws' l) = Some ino \<Longrightarrow> ino < dk_fresh d'" for l ino
    using T(6) [of l ino] T(5) inv by (force simp: alone_def)
  moreover have "fd_of (ws' l) = Some ino \<Longrightarrow> l \<noteq> i \<Longrightarrow>
      dk_names d' (wj_target (job i)) \<noteq> Some ino \<and> dk_names d' (wj_tmp (job i)) \<noteq> Some ino" for l ino
    using T(1) S(1) T(6) [of l ino] S(6) [of l ino] inv by (auto simp: alone_def)
  ultimately show ?thesis using inv T(1-5) S(1-3) by (simp add: alone_def)
qed

lemma own_step:
  assumes step: "writer_step job i (ws, d) (ws', d')" and inv: "alone job i d0 ws d"
  shows "alone job i d0 ws' d'"
proof -
  have ok: "disk_ok d" using inv by (simp add: alone_def)
  have fds: "fd_of (ws j) = Some x \<Longrightarrow> x < dk_fresh d" for j x using inv by (simp add: alone_def)
  from step show ?thesis
  proof cases
    case (opened ino)
    note O = dk_open_ok [OF ok opened(3)]
    have "x \<noteq> ino" if "fd_of (ws j) = Some x" "j \<noteq> i" for j x
      using O(7) fds [OF that(1)] that inv by (auto simp: alone_def)
    moreover have "x < dk_fresh d'" if "fd_of (ws j) = Some x" for j x
      using fds [OF that] O(6) by simp
    moreover have "ino < dk_fresh d'" using disk_okD(1) [OF O(1,2)] .
    ultimately show ?thesis
      using inv opened O own by (auto simp: alone_def)
  next
    case (wrote ino n)
    have "dk_names d (wj_tmp (job i)) = Some ino" "dk_data d ino = take n (wj_text (job i))"
      using inv wrote by (auto simp: alone_def)
    moreover have "dk_names d (wj_target (job i)) \<noteq> Some ino"
      using disk_okD(2) [OF ok] own calculation(1) by metis
    then have "dk_file d' (wj_target (job i)) = dk_file d (wj_target (job i))"
      using wrote by (cases "dk_names d (wj_target (job i))") (auto simp: dk_file_def)
    ultimately show ?thesis
      using inv wrote ok fds [of i ino] by (auto simp: alone_def pwrite_append)
  next
    case renamed
    note R = dk_rename_ok [OF ok renamed(3) own]
    show ?thesis
      using inv renamed R(1,2,5) R(6) [of "wj_target (job i)"] R(6) [of "wj_tmp (job i)"] by (auto simp: alone_def)
  qed (use inv in \<open>auto simp: alone_def dk_file_def\<close>)
qed

lemma run_alone:
  assumes "(any_writer job)\<^sup>*\<^sup>* (\<lambda>_. Ready, d0) (ws, d)" and "disk_ok d0"
  shows "alone job i d0 ws d"
  using assms(1)
proof (induction "(ws, d)" arbitrary: ws d rule: rtranclp_induct)
  case base
  with assms(2) show ?case by (simp add: alone_def)
next
  case (step y)
  obtain ws1 d1 where y: "y = (ws1, d1)" by (cases y)
  with step obtain j where "writer_step job j (ws1, d1) (ws, d)" by (auto simp: any_writer_def)
  with step(3) [OF y] other_step own_step show ?case by (cases "j = i") blast+
qed

end

text \<open>The two files of the system: the system file and a machine file on a mounted EFI partition.\<close>

definition config_paths :: "nat \<Rightarrow> path" where
  "config_paths n = (if n = 0 then SYSTEM_FILE else machine_file (lit ''/mnt/efi''))"

lemma config_path_keys:
  "path_key SYSTEM_FILE = (True, [lit ''etc'', lit ''zebrafish.toml''])"
  "path_key (tmp_path SYSTEM_FILE) = (True, [lit ''etc'', lit ''zebrafish.toml.tmp''])"
  "path_key (machine_file (lit ''/mnt/efi'')) = (True, [lit ''mnt'', lit ''efi'', lit ''zebrafish.toml''])"
  "path_key (tmp_path (machine_file (lit ''/mnt/efi''))) = (True, [lit ''mnt'', lit ''efi'', lit ''zebrafish.toml.tmp''])"
  by code_simp+

interpretation system_writer: separate_writer "\<lambda>n. job_of (config_paths n) (texts n)" 0
  by unfold_locales (auto simp: job_of_def config_paths_def config_path_keys)

section \<open>Writers on the same file\<close>

lemma writes_chars:
  assumes "ws i = Writing ino 0" and "dk_data d ino = []" and "n \<le> length (wj_text (job i))"
  shows "(any_writer job)\<^sup>*\<^sup>* (ws, d)
    (ws(i := Writing ino n), d\<lparr>dk_data := (dk_data d)(ino := take n (wj_text (job i)))\<rparr>)"
  using assms(3)
proof (induction n)
  case 0
  have "ws(i := Writing ino 0) = ws" using assms(1) by (simp add: fun_upd_idem)
  moreover have "d\<lparr>dk_data := (dk_data d)(ino := [])\<rparr> = d" using assms(2) by (simp add: fun_upd_idem)
  ultimately show ?case by (simp only: take_0 rtranclp.rtrancl_refl)
next
  case (Suc n)
  let ?d = "d\<lparr>dk_data := (dk_data d)(ino := take n (wj_text (job i)))\<rparr>"
  have "writer_step job i (ws(i := Writing ino n), ?d)
      ((ws(i := Writing ino n))(i := Writing ino (Suc n)),
       ?d\<lparr>dk_data := (dk_data ?d)(ino := pwrite n (wj_text (job i) ! n) (dk_data ?d ino))\<rparr>)"
    using Suc.prems by (intro writer_step.wrote [OF _ _ refl]) simp_all
  then have "any_writer job (ws(i := Writing ino n), ?d)
      (ws(i := Writing ino (Suc n)), d\<lparr>dk_data := (dk_data d)(ino := take (Suc n) (wj_text (job i)))\<rparr>)"
    using Suc.prems unfolding any_writer_def by (intro exI [of _ i]) (simp add: pwrite_append)
  with Suc.IH [OF Suc_leD [OF Suc.prems]] show ?case by (rule rtranclp.rtrancl_into_rtrancl)
qed

text \<open>
  Two processes that write the same file share the temporary file. When the second opens it between
  the first one's last write and its rename, the first reports success and the target holds
  whatever the second has written so far: the empty text at once, then each of its prefixes.
\<close>

lemma shared_tmp_tears:
  assumes "disk_ok d0" and "wj_tmp (job 0) \<noteq> wj_target (job 0)" and "wj_tmp (job 1) = wj_tmp (job 0)"
    and "n \<le> length (wj_text (job 1))"
  shows "\<exists>ws d. (any_writer job)\<^sup>*\<^sup>* (\<lambda>_. Ready, d0) (ws, d) \<and> ws 0 = Written \<and>
           dk_file d (wj_target (job 0)) = Some (take n (wj_text (job 1)))"
proof -
  let ?S = "wj_tmp (job 0)" and ?T = "wj_target (job 0)"
  define w1 where "w1 = (\<lambda>_ :: nat. Ready)(0 := Renaming)"
  obtain ino d1 where o1: "dk_open ?S d0 = (ino, d1)" by fastforce
  note O1 = dk_open_ok [OF assms(1) o1]
  define d2 where "d2 = d1\<lparr>dk_data := (dk_data d1)(ino := wj_text (job 0))\<rparr>"
  have "any_writer job (\<lambda>_. Ready, d0) ((\<lambda>_. Ready)(0 := Writing ino 0), d1)"
    unfolding any_writer_def using o1 by (intro exI [of _ 0]) (auto intro: writer_step.opened)
  moreover have "(any_writer job)\<^sup>*\<^sup>* ((\<lambda>_. Ready)(0 := Writing ino 0), d1)
      ((\<lambda>_. Ready)(0 := Writing ino (length (wj_text (job 0)))), d2)"
    using writes_chars [of "(\<lambda>_. Ready)(0 := Writing ino 0)" 0 ino d1 "length (wj_text (job 0))" job] O1(3)
    by (simp add: d2_def)
  moreover have "any_writer job ((\<lambda>_. Ready)(0 := Writing ino (length (wj_text (job 0)))), d2) (w1, d2)"
    unfolding any_writer_def w1_def
    using writer_step.closed [of "(\<lambda>_. Ready)(0 := Writing ino (length (wj_text (job 0))))" 0 ino job d2]
    by (intro exI [of _ 0]) simp
  ultimately have run1: "(any_writer job)\<^sup>*\<^sup>* (\<lambda>_. Ready, d0) (w1, d2)" by (meson converse_rtranclp_into_rtranclp rtranclp.rtrancl_into_rtrancl)
  define d3 where "d3 = d2\<lparr>dk_data := (dk_data d2)(ino := [])\<rparr>"
  have "dk_open ?S d2 = (ino, d3)" using O1(2) by (simp add: dk_open_def d2_def d3_def)
  then have "any_writer job (w1, d2) (w1(1 := Writing ino 0), d3)"
    unfolding any_writer_def using assms(3) by (intro exI [of _ 1] writer_step.opened) (simp_all add: w1_def)
  moreover define d4 where "d4 = d3\<lparr>dk_names := (dk_names d3)(?S := None, ?T \<mapsto> ino)\<rparr>"
  have "any_writer job (w1(1 := Writing ino 0), d3) ((w1(1 := Writing ino 0))(0 := Written), d4)"
    unfolding any_writer_def using O1(2) assms(2)
    by (intro exI [of _ 0] writer_step.renamed) (simp_all add: w1_def d4_def d3_def d2_def dk_rename_def)
  moreover have "(any_writer job)\<^sup>*\<^sup>* ((w1(1 := Writing ino 0))(0 := Written), d4)
      ((w1(1 := Writing ino 0))(0 := Written, 1 := Writing ino n), d4\<lparr>dk_data := (dk_data d4)(ino := take n (wj_text (job 1)))\<rparr>)"
    using assms(4) by (intro writes_chars) (simp_all add: w1_def d4_def d3_def)
  ultimately have "(any_writer job)\<^sup>*\<^sup>* (\<lambda>_. Ready, d0)
      ((w1(1 := Writing ino 0))(0 := Written, 1 := Writing ino n), d4\<lparr>dk_data := (dk_data d4)(ino := take n (wj_text (job 1)))\<rparr>)"
    using run1 by (meson rtranclp.rtrancl_into_rtrancl rtranclp_trans)
  then show ?thesis
    by (intro exI conjI) (assumption, simp_all add: dk_file_def d4_def d3_def)
qed

section \<open>Properties\<close>

text \<open>
  C13. Concurrent writers: as long as no other process writes the same file or one that shares its
  temporary file, every interleaving with any number of other writers, each of them failing or
  stopping anywhere, keeps the target at exactly its old text until this process has reported
  success, and at exactly the new text from then on.
\<close>

theorem writers_isolated:
  assumes "file_name p = Some f" and "calls i = (p, t)"
    and "\<forall>j. j \<noteq> i \<longrightarrow> {path_key (fst (calls j)), path_key (tmp_path (fst (calls j)))} \<inter>
                       {path_key p, path_key (tmp_path p)} = {}"
    and "disk_ok d0"
    and "(any_writer (\<lambda>n. job_of (fst (calls n)) (snd (calls n))))\<^sup>*\<^sup>* (\<lambda>_. Ready, d0) (ws, d)"
  shows "dk_file d (path_key p) = (if ws i = Written then Some t else dk_file d0 (path_key p))"
proof -
  have "separate_writer (\<lambda>n. job_of (fst (calls n)) (snd (calls n))) i"
    using assms(2,3) tmp_path_differs [OF assms(1)] by unfold_locales (auto simp: job_of_def)
  from separate_writer.run_alone [OF this assms(5,4)] assms(2) show ?thesis
    by (simp add: alone_def job_of_def)
qed

theorem writers_isolated_witness:
  "\<exists>ws d. (any_writer (\<lambda>n. job_of (config_paths n) (lit ''x'')))\<^sup>*\<^sup>*
      (\<lambda>_. Ready, \<lparr>dk_names = Map.empty, dk_data = (\<lambda>_. []), dk_fresh = 0\<rparr>) (ws, d) \<and>
     ws 1 = Writing 0 0 \<and> dk_file d (path_key SYSTEM_FILE) = None"
proof -
  let ?d0 = "\<lparr>dk_names = Map.empty, dk_data = (\<lambda>_. []), dk_fresh = 0\<rparr> :: fkey disk"
  let ?job = "\<lambda>n. job_of (config_paths n) (lit ''x'')"
  obtain d where d: "dk_open (wj_tmp (?job 1)) ?d0 = (0, d)" by (simp add: dk_open_def)
  have "any_writer ?job (\<lambda>_. Ready, ?d0) ((\<lambda>_. Ready)(1 := Writing 0 0), d)"
    unfolding any_writer_def using d by (intro exI [of _ 1] writer_step.opened) simp_all
  then have run: "(any_writer ?job)\<^sup>*\<^sup>* (\<lambda>_. Ready, ?d0) ((\<lambda>_. Ready)(1 := Writing 0 0), d)" by (rule r_into_rtranclp)
  have name: "file_name SYSTEM_FILE = Some (lit ''zebrafish.toml'')" by code_simp
  have "disk_ok ?d0" by (simp add: disk_ok_def)
  from writers_isolated [OF name, where calls = "\<lambda>n. (config_paths n, lit ''x'')" and i = 0, OF _ _ this, simplified, OF _ _ run]
  have "dk_file d (path_key SYSTEM_FILE) = None"
    by (simp add: config_paths_def config_path_keys dk_file_def)
  with run show ?thesis by (intro exI conjI) (assumption, simp_all)
qed

end
