(* ===== verification/Rust_Utf8.thy ===== *)
theory Rust_Utf8
  imports Rust_Str
begin

text \<open>
  The bytes of a Rust string: \<^verbatim>\<open>str::as_bytes\<close> is the UTF-8 encoding, \<^verbatim>\<open>CStr::to_str\<close> accepts exactly the byte
  sequences that encode Unicode scalar values in the shortest form. Big-endian bytes of the 16-bit
  integers (\<^verbatim>\<open>to_be_bytes\<close>, \<^verbatim>\<open>from_be_bytes\<close>) are here too.
\<close>

section \<open>Definitions\<close>

definition scalar_value :: "rchar \<Rightarrow> bool" where
  "scalar_value c \<longleftrightarrow> c < 1114112 \<and> \<not> (55296 \<le> c \<and> c \<le> 57343)"

definition byte :: "nat \<Rightarrow> u8" where
  "byte n = word_of_nat n"

definition utf8_char :: "rchar \<Rightarrow> bytes" where
  "utf8_char c =
     (if c < 128 then [byte c]
      else if c < 2048 then [byte (192 + c div 64), byte (128 + c mod 64)]
      else if c < 65536 then
        [byte (224 + c div 4096), byte (128 + c div 64 mod 64), byte (128 + c mod 64)]
      else [byte (240 + c div 262144), byte (128 + c div 4096 mod 64), byte (128 + c div 64 mod 64),
            byte (128 + c mod 64)])"

definition as_bytes :: "rstr \<Rightarrow> bytes" where
  "as_bytes s = concat (map utf8_char s)"

definition cont :: "u8 \<Rightarrow> bool" where
  "cont b \<longleftrightarrow> 128 \<le> unat b \<and> unat b < 192"

fun from_utf8 :: "bytes \<Rightarrow> rstr option" where
  "from_utf8 [] = Some []"
| "from_utf8 (b # bs) =
     (if unat b < 128 then map_option ((#) (unat b)) (from_utf8 bs)
      else if unat b < 192 then None
      else if unat b < 224 then
        (case bs of
           b1 # r \<Rightarrow>
             let c = (unat b - 192) * 64 + (unat b1 - 128)
             in if cont b1 \<and> 128 \<le> c then map_option ((#) c) (from_utf8 r) else None
         | _ \<Rightarrow> None)
      else if unat b < 240 then
        (case bs of
           b1 # b2 # r \<Rightarrow>
             let c = (unat b - 224) * 4096 + (unat b1 - 128) * 64 + (unat b2 - 128)
             in if cont b1 \<and> cont b2 \<and> 2048 \<le> c \<and> scalar_value c
                then map_option ((#) c) (from_utf8 r) else None
         | _ \<Rightarrow> None)
      else
        (case bs of
           b1 # b2 # b3 # r \<Rightarrow>
             let c = (unat b - 240) * 262144 + (unat b1 - 128) * 4096 + (unat b2 - 128) * 64 + (unat b3 - 128)
             in if cont b1 \<and> cont b2 \<and> cont b3 \<and> 65536 \<le> c \<and> scalar_value c
                then map_option ((#) c) (from_utf8 r) else None
         | _ \<Rightarrow> None))"

definition to_be_bytes :: "u16 \<Rightarrow> bytes" where
  "to_be_bytes w = [ucast (drop_bit 8 w), ucast w]"

definition from_be_bytes :: "u8 \<Rightarrow> u8 \<Rightarrow> u16" where
  "from_be_bytes hi lo = push_bit 8 (ucast hi) + ucast lo"

section \<open>Lemmas\<close>

lemma unat_byte [simp]: "n < 256 \<Longrightarrow> unat (byte n) = n"
  by (simp add: byte_def unsigned_of_nat take_bit_nat_eq_self)

text \<open>The digits of a number in base 64.\<close>

lemma base64_digits:
  fixes c :: nat
  shows "c div 64 * 64 + c mod 64 = c"
    and "c div 4096 * 4096 + c div 64 mod 64 * 64 + c mod 64 = c"
    and "c div 262144 * 262144 + c div 4096 mod 64 * 4096 + c div 64 mod 64 * 64 + c mod 64 = c"
proof -
  show one: "c div 64 * 64 + c mod 64 = c" by simp
  have "c div 4096 = c div 64 div 64" by (simp add: div_mult2_eq [symmetric])
  then have "c div 4096 * 64 + c div 64 mod 64 = c div 64" by simp
  with one show two: "c div 4096 * 4096 + c div 64 mod 64 * 64 + c mod 64 = c" by linarith
  have "c div 262144 = c div 4096 div 64" by (simp add: div_mult2_eq [symmetric])
  then have "c div 262144 * 64 + c div 4096 mod 64 = c div 4096" by simp
  with two show "c div 262144 * 262144 + c div 4096 mod 64 * 4096 + c div 64 mod 64 * 64 + c mod 64 = c"
    by linarith
qed

lemma from_utf8_char:
  assumes "scalar_value c"
  shows "from_utf8 (utf8_char c @ bs) = map_option ((#) c) (from_utf8 bs)"
proof -
  have c: "c < 1114112" using assms by (simp add: scalar_value_def)
  consider "c < 128" | "128 \<le> c" "c < 2048" | "2048 \<le> c" "c < 65536" | "65536 \<le> c" by linarith
  then show ?thesis
  proof cases
    case 1
    then show ?thesis by (simp add: utf8_char_def)
  next
    case 2
    then have "c div 64 < 32" by (simp add: less_mult_imp_div_less)
    with 2 base64_digits(1) [of c] show ?thesis
      by (simp add: utf8_char_def cont_def)
  next
    case 3
    then have "c div 4096 < 16" by (simp add: less_mult_imp_div_less)
    with 3 assms base64_digits(2) [of c] show ?thesis
      by (simp add: utf8_char_def cont_def)
  next
    case 4
    have "c div 262144 < 8" using c by (simp add: less_mult_imp_div_less)
    with 4 assms base64_digits(3) [of c] show ?thesis
      by (simp add: utf8_char_def cont_def)
  qed
qed

text \<open>Decoding undoes encoding.\<close>

lemma from_utf8_as_bytes: "list_all scalar_value s \<Longrightarrow> from_utf8 (as_bytes s) = Some s"
  by (induction s) (simp_all add: as_bytes_def from_utf8_char)

lemma as_bytes_inject:
  "list_all scalar_value s \<Longrightarrow> list_all scalar_value t \<Longrightarrow> as_bytes s = as_bytes t \<longleftrightarrow> s = t"
  using from_utf8_as_bytes by (metis option.inject)

lemma length_to_be_bytes [simp]: "length (to_be_bytes w) = 2"
  by (simp add: to_be_bytes_def)

lemma from_to_be_bytes: "from_be_bytes (ucast (drop_bit 8 w)) (ucast w) = w"
proof -
  have "push_bit 8 (ucast (ucast (drop_bit 8 w) :: u8)) + ucast (ucast w :: u8) =
        or (push_bit 8 (ucast (ucast (drop_bit 8 w) :: u8))) (ucast (ucast w :: u8) :: u16)"
    by (rule disjunctive_add) (auto simp: bit_push_bit_iff bit_ucast_iff)
  also have "\<dots> = w"
    by (rule bit_word_eqI) (auto simp: bit_or_iff bit_push_bit_iff bit_ucast_iff bit_drop_bit_eq)
  finally show ?thesis by (simp add: from_be_bytes_def)
qed

lemma to_be_bytes_inject [simp]: "to_be_bytes v = to_be_bytes w \<longleftrightarrow> v = w"
  by (metis from_to_be_bytes list.inject to_be_bytes_def)

end
