(* ===== verification/Dns_Msg.thy ===== *)
theory Dns_Msg
  imports Rust_Utf8
begin

text \<open>
  DNS messages as the program sees them through the \<^verbatim>\<open>hickory-proto\<close> crate: the fields its accessors and
  setters reach, and what it keeps besides (\<open>m_rest\<close>). The crate is not part of the repository;
  its codec is a record of functions that the definitions take as an argument. A record type or
  class is its number, a name the list of its labels.
\<close>

type_synonym dname = "bytes list"

text \<open>The answer data the source looks into: addresses, as the numbers they encode;
  everything else is opaque.\<close>

datatype rdata = RA u32 | RAAAA "128 word" | ROther bytes

record query =
  q_name :: dname
  q_type :: u16
  q_class :: u16

record rr =
  r_name :: dname
  r_type :: u16
  r_ttl :: u32
  r_data :: rdata

record message =
  m_id :: u16
  m_response :: bool
  m_opcode :: nat
  m_rcode :: nat
  m_rd :: bool
  m_ra :: bool
  m_queries :: "query list"
  m_answers :: "rr list"
  m_name_servers :: "rr list"
  m_additionals :: "rr list"
  m_rest :: bytes

record dns_codec =
  from_vec :: "bytes \<Rightarrow> (rstr, message) result"
  to_vec :: "message \<Rightarrow> bytes option"
  name_lower :: "dname \<Rightarrow> dname"
  name_text :: "dname \<Rightarrow> rstr"
  type_text :: "u16 \<Rightarrow> rstr"
  class_text :: "u16 \<Rightarrow> rstr"
  rcode_text :: "nat \<Rightarrow> rstr"
  name_from_utf8 :: "rstr \<Rightarrow> dname option"

definition TYPE_A :: u16 where "TYPE_A = 1"
definition TYPE_AAAA :: u16 where "TYPE_AAAA = 28"
definition TYPE_OPT :: u16 where "TYPE_OPT = 41"
definition OPCODE_QUERY :: nat where "OPCODE_QUERY = 0"
definition RCODE_SERVFAIL :: nat where "RCODE_SERVFAIL = 2"

text \<open>\<^verbatim>\<open>Message::new\<close>.\<close>

definition new_message :: message where
  "new_message = \<lparr>m_id = 0, m_response = False, m_opcode = OPCODE_QUERY, m_rcode = 0, m_rd = False,
     m_ra = False, m_queries = [], m_answers = [], m_name_servers = [], m_additionals = [], m_rest = []\<rparr>"

definition first_query :: "message \<Rightarrow> query option" where
  "first_query m = nth_opt (m_queries m) 0"

text \<open>A codec that knows no message, for the closed examples.\<close>

definition codec0 :: dns_codec where
  "codec0 = \<lparr>from_vec = (\<lambda>_. Err []), to_vec = (\<lambda>_. None), name_lower = (\<lambda>n. n),
     name_text = (\<lambda>n. map unat (concat n)), type_text = (\<lambda>_. []), class_text = (\<lambda>_. []),
     rcode_text = (\<lambda>_. []), name_from_utf8 = (\<lambda>_. Some [])\<rparr>"

lemma codec0_simps [simp]:
  "from_vec codec0 b = Err []" "to_vec codec0 m = None" "name_lower codec0 n = n"
  "name_text codec0 n = map unat (concat n)"
  by (simp_all add: codec0_def)

end
