(* ===== verification/Lru.thy ===== *)
theory Lru
  imports Prelude "HOL-Library.AList"
begin

text \<open>
  The interface of the \<^verbatim>\<open>lru\<close> crate that the DNS cache uses. The crate is not part of the repository: its
  four operations are a record of functions, and what its documentation promises of them is the
  locale \<open>lru_cache\<close>, over a view of the cache as a finite map. A \<^verbatim>\<open>put\<close> may evict entries of other keys, but
  only when the key does not fit beside those the cache holds. The locale is interpreted on a list in order of use.
\<close>

section \<open>Interface\<close>

record ('k, 'v, 'l) lru_api =
  lru_new :: "nat \<Rightarrow> 'l"
  lru_get :: "'l \<Rightarrow> 'k \<Rightarrow> 'v option \<times> 'l"
  lru_put :: "'l \<Rightarrow> 'k \<Rightarrow> 'v \<Rightarrow> 'l"
  lru_pop :: "'l \<Rightarrow> 'k \<Rightarrow> 'l"

locale lru_cache =
  fixes api :: "('k, 'v, 'l) lru_api" and view :: "'l \<Rightarrow> 'k \<Rightarrow> 'v option" and cap :: "'l \<Rightarrow> nat"
    and inv :: "'l \<Rightarrow> bool"
  assumes inv_new: "0 < n \<Longrightarrow> inv (lru_new api n)"
    and inv_get: "inv l \<Longrightarrow> inv (snd (lru_get api l k))"
    and inv_put: "inv l \<Longrightarrow> inv (lru_put api l k v)"
    and inv_pop: "inv l \<Longrightarrow> inv (lru_pop api l k)"
    and cap_new: "cap (lru_new api n) = n"
    and cap_get: "cap (snd (lru_get api l k)) = cap l"
    and cap_put: "cap (lru_put api l k v) = cap l"
    and cap_pop: "cap (lru_pop api l k) = cap l"
    and view_new: "view (lru_new api n) = Map.empty"
    and get_value: "inv l \<Longrightarrow> fst (lru_get api l k) = view l k"
    and view_get: "inv l \<Longrightarrow> view (snd (lru_get api l k)) = view l"
    and view_pop: "inv l \<Longrightarrow> view (lru_pop api l k) = (view l)(k := None)"
    and view_put_same: "inv l \<Longrightarrow> view (lru_put api l k v) k = Some v"
    and view_put_other: "inv l \<Longrightarrow> j \<noteq> k \<Longrightarrow> view (lru_put api l k v) j \<in> {None, view l j}"
    and view_put_room: "inv l \<Longrightarrow> card (insert k (dom (view l))) \<le> cap l \<Longrightarrow>
          view (lru_put api l k v) = (view l)(k \<mapsto> v)"
    and within_cap: "inv l \<Longrightarrow> finite (dom (view l)) \<and> card (dom (view l)) \<le> cap l"

section \<open>A list in order of use\<close>

text \<open>The capacity and the entries, the most recently used first.\<close>

type_synonym ('k, 'v) use_list = "nat \<times> ('k \<times> 'v) list"

definition ul_get :: "('k, 'v) use_list \<Rightarrow> 'k \<Rightarrow> 'v option \<times> ('k, 'v) use_list" where
  "ul_get l k =
     (case map_of (snd l) k of
        None \<Rightarrow> (None, l)
      | Some v \<Rightarrow> (Some v, (fst l, (k, v) # AList.delete k (snd l))))"

definition ul_put :: "('k, 'v) use_list \<Rightarrow> 'k \<Rightarrow> 'v \<Rightarrow> ('k, 'v) use_list" where
  "ul_put l k v = (fst l, take (fst l) ((k, v) # AList.delete k (snd l)))"

definition ul_pop :: "('k, 'v) use_list \<Rightarrow> 'k \<Rightarrow> ('k, 'v) use_list" where
  "ul_pop l k = (fst l, AList.delete k (snd l))"

definition ul_api :: "('k, 'v, ('k, 'v) use_list) lru_api" where
  "ul_api = \<lparr>lru_new = (\<lambda>n. (n, [])), lru_get = ul_get, lru_put = ul_put, lru_pop = ul_pop\<rparr>"

definition ul_view :: "('k, 'v) use_list \<Rightarrow> 'k \<Rightarrow> 'v option" where
  "ul_view l = map_of (snd l)"

definition ul_inv :: "('k, 'v) use_list \<Rightarrow> bool" where
  "ul_inv l \<longleftrightarrow> 0 < fst l \<and> distinct (map fst (snd l)) \<and> length (snd l) \<le> fst l"

lemma ul_api_simps [simp]:
  "lru_new ul_api = (\<lambda>n. (n, []))" "lru_get ul_api = ul_get" "lru_put ul_api = ul_put"
  "lru_pop ul_api = ul_pop"
  by (simp_all add: ul_api_def)

lemma card_dom_map_of: "distinct (map fst es) \<Longrightarrow> card (dom (map_of es)) = length es"
  by (simp add: dom_map_of_conv_image_fst distinct_card [of "map fst es", simplified])

lemma length_delete: "length (AList.delete k es) \<le> length es"
  by (simp add: AList.delete_eq)

lemma length_delete_less: "map_of es k = Some v \<Longrightarrow> length (AList.delete k es) < length es"
  by (induction es) (auto simp: less_Suc_eq_le length_delete split: if_split_asm)

lemma distinct_fst_delete: "distinct (map fst es) \<Longrightarrow> distinct (map fst (AList.delete k es))"
  by (rule distinct_delete)

lemma map_of_take: "distinct (map fst es) \<Longrightarrow> map_of (take n es) j \<in> {None, map_of es j}"
proof (induction es arbitrary: n)
  case (Cons e es)
  then show ?case by (cases n) auto
qed simp

interpretation ul: lru_cache ul_api ul_view fst ul_inv
proof
  fix l :: "('k, 'v) use_list" and k v
  assume inv: "ul_inv l"
  have "distinct (map fst (AList.delete k (snd l)))"
    using inv by (simp add: ul_inv_def distinct_fst_delete)
  moreover have "k \<notin> set (map fst (AList.delete k (snd l)))" by (auto simp: AList.delete_eq)
  ultimately have del: "distinct (map fst (AList.delete k (snd l)))"
    "k \<notin> set (map fst (AList.delete k (snd l)))" by simp_all
  have put: "distinct (map fst ((k, v) # AList.delete k (snd l)))" using del by simp
  show "ul_inv (snd (lru_get ul_api l k))"
  proof (cases "map_of (snd l) k")
    case None
    with inv show ?thesis by (simp add: ul_get_def)
  next
    case (Some w)
    with length_delete_less [OF Some] inv del show ?thesis by (simp add: ul_get_def ul_inv_def)
  qed
  show "ul_inv (lru_put ul_api l k v)"
    using inv del by (simp add: ul_put_def ul_inv_def take_map [symmetric] distinct_take del: take_Cons')
  show "ul_inv (lru_pop ul_api l k)"
    using inv del length_delete [of k "snd l"] by (simp add: ul_pop_def ul_inv_def)
  show "ul_view (snd (lru_get ul_api l k)) = ul_view l"
    by (auto simp: ul_get_def ul_view_def delete_conv' fun_eq_iff split: option.split)
  show "ul_view (lru_pop ul_api l k) = (ul_view l)(k := None)"
    by (simp add: ul_pop_def ul_view_def delete_conv')
  show "ul_view (lru_put ul_api l k v) k = Some v"
    using inv by (cases "fst l") (simp_all add: ul_put_def ul_view_def ul_inv_def)
  show "j \<noteq> k \<Longrightarrow> ul_view (lru_put ul_api l k v) j \<in> {None, ul_view l j}" for j
    using map_of_take [OF put, of "fst l" j] by (auto simp: ul_put_def ul_view_def delete_conv')
  have "card (insert k (dom (map_of (snd l)))) = Suc (length (AList.delete k (snd l)))"
  proof -
    have "insert k (dom (map_of (snd l))) = dom (map_of ((k, v) # AList.delete k (snd l)))"
      by (auto simp: delete_conv')
    also have "card \<dots> = Suc (length (AList.delete k (snd l)))" using card_dom_map_of [OF put] by simp
    finally show ?thesis .
  qed
  then show "card (insert k (dom (ul_view l))) \<le> fst l \<Longrightarrow> ul_view (lru_put ul_api l k v) = (ul_view l)(k \<mapsto> v)"
    by (simp add: ul_put_def ul_view_def delete_conv')
  show "finite (dom (ul_view l)) \<and> card (dom (ul_view l)) \<le> fst l"
    using inv card_dom_map_of [of "snd l"] by (simp add: ul_view_def ul_inv_def finite_dom_map_of)
qed (auto simp: ul_inv_def ul_view_def ul_get_def ul_put_def ul_pop_def split: option.split)

end
