(* ===== verification/Dns_Cache.thy ===== *)
theory Dns_Cache
  imports Dns_Msg Lru
begin

text \<open>
  The response cache, \<^verbatim>\<open>zebrafish-dns/src/cache.rs\<close>. Time is the monotonic clock in nanoseconds, a duration its
  length in nanoseconds. The mutex is its poison flag: locking a poisoned mutex gives no cache.
  \<^verbatim>\<open>clamp\<close> panics when its bounds are the wrong way round, and the release profile aborts on a panic:
  then \<^verbatim>\<open>put\<close> has no result (\<open>None\<close>).
\<close>

section \<open>Definitions\<close>

definition nanos_per_sec :: nat where
  "nanos_per_sec = 10 ^ 9"

record cache_entry =
  e_response :: bytes
  e_inserted_at :: nat
  e_ttl :: nat

type_synonym 'l entry_lru = "(bytes, cache_entry, 'l) lru_api"

record 'l dns_cache =
  dc_cache :: 'l
  dc_poisoned :: bool
  dc_min_ttl :: u32
  dc_max_ttl :: u32

definition cache_new :: "'l entry_lru \<Rightarrow> nat \<Rightarrow> u32 \<Rightarrow> u32 \<Rightarrow> 'l dns_cache" where
  "cache_new api max_entries min_ttl max_ttl =
     \<lparr>dc_cache = lru_new api (max max_entries 1), dc_poisoned = False,
      dc_min_ttl = min_ttl, dc_max_ttl = max_ttl\<rparr>"

definition cache_key :: "dns_codec \<Rightarrow> message \<Rightarrow> bytes option" where
  "cache_key dc query =
     (case first_query query of
        None \<Rightarrow> None
      | Some q \<Rightarrow>
          Some (as_bytes (name_text dc (name_lower dc (q_name q))) @ [124] @
                to_be_bytes (q_type q) @ [124] @ to_be_bytes (q_class q)))"

definition adjust_ttls :: "dns_codec \<Rightarrow> bytes \<Rightarrow> u32 \<Rightarrow> bytes" where
  "adjust_ttls dc response remaining_ttl =
     (case from_vec dc response of
        Inl _ \<Rightarrow> response
      | Inr msg \<Rightarrow>
          (case to_vec dc (msg\<lparr>m_answers := map (\<lambda>r. r\<lparr>r_ttl := remaining_ttl\<rparr>) (m_answers msg)\<rparr>) of
             None \<Rightarrow> response
           | Some bs \<Rightarrow> if length bs = length response then bs else response))"

definition cache_get ::
  "dns_codec \<Rightarrow> 'l entry_lru \<Rightarrow> nat \<Rightarrow> message \<Rightarrow> 'l dns_cache \<Rightarrow> bytes option \<times> 'l dns_cache" where
  "cache_get dc api now query c =
     (case cache_key dc query of
        None \<Rightarrow> (None, c)
      | Some key \<Rightarrow>
          if dc_poisoned c then (None, c)
          else
            (case lru_get api (dc_cache c) key of
               (None, l) \<Rightarrow> (None, c\<lparr>dc_cache := l\<rparr>)
             | (Some entry, l) \<Rightarrow>
                 let elapsed = now - e_inserted_at entry
                 in if e_ttl entry \<le> elapsed
                    then (None, c\<lparr>dc_cache := lru_pop api l key\<rparr>)
                    else
                      (let remaining = word_of_nat ((e_ttl entry - elapsed) div nanos_per_sec) :: u32
                       in (Some (adjust_ttls dc (e_response entry) remaining), c\<lparr>dc_cache := l\<rparr>))))"

definition extract_min_ttl :: "dns_codec \<Rightarrow> 'l dns_cache \<Rightarrow> bytes \<Rightarrow> u32" where
  "extract_min_ttl dc c response =
     (case from_vec dc response of
        Inl _ \<Rightarrow> dc_min_ttl c
      | Inr msg \<Rightarrow>
          (let m0 = dc_max_ttl c;
               m1 = fold (\<lambda>r m. min m (r_ttl r)) (m_answers msg) m0;
               m2 = fold (\<lambda>r m. if r_type r \<noteq> TYPE_OPT then min m (r_ttl r) else m)
                         (m_additionals msg) m1
           in if m2 = dc_max_ttl c \<and> m_answers msg \<noteq> [] then dc_min_ttl c else m2))"

definition clamp :: "u32 \<Rightarrow> u32 \<Rightarrow> u32 \<Rightarrow> u32 option" where
  "clamp lo hi x = (if hi < lo then None else Some (if x < lo then lo else if hi < x then hi else x))"

definition cache_put ::
  "dns_codec \<Rightarrow> 'l entry_lru \<Rightarrow> nat \<Rightarrow> message \<Rightarrow> bytes \<Rightarrow> 'l dns_cache \<Rightarrow> 'l dns_cache option" where
  "cache_put dc api now query response c =
     (case cache_key dc query of
        None \<Rightarrow> Some c
      | Some key \<Rightarrow>
          (case clamp (dc_min_ttl c) (dc_max_ttl c) (extract_min_ttl dc c response) of
             None \<Rightarrow> None
           | Some ttl \<Rightarrow>
               let entry = \<lparr>e_response = response, e_inserted_at = now,
                            e_ttl = unat ttl * nanos_per_sec\<rparr>
               in Some (if dc_poisoned c then c
                        else c\<lparr>dc_cache := lru_put api (dc_cache c) key entry\<rparr>)))"

lemma u32_bound: "unat (w :: u32) < 2 ^ 32"
  using unsigned_less [of w] by simp

lemma u8_bound: "unat (w :: u8) < 256"
  using unsigned_less [of w] by simp

lemma nanos_per_sec_pos: "0 < nanos_per_sec"
  by (simp add: nanos_per_sec_def)

section \<open>Lifetimes\<close>

lemma clamp_bounds: "clamp lo hi x = Some t \<Longrightarrow> lo \<le> t \<and> t \<le> hi"
  by (auto simp: clamp_def split: if_split_asm)

text \<open>
  How long a response is kept, said without the loops of the source: undecodable bytes for the
  configured minimum; otherwise the shortest lifetime among the answers and the additional records other than
  the EDNS one, at least the minimum and at most the maximum. A response whose records all live at least
  as long as the maximum is kept for the minimum only, when it has answers.
\<close>

definition lifetimes :: "message \<Rightarrow> u32 set" where
  "lifetimes m = r_ttl ` (set (m_answers m) \<union> {r \<in> set (m_additionals m). r_type r \<noteq> TYPE_OPT})"

definition response_lifetime :: "dns_codec \<Rightarrow> u32 \<Rightarrow> u32 \<Rightarrow> bytes \<Rightarrow> u32" where
  "response_lifetime dc lo hi response =
     (case from_vec dc response of
        Inl _ \<Rightarrow> lo
      | Inr m \<Rightarrow>
          (let shortest = Min (insert hi (lifetimes m))
           in if shortest = hi \<and> m_answers m \<noteq> [] then lo else max lo shortest))"

lemma finite_lifetimes [simp]: "finite (lifetimes m)"
  by (simp add: lifetimes_def)

lemma fold_min_if:
  fixes x :: "'a :: linorder"
  shows "fold (\<lambda>r m. if P r then min m (f r) else m) rs x = Min (insert x (f ` {r \<in> set rs. P r}))"
proof (induction rs arbitrary: x)
  case (Cons r rs)
  have "{s \<in> set (r # rs). P s} = (if P r then insert r {s \<in> set rs. P s} else {s \<in> set rs. P s})" by auto
  moreover have "Min (insert (min x (f r)) (f ` {s \<in> set rs. P s})) =
      Min (insert x (insert (f r) (f ` {s \<in> set rs. P s})))"
  proof (cases "{s \<in> set rs. P s} = {}")
    case True
    then show ?thesis by (simp only: True) simp
  qed (simp add: min.assoc)
  ultimately show ?case by (simp add: Cons.IH)
qed simp

lemma fold_min_all:
  fixes x :: "'a :: linorder"
  shows "fold (\<lambda>r m. min m (f r)) rs x = Min (insert x (f ` set rs))"
  using fold_min_if [of "\<lambda>_. True" f rs x] by simp

lemma Min_insert_insert:
  fixes x :: "'a :: linorder"
  assumes "finite A" and "finite B"
  shows "Min (insert (Min (insert x A)) B) = Min (insert x (A \<union> B))"
proof (cases "B = {}")
  case False
  have "Min (insert x A \<union> B) = min (Min (insert x A)) (Min B)" using assms False by (intro Min_Un) auto
  then show ?thesis using assms False by (simp add: Min_insert)
qed simp

lemma extract_min_ttl_shortest:
  assumes "from_vec dc response = Ok msg" and "s = Min (insert (dc_max_ttl c) (lifetimes msg))"
  shows "extract_min_ttl dc c response =
    (if s = dc_max_ttl c \<and> m_answers msg \<noteq> [] then dc_min_ttl c else s)"
proof -
  have "fold (\<lambda>r m. if r_type r \<noteq> TYPE_OPT then min m (r_ttl r) else m) (m_additionals msg)
      (fold (\<lambda>r m. min m (r_ttl r)) (m_answers msg) (dc_max_ttl c)) = s"
    unfolding fold_min_all fold_min_if assms(2) lifetimes_def image_Un
    by (rule Min_insert_insert) simp_all
  with assms(1) show ?thesis unfolding extract_min_ttl_def Let_def by simp
qed

lemma stored_lifetime:
  assumes "clamp (dc_min_ttl c) (dc_max_ttl c) (extract_min_ttl dc c response) = Some t"
  shows "t = response_lifetime dc (dc_min_ttl c) (dc_max_ttl c) response"
proof (cases "from_vec dc response")
  case (Inl e)
  with assms show ?thesis
    by (auto simp: response_lifetime_def extract_min_ttl_def clamp_def split: if_split_asm)
next
  case (Inr msg)
  define s where "s = Min (insert (dc_max_ttl c) (lifetimes msg))"
  have "s \<le> dc_max_ttl c" unfolding s_def by simp
  with assms show ?thesis
    by (auto simp: response_lifetime_def extract_min_ttl_shortest [OF Inr s_def] Inr s_def [symmetric]
        clamp_def Let_def max_def split: if_split_asm)
qed

lemma response_lifetime_bounds:
  assumes "lo \<le> hi"
  shows "lo \<le> response_lifetime dc lo hi response" and "response_lifetime dc lo hi response \<le> hi"
proof -
  have "Min (insert hi (lifetimes m)) \<le> hi" for m by simp
  then show "lo \<le> response_lifetime dc lo hi response" and "response_lifetime dc lo hi response \<le> hi"
    using assms by (auto simp: response_lifetime_def Let_def max_def split: sum.split)
qed

lemma cache_put_total:
  "dc_min_ttl c \<le> dc_max_ttl c \<Longrightarrow>
   \<exists>c'. cache_put dc api now q resp c = Some c' \<and> dc_min_ttl c' = dc_min_ttl c \<and> dc_max_ttl c' = dc_max_ttl c"
  by (auto simp: cache_put_def clamp_def Let_def split: option.split)

section \<open>Operations on the view\<close>

text \<open>The answer given from an entry, and the entry a response is stored in.\<close>

definition served :: "dns_codec \<Rightarrow> nat \<Rightarrow> cache_entry \<Rightarrow> bytes" where
  "served dc now e =
     adjust_ttls dc (e_response e) (word_of_nat ((e_ttl e - (now - e_inserted_at e)) div nanos_per_sec))"

locale entry_cache = lru_cache api view cap inv
  for api :: "'l entry_lru" and view :: "'l \<Rightarrow> bytes \<Rightarrow> cache_entry option" and cap :: "'l \<Rightarrow> nat"
    and inv :: "'l \<Rightarrow> bool"
begin

lemma cache_get_cases:
  assumes "inv (dc_cache c)" and "cache_get dc api now q c = (r, c')"
  obtains (no_key) "r = None" "c' = c" "cache_key dc q = None \<or> dc_poisoned c"
    | (missing) k l where "r = None" "cache_key dc q = Some k" "view (dc_cache c) k = None"
        "c' = c\<lparr>dc_cache := l\<rparr>" "inv l" "cap l = cap (dc_cache c)" "view l = view (dc_cache c)"
    | (expired) k l e where "r = None" "cache_key dc q = Some k" "view (dc_cache c) k = Some e"
        "e_ttl e \<le> now - e_inserted_at e" "c' = c\<lparr>dc_cache := l\<rparr>" "inv l" "cap l = cap (dc_cache c)"
        "view l = (view (dc_cache c))(k := None)"
    | (hit) k l e where "r = Some (served dc now e)" "cache_key dc q = Some k"
        "view (dc_cache c) k = Some e" "now - e_inserted_at e < e_ttl e" "c' = c\<lparr>dc_cache := l\<rparr>"
        "inv l" "cap l = cap (dc_cache c)" "view l = view (dc_cache c)"
proof (cases "cache_key dc q = None \<or> dc_poisoned c")
  case True
  then have "cache_get dc api now q c = (None, c)" by (auto simp: cache_get_def split: option.split)
  with assms(2) True no_key show ?thesis by simp
next
  case False
  then obtain k where k: "cache_key dc q = Some k" "\<not> dc_poisoned c" by auto
  obtain x l where l: "lru_get api (dc_cache c) k = (x, l)" by (cases "lru_get api (dc_cache c) k")
  have x: "x = view (dc_cache c) k" and vl: "view l = view (dc_cache c)" and il: "inv l"
    and cl: "cap l = cap (dc_cache c)"
    using get_value [OF assms(1), of k] view_get [OF assms(1), of k] inv_get [OF assms(1), of k]
      cap_get [of "dc_cache c" k] l by simp_all
  show ?thesis
  proof (cases x)
    case None
    then have "r = None" "c' = c\<lparr>dc_cache := l\<rparr>" using assms(2) k l by (simp_all add: cache_get_def)
    with missing [of k l] k x None vl il cl show ?thesis by simp
  next
    case (Some e)
    show ?thesis
    proof (cases "e_ttl e \<le> now - e_inserted_at e")
      case True
      then have "r = None" "c' = c\<lparr>dc_cache := lru_pop api l k\<rparr>"
        using assms(2) k l Some by (simp_all add: cache_get_def)
      with expired [of k e "lru_pop api l k"] k x Some vl True view_pop [OF il] inv_pop [OF il]
        cl cap_pop show ?thesis by simp
    next
      case False
      then have "r = Some (served dc now e)" "c' = c\<lparr>dc_cache := l\<rparr>"
        using assms(2) k l Some by (simp_all add: cache_get_def served_def)
      with hit [of e k l] k x Some vl False il cl show ?thesis by simp
    qed
  qed
qed

text \<open>A store succeeds exactly when the bounds are in order.\<close>

lemma cache_put_cases:
  assumes "inv (dc_cache c)" and "cache_put dc api now q resp c = Some c'"
  obtains (unchanged) "c' = c" "cache_key dc q = None \<or> dc_poisoned c"
    | (stored) k l e ttl where "cache_key dc q = Some k" "\<not> dc_poisoned c"
        "clamp (dc_min_ttl c) (dc_max_ttl c) (extract_min_ttl dc c resp) = Some ttl"
        "e = \<lparr>e_response = resp, e_inserted_at = now, e_ttl = unat ttl * nanos_per_sec\<rparr>"
        "c' = c\<lparr>dc_cache := l\<rparr>" "l = lru_put api (dc_cache c) k e" "inv l" "cap l = cap (dc_cache c)"
        "view l k = Some e" "\<And>j. j \<noteq> k \<Longrightarrow> view l j \<in> {None, view (dc_cache c) j}"
proof (cases "cache_key dc q")
  case None
  then have "c' = c" using assms(2) by (simp add: cache_put_def)
  with None unchanged show ?thesis by blast
next
  case (Some k)
  then obtain ttl where ttl: "clamp (dc_min_ttl c) (dc_max_ttl c) (extract_min_ttl dc c resp) = Some ttl"
    using assms(2) by (auto simp: cache_put_def split: option.split_asm)
  define e where "e = \<lparr>e_response = resp, e_inserted_at = now, e_ttl = unat ttl * nanos_per_sec\<rparr>"
  have c': "c' = (if dc_poisoned c then c else c\<lparr>dc_cache := lru_put api (dc_cache c) k e\<rparr>)"
    using assms(2) Some ttl by (auto simp: cache_put_def e_def)
  show ?thesis
  proof (cases "dc_poisoned c")
    case True
    with c' unchanged show ?thesis by simp
  next
    case False
    with c' Some ttl e_def view_put_same [OF assms(1)] view_put_other [OF assms(1)]
      inv_put [OF assms(1)] cap_put stored [of k ttl e "lru_put api (dc_cache c) k e"]
    show ?thesis by simp
  qed
qed

end

section \<open>Histories\<close>

text \<open>
  The mutex makes every \<^verbatim>\<open>get\<close> and \<^verbatim>\<open>put\<close> one step; whatever the tasks of the server do concurrently is a
  sequence of such steps. The history records what was stored: when, for which query, and the
  response.
\<close>

inductive cache_reach ::
  "dns_codec \<Rightarrow> 'l entry_lru \<Rightarrow> 'l dns_cache \<Rightarrow> 'l dns_cache \<Rightarrow> (nat \<times> message \<times> bytes) list \<Rightarrow> bool"
  for dc api c0 where
  init: "cache_reach dc api c0 c0 []"
| put: "cache_reach dc api c0 c h \<Longrightarrow> cache_put dc api now q resp c = Some c' \<Longrightarrow>
    cache_reach dc api c0 c' ((now, q, resp) # h)"
| get: "cache_reach dc api c0 c h \<Longrightarrow> cache_get dc api now q c = (r, c') \<Longrightarrow>
    cache_reach dc api c0 c' h"

text \<open>The same operations as data, with the times at which they run.\<close>

datatype cache_op = GetOp nat message | PutOp nat message bytes

fun op_time :: "cache_op \<Rightarrow> nat" where
  "op_time (GetOp t _) = t"
| "op_time (PutOp t _ _) = t"

fun run_ops :: "dns_codec \<Rightarrow> 'l entry_lru \<Rightarrow> cache_op list \<Rightarrow> 'l dns_cache \<Rightarrow> 'l dns_cache option" where
  "run_ops dc api [] c = Some c"
| "run_ops dc api (GetOp t q # ops) c = run_ops dc api ops (snd (cache_get dc api t q c))"
| "run_ops dc api (PutOp t q resp # ops) c =
     (case cache_put dc api t q resp c of None \<Rightarrow> None | Some c' \<Rightarrow> run_ops dc api ops c')"

text \<open>The keys that are stored, and the last response stored under a key with its time.\<close>

definition put_keys :: "dns_codec \<Rightarrow> cache_op list \<Rightarrow> bytes set" where
  "put_keys dc ops = {k. \<exists>t q resp. PutOp t q resp \<in> set ops \<and> cache_key dc q = Some k}"

fun last_stored :: "dns_codec \<Rightarrow> bytes \<Rightarrow> cache_op list \<Rightarrow> nat \<times> bytes \<Rightarrow> nat \<times> bytes" where
  "last_stored dc k [] tb = tb"
| "last_stored dc k (GetOp t q # ops) tb = last_stored dc k ops tb"
| "last_stored dc k (PutOp t q resp # ops) tb =
     last_stored dc k ops (if cache_key dc q = Some k then (t, resp) else tb)"

text \<open>The entry of a response, and that it lives for the minimal lifetime.\<close>

definition entry_of :: "dns_codec \<Rightarrow> u32 \<Rightarrow> u32 \<Rightarrow> nat \<Rightarrow> bytes \<Rightarrow> cache_entry" where
  "entry_of dc lo hi t resp =
     \<lparr>e_response = resp, e_inserted_at = t, e_ttl = unat (response_lifetime dc lo hi resp) * nanos_per_sec\<rparr>"

lemma entry_fresh:
  assumes "lo \<le> hi" and "now - t < unat lo * nanos_per_sec"
  shows "now - t < e_ttl (entry_of dc lo hi t b)"
proof -
  have "unat lo \<le> unat (response_lifetime dc lo hi b)"
    using response_lifetime_bounds(1) [OF assms(1)] by (simp add: word_le_nat_alt)
  then have "unat lo * nanos_per_sec \<le> unat (response_lifetime dc lo hi b) * nanos_per_sec"
    by (rule mult_le_mono1)
  from less_le_trans [OF assms(2) this] show ?thesis by (simp add: entry_of_def)
qed

lemma put_keys_simps [simp]:
  "put_keys dc (GetOp t q # ops) = put_keys dc ops"
  "put_keys dc (PutOp t q resp # ops) = set_option (cache_key dc q) \<union> put_keys dc ops"
  by (auto simp: put_keys_def)

lemma finite_put_keys [simp]: "finite (put_keys dc ops)"
proof (induction ops)
  case (Cons op ops)
  then show ?case by (cases op) simp_all
qed (simp add: put_keys_def)

text \<open>An entry that some store of the history explains.\<close>

definition explained ::
  "dns_codec \<Rightarrow> u32 \<Rightarrow> u32 \<Rightarrow> (nat \<times> message \<times> bytes) list \<Rightarrow> bytes \<Rightarrow> cache_entry \<Rightarrow> bool" where
  "explained dc lo hi h k e \<longleftrightarrow>
     lo \<le> hi \<and> e_ttl e = unat (response_lifetime dc lo hi (e_response e)) * nanos_per_sec \<and>
     (\<exists>q. (e_inserted_at e, q, e_response e) \<in> set h \<and> cache_key dc q = Some k)"

context entry_cache
begin

definition cache_inv :: "dns_codec \<Rightarrow> nat \<Rightarrow> u32 \<Rightarrow> u32 \<Rightarrow> 'l dns_cache \<Rightarrow> (nat \<times> message \<times> bytes) list \<Rightarrow> bool" where
  "cache_inv dc n lo hi c h \<longleftrightarrow>
     inv (dc_cache c) \<and> cap (dc_cache c) = n \<and> \<not> dc_poisoned c \<and>
     dc_min_ttl c = lo \<and> dc_max_ttl c = hi \<and>
     (\<forall>k e. view (dc_cache c) k = Some e \<longrightarrow> explained dc lo hi h k e)"

lemma cache_inv_get:
  assumes "cache_inv dc n lo hi c h" and "cache_get dc api now q c = (r, c')"
  shows "cache_inv dc n lo hi c' h"
proof -
  have inv: "inv (dc_cache c)" using assms(1) by (simp add: cache_inv_def)
  from inv assms(2) show ?thesis
    by (cases rule: cache_get_cases) (use assms(1) in \<open>auto simp: cache_inv_def\<close>)
qed

lemma cache_inv_put:
  assumes "cache_inv dc n lo hi c h" and "cache_put dc api now q resp c = Some c'"
  shows "cache_inv dc n lo hi c' ((now, q, resp) # h)"
proof -
  have inv: "inv (dc_cache c)" using assms(1) by (simp add: cache_inv_def)
  have old: "explained dc lo hi ((now, q, resp) # h) k e" if "view (dc_cache c) k = Some e" for k e
    using assms(1) that by (fastforce simp: cache_inv_def explained_def)
  from inv assms(2) show ?thesis
  proof (cases rule: cache_put_cases)
    case unchanged
    with assms(1) old show ?thesis by (simp add: cache_inv_def)
  next
    case (stored k l e ttl)
    have "lo \<le> hi" "ttl = response_lifetime dc lo hi resp"
      using clamp_bounds [OF stored(3)] stored_lifetime [OF stored(3)] assms(1)
      by (auto simp: cache_inv_def)
    then have new: "explained dc lo hi ((now, q, resp) # h) k e"
      using stored(1,4) by (auto simp: explained_def)
    have "explained dc lo hi ((now, q, resp) # h) j e'" if "view l j = Some e'" for j e'
      using that new old stored(9) stored(10) [of j] by (cases "j = k") auto
    with stored assms(1) show ?thesis by (simp add: cache_inv_def)
  qed
qed

lemma cache_get_hit:
  assumes "inv (dc_cache c)" and "cache_get dc api now q c = (Some b, c')"
  shows "\<exists>k e. b = served dc now e \<and> cache_key dc q = Some k \<and> view (dc_cache c) k = Some e \<and>
    now - e_inserted_at e < e_ttl e"
  using assms by (cases rule: cache_get_cases) auto

lemma cache_get_fresh:
  assumes "inv (dc_cache c)" and "\<not> dc_poisoned c" and "cache_key dc q = Some k"
    and "view (dc_cache c) k = Some e" and "now - e_inserted_at e < e_ttl e"
    and "cache_get dc api now q c = (r, c')"
  shows "r = Some (served dc now e)"
  using assms(1,6) by (cases rule: cache_get_cases) (use assms in auto)

lemma cache_get_keeps:
  assumes "inv (dc_cache c)" and "cache_get dc api now q c = (r, c')"
  shows "inv (dc_cache c') \<and> dc_poisoned c' = dc_poisoned c \<and> dc_min_ttl c' = dc_min_ttl c \<and>
    dc_max_ttl c' = dc_max_ttl c"
  using assms by (cases rule: cache_get_cases) (use assms(1) in auto)

text \<open>The entry a response is stored in.\<close>

lemma cache_put_entry:
  assumes "inv (dc_cache c)" and "\<not> dc_poisoned c" and "cache_key dc q = Some k"
    and "cache_put dc api now q resp c = Some c'"
  shows "view (dc_cache c') k = Some (entry_of dc (dc_min_ttl c) (dc_max_ttl c) now resp)"
    and "\<exists>l. c' = c\<lparr>dc_cache := l\<rparr>" and "inv (dc_cache c')" and "cap (dc_cache c') = cap (dc_cache c)"
    and "dc_min_ttl c \<le> dc_max_ttl c"
    and "card (insert k (dom (view (dc_cache c)))) \<le> cap (dc_cache c) \<Longrightarrow>
      view (dc_cache c') = (view (dc_cache c))(k \<mapsto> entry_of dc (dc_min_ttl c) (dc_max_ttl c) now resp)"
proof -
  from assms(1,4) obtain ttl l e where put:
    "clamp (dc_min_ttl c) (dc_max_ttl c) (extract_min_ttl dc c resp) = Some ttl"
    "e = \<lparr>e_response = resp, e_inserted_at = now, e_ttl = unat ttl * nanos_per_sec\<rparr>"
    "c' = c\<lparr>dc_cache := l\<rparr>" "l = lru_put api (dc_cache c) k e" "inv l" "cap l = cap (dc_cache c)"
    "view l k = Some e"
    using assms(2,3) by (cases rule: cache_put_cases) auto
  have e: "e = entry_of dc (dc_min_ttl c) (dc_max_ttl c) now resp"
    using put(2) stored_lifetime [OF put(1)] by (simp add: entry_of_def)
  show "view (dc_cache c') k = Some (entry_of dc (dc_min_ttl c) (dc_max_ttl c) now resp)"
    and "\<exists>l. c' = c\<lparr>dc_cache := l\<rparr>" and "inv (dc_cache c')" and "cap (dc_cache c') = cap (dc_cache c)"
    and "dc_min_ttl c \<le> dc_max_ttl c"
    using put e clamp_bounds [OF put(1)] by auto
  show "card (insert k (dom (view (dc_cache c)))) \<le> cap (dc_cache c) \<Longrightarrow>
      view (dc_cache c') = (view (dc_cache c))(k \<mapsto> entry_of dc (dc_min_ttl c) (dc_max_ttl c) now resp)"
    using put(3,4) e view_put_room [OF assms(1)] by simp
qed

text \<open>
  While everything stored fits the cache, an entry stays for the minimal lifetime: the operations
  of other tasks in between do not remove it, at most a newer response replaces it.
\<close>

lemma run_ops_keeps:
  assumes "inv (dc_cache c)" and "\<not> dc_poisoned c" and "lo \<le> hi"
    and "dc_min_ttl c = lo" and "dc_max_ttl c = hi"
    and "view (dc_cache c) k = Some (entry_of dc lo hi t b)" and "t0 \<le> t"
    and "finite K" and "card K \<le> cap (dc_cache c)"
    and "dom (view (dc_cache c)) \<union> put_keys dc ops \<subseteq> K"
    and "\<forall>op \<in> set ops. t0 \<le> op_time op \<and> op_time op \<le> t1"
    and "t1 - t0 < unat lo * nanos_per_sec"
  shows "\<exists>c'. run_ops dc api ops c = Some c' \<and> inv (dc_cache c') \<and> \<not> dc_poisoned c' \<and>
    (case last_stored dc k ops (t, b) of (t', b') \<Rightarrow>
       t0 \<le> t' \<and> view (dc_cache c') k = Some (entry_of dc lo hi t' b'))"
  using assms
proof (induction ops arbitrary: c t b)
  case Nil
  then show ?case by simp
next
  case (Cons op ops)
  have later: "\<forall>op \<in> set ops. t0 \<le> op_time op \<and> op_time op \<le> t1" using Cons.prems(11) by simp
  show ?case
  proof (cases op)
    case (GetOp now q)
    obtain r c1 where get: "cache_get dc api now q c = (r, c1)" by (cases "cache_get dc api now q c")
    have "now \<le> t1" using Cons.prems(11) GetOp by simp
    then have fresh: "now - t < e_ttl (entry_of dc lo hi t b)"
      using entry_fresh [OF Cons.prems(3), of now t dc b] Cons.prems(7,12) by simp
    from Cons.prems(1) get have "inv (dc_cache c1) \<and> \<not> dc_poisoned c1 \<and> dc_min_ttl c1 = lo \<and> dc_max_ttl c1 = hi \<and>
        cap (dc_cache c1) = cap (dc_cache c) \<and> view (dc_cache c1) k = Some (entry_of dc lo hi t b) \<and>
        dom (view (dc_cache c1)) \<subseteq> dom (view (dc_cache c))"
    proof (cases rule: cache_get_cases)
      case (expired k' l e)
      have "k' \<noteq> k" using expired(3,4) fresh Cons.prems(6) by (auto simp: entry_of_def)
      with expired Cons.prems show ?thesis by auto
    qed (use Cons.prems in auto)
    moreover from this have "dom (view (dc_cache c1)) \<subseteq> K" using Cons.prems(10) by blast
    moreover have "put_keys dc ops \<subseteq> K" using Cons.prems(10) GetOp by simp
    ultimately have "\<exists>c'. run_ops dc api ops c1 = Some c' \<and> inv (dc_cache c') \<and> \<not> dc_poisoned c' \<and>
        (case last_stored dc k ops (t, b) of (t', b') \<Rightarrow>
           t0 \<le> t' \<and> view (dc_cache c') k = Some (entry_of dc lo hi t' b'))"
      using Cons.prems(3,7,8,9,12) later by (intro Cons.IH) simp_all
    then show ?thesis using GetOp get by simp
  next
    case (PutOp now q resp)
    show ?thesis
    proof (cases "cache_key dc q")
      case None
      then have "cache_put dc api now q resp c = Some c" by (simp add: cache_put_def)
      moreover have "put_keys dc ops \<subseteq> K" using Cons.prems(10) PutOp by simp
      ultimately show ?thesis
        using Cons.IH [OF Cons.prems(1-9) _ later Cons.prems(12)] Cons.prems(10) PutOp None by simp
    next
      case (Some j)
      obtain c1 where put: "cache_put dc api now q resp c = Some c1"
        using cache_put_total [of c dc api now q resp] Cons.prems(3-5) by auto
      note entry = cache_put_entry [OF Cons.prems(1,2) Some put]
      have j: "j \<in> K" using Cons.prems(10) PutOp Some by simp
      then have "card (insert j (dom (view (dc_cache c)))) \<le> card K"
        using Cons.prems(8,10) by (intro card_mono) auto
      with Cons.prems(9) entry(6) have vw: "view (dc_cache c1) =
          (view (dc_cache c))(j \<mapsto> entry_of dc lo hi now resp)"
        using Cons.prems(4,5) by simp
      define tb where "tb = (if j = k then (now, resp) else (t, b))"
      have keys: "dom (view (dc_cache c1)) \<union> put_keys dc ops \<subseteq> K"
        using Cons.prems(10) PutOp j vw by simp
      have c1: "\<not> dc_poisoned c1" "dc_min_ttl c1 = lo" "dc_max_ttl c1 = hi" "card K \<le> cap (dc_cache c1)"
        using entry(2,4) Cons.prems(2,4,5,9) by auto
      have held: "view (dc_cache c1) k = Some (entry_of dc lo hi (fst tb) (snd tb))"
        using vw Cons.prems(6) by (simp add: tb_def)
      have "t0 \<le> fst tb" using Cons.prems(7,11) PutOp by (simp add: tb_def)
      from Cons.IH [OF entry(3) c1(1) Cons.prems(3) c1(2,3) held this Cons.prems(8) c1(4) keys later Cons.prems(12)]
      show ?thesis using PutOp put Some by (simp add: tb_def)
    qed
  qed
qed

lemma cache_reach_inv:
  "cache_reach dc api (cache_new api m lo hi) c h \<Longrightarrow> cache_inv dc (max m 1) lo hi c h"
proof (induction rule: cache_reach.induct)
  case init
  show ?case by (simp add: cache_inv_def cache_new_def inv_new cap_new view_new)
qed (blast intro: cache_inv_put cache_inv_get)+

lemma cache_hit_stored:
  assumes "cache_reach dc api (cache_new api m lo hi) c h"
    and "cache_get dc api now q c = (Some b, c')"
  shows "\<exists>t0 q0 resp rem. (t0, q0, resp) \<in> set h \<and> cache_key dc q0 = cache_key dc q \<and>
    b = adjust_ttls dc resp rem"
proof -
  have ci: "cache_inv dc (max m 1) lo hi c h" using assms(1) by (rule cache_reach_inv)
  then have "inv (dc_cache c)" by (simp add: cache_inv_def)
  from cache_get_hit [OF this assms(2)] obtain k e where
    "b = served dc now e" "cache_key dc q = Some k" "view (dc_cache c) k = Some e" by blast
  moreover from this ci have "explained dc lo hi h k e" by (simp add: cache_inv_def)
  ultimately show ?thesis by (auto simp: explained_def served_def)
qed

end

interpretation ec: entry_cache ul_api ul_view fst ul_inv ..

section \<open>Properties\<close>


text \<open>A query, and a short history on the list cache.\<close>

definition query0 :: message where
  "query0 = new_message\<lparr>m_queries := [\<lparr>q_name = [[97]], q_type = TYPE_A, q_class = 1\<rparr>]\<rparr>"

definition cache0 :: "(bytes, cache_entry) use_list dns_cache" where
  "cache0 = cache_new ul_api 10 60 3600"

definition key0 :: bytes where
  "key0 = [97, 124, 0, 1, 124, 0, 1]"

lemma cache0_simps [simp]:
  "dc_cache cache0 = (10, [])" "\<not> dc_poisoned cache0" "dc_min_ttl cache0 = 60" "dc_max_ttl cache0 = 3600"
  by (simp_all add: cache0_def cache_new_def)

lemma key_query0: "cache_key codec0 query0 = Some key0"
  by (simp add: cache_key_def first_query_def nth_opt_def query0_def TYPE_A_def as_bytes_def
      utf8_char_def to_be_bytes_def byte_def key0_def)

lemma put_query0:
  "cache_put codec0 ul_api t query0 resp cache0 =
     Some (cache0\<lparr>dc_cache := (10, [(key0, \<lparr>e_response = resp, e_inserted_at = t, e_ttl = 60 * nanos_per_sec\<rparr>)])\<rparr>)"
  by (simp add: cache_put_def key_query0 clamp_def extract_min_ttl_def ul_put_def)


text \<open>
  C34. Two queries share a cache entry exactly when their first questions agree in type, class and
  lower-case name: the key loses nothing and confuses nothing.
\<close>

theorem cache_key_exact:
  assumes "\<forall>n. list_all scalar_value (name_text dc n)"
    and "first_query m1 = Some q1" and "first_query m2 = Some q2"
  shows "cache_key dc m1 = cache_key dc m2 \<longleftrightarrow>
         name_text dc (name_lower dc (q_name q1)) = name_text dc (name_lower dc (q_name q2)) \<and>
         q_type q1 = q_type q2 \<and> q_class q1 = q_class q2"
proof -
  have "as_bytes (name_text dc n) = as_bytes (name_text dc n') \<longleftrightarrow> name_text dc n = name_text dc n'" for n n'
    using assms(1) by (simp add: as_bytes_inject)
  then show ?thesis using assms(2,3) by (simp add: cache_key_def)
qed

theorem cache_key_exact_witness:
  "cache_key codec0 query0 \<noteq>
   cache_key codec0 (query0\<lparr>m_queries := [\<lparr>q_name = [[97]], q_type = TYPE_AAAA, q_class = 1\<rparr>]\<rparr>)"
proof -
  have "scalar_value (unat w)" for w :: u8
    using u8_bound [of w] by (simp add: scalar_value_def)
  then have "\<forall>n. list_all scalar_value (name_text codec0 n)" by (simp add: list_all_iff)
  from cache_key_exact [OF this, of query0 "\<lparr>q_name = [[97]], q_type = TYPE_A, q_class = 1\<rparr>"
      "query0\<lparr>m_queries := [\<lparr>q_name = [[97]], q_type = TYPE_AAAA, q_class = 1\<rparr>]\<rparr>"
      "\<lparr>q_name = [[97]], q_type = TYPE_AAAA, q_class = 1\<rparr>"]
  show ?thesis by (simp add: first_query_def nth_opt_def query0_def TYPE_A_def TYPE_AAAA_def)
qed

text \<open>
  C33. Lifetimes: storing a response aborts the process exactly when the configured minimum exceeds
  the maximum; otherwise the entry the cache then holds under the query's key has the response,
  the time, and a lifetime between the bounds that no answer or additional record cuts short, except
  for the configured minimum: it is one of the records' lifetimes, the minimum, or, without answers
  and with no shorter record, the maximum. Undecodable bytes are kept for the minimum.
\<close>

theorem cache_lifetime:
  assumes "entry_cache api view cap ok" and "ok (dc_cache c)" and "\<not> dc_poisoned c"
    and "cache_key dc q = Some k"
  shows "case cache_put dc api now q resp c of
           None \<Rightarrow> dc_max_ttl c < dc_min_ttl c
         | Some c' \<Rightarrow> dc_min_ttl c \<le> dc_max_ttl c \<and>
             (\<exists>t. view (dc_cache c') k =
                    Some \<lparr>e_response = resp, e_inserted_at = now, e_ttl = unat t * nanos_per_sec\<rparr> \<and>
                  dc_min_ttl c \<le> t \<and> t \<le> dc_max_ttl c \<and>
                  (case from_vec dc resp of
                     Inl _ \<Rightarrow> t = dc_min_ttl c
                   | Inr msg \<Rightarrow>
                       (\<forall>l \<in> lifetimes msg. t \<le> max (dc_min_ttl c) l) \<and>
                       (t = dc_min_ttl c \<or> t \<in> lifetimes msg \<or>
                        m_answers msg = [] \<and> t = dc_max_ttl c \<and> (\<forall>l \<in> lifetimes msg. t \<le> l))))"
proof (cases "cache_put dc api now q resp c")
  case None
  with assms(4) show ?thesis by (auto simp: cache_put_def clamp_def Let_def split: option.split_asm if_split_asm)
next
  case (Some c')
  let ?lo = "dc_min_ttl c" and ?hi = "dc_max_ttl c"
  define t where "t = response_lifetime dc ?lo ?hi resp"
  note entry = entry_cache.cache_put_entry [OF assms Some]
  have view: "view (dc_cache c') k =
      Some \<lparr>e_response = resp, e_inserted_at = now, e_ttl = unat t * nanos_per_sec\<rparr>"
    using entry(1) by (simp add: entry_of_def t_def)
  have tb: "?lo \<le> t" "t \<le> ?hi"
    unfolding t_def by (rule response_lifetime_bounds [OF entry(5)])+
  have "case from_vec dc resp of
      Inl _ \<Rightarrow> t = ?lo
    | Inr msg \<Rightarrow> (\<forall>l \<in> lifetimes msg. t \<le> max ?lo l) \<and>
        (t = ?lo \<or> t \<in> lifetimes msg \<or> m_answers msg = [] \<and> t = ?hi \<and> (\<forall>l \<in> lifetimes msg. t \<le> l))"
  proof (cases "from_vec dc resp")
    case (Inl e)
    then show ?thesis by (simp add: t_def response_lifetime_def)
  next
    case (Inr msg)
    define s where "s = Min (insert ?hi (lifetimes msg))"
    have s: "\<And>l. l \<in> lifetimes msg \<Longrightarrow> s \<le> l" "s \<le> ?hi" "s \<in> insert ?hi (lifetimes msg)"
      unfolding s_def using Min_in [of "insert ?hi (lifetimes msg)"] by simp_all
    have t: "t = (if s = ?hi \<and> m_answers msg \<noteq> [] then ?lo else max ?lo s)"
      by (simp add: t_def response_lifetime_def Inr s_def Let_def)
    have "t \<le> max ?lo l" if "l \<in> lifetimes msg" for l
      using s(1) [OF that] by (auto simp: t max_def split: if_split_asm)
    moreover have "t = ?lo \<or> t \<in> lifetimes msg \<or>
        m_answers msg = [] \<and> t = ?hi \<and> (\<forall>l \<in> lifetimes msg. t \<le> l)"
      using s tb by (auto simp: t max_def split: if_split_asm)
    ultimately show ?thesis using Inr by simp
  qed
  with view tb entry(5) Some show ?thesis by auto
qed

definition rr300 :: rr where
  "rr300 = \<lparr>r_name = [[97]], r_type = TYPE_A, r_ttl = 300, r_data = RA 16909060\<rparr>"

text \<open>An answer that lives 300 seconds is kept for 300 seconds or less.\<close>

theorem cache_lifetime_witness:
  "\<exists>c' t. cache_put (codec0\<lparr>from_vec := \<lambda>_. Ok (query0\<lparr>m_answers := [rr300]\<rparr>)\<rparr>) ul_api 7 query0 [1] cache0 = Some c' \<and>
     ul_view (dc_cache c') key0 = Some \<lparr>e_response = [1], e_inserted_at = 7, e_ttl = unat t * nanos_per_sec\<rparr> \<and>
     t \<le> (300 :: u32)"
proof -
  let ?dc = "codec0\<lparr>from_vec := \<lambda>_. Ok (query0\<lparr>m_answers := [rr300]\<rparr>)\<rparr>"
  have key: "cache_key ?dc query0 = Some key0"
    using key_query0 unfolding cache_key_def by (simp cong: option.case_cong)
  have ok: "ul_inv (dc_cache cache0)" by (simp add: ul_inv_def)
  have life: "300 \<in> lifetimes (query0\<lparr>m_answers := [rr300]\<rparr>)" by (simp add: lifetimes_def rr300_def)
  note main = cache_lifetime [OF ec.entry_cache_axioms ok _ key, where now = 7 and resp = "[1]"]
  obtain c' where put: "cache_put ?dc ul_api 7 query0 [1] cache0 = Some c'"
    using cache_put_total [of cache0 ?dc ul_api 7 query0 "[1]"] by auto
  from main put life show ?thesis by (fastforce simp: max_def)
qed

text \<open>
  The lifetime of long-lived data is the shortest one: when every answer lives at least as long as the
  configured maximum, the response is kept for the configured minimum only.
\<close>

lemma long_answers_short_lived:
  assumes "from_vec dc resp = Ok msg" and "m_answers msg \<noteq> []"
    and "\<forall>l \<in> lifetimes msg. hi \<le> l"
  shows "response_lifetime dc lo hi resp = lo"
proof -
  have "Min (insert hi (lifetimes msg)) = hi" using assms(3) by (intro Min_eqI) auto
  with assms(1,2) show ?thesis by (simp add: response_lifetime_def)
qed

end
