(* ===== verification/Doh.thy ===== *)
theory Doh
  imports Dns_Cache
begin

text \<open>
  Resolving a query, \<^verbatim>\<open>zebrafish-dns/src/doh.rs\<close>: the cache lookup, the HTTPS exchange with the upstream server,
  the store, and the identifier of the answer. The \<^verbatim>\<open>await\<close> on the exchange splits \<^verbatim>\<open>resolve\<close> in two: other
  tasks may use the shared cache in between. The HTTP client is a parameter: the failure of the
  request (an address it does not accept included), or the status with the outcome of reading the body.

  The rewriting of the connection address by \<^verbatim>\<open>BootstrapConnector\<close> is modelled over the URI functions of
  the \<^verbatim>\<open>http\<close> crate, which are parameters too.
\<close>

section \<open>The bootstrap connector\<close>

text \<open>
  \<open>u_host\<close> and \<open>u_path_and_query\<close> are the accessors of \<^verbatim>\<open>Uri\<close>, \<open>u_build\<close> is \<^verbatim>\<open>Uri::builder\<close> on a scheme, an
  authority and a path; \<open>u_ip\<close> is \<^verbatim>\<open>str::parse::<IpAddr>\<close>, with the address by its text.
\<close>

record uri_api =
  u_host :: "rstr \<Rightarrow> rstr option"
  u_path_and_query :: "rstr \<Rightarrow> rstr option"
  u_build :: "rstr \<Rightarrow> rstr \<Rightarrow> rstr \<Rightarrow> rstr option"
  u_ip :: "rstr \<Rightarrow> rstr option"

type_synonym socket_addr = "rstr \<times> u16"

record bootstrap_connector =
  bc_host :: rstr
  bc_addrs :: "socket_addr list"

text \<open>The URI handed to the inner connector.\<close>

definition connector_call :: "uri_api \<Rightarrow> bootstrap_connector \<Rightarrow> rstr \<Rightarrow> rstr" where
  "connector_call ua bc uri =
     (let host = (case u_host ua uri of Some h \<Rightarrow> h | None \<Rightarrow> [])
      in if host = bc_host bc \<and> bc_addrs bc \<noteq> [] then
           (case bc_addrs bc ! 0 of
              (ip, port) \<Rightarrow>
                (case u_build ua (lit ''http'') (ip @ lit '':'' @ show_nat (unat port))
                        (case u_path_and_query ua uri of Some pq \<Rightarrow> pq | None \<Rightarrow> lit ''/'') of
                   Some u \<Rightarrow> u
                 | None \<Rightarrow> uri))
         else uri)"

text \<open>\<^verbatim>\<open>DohClient::new\<close>: the host part of the URL and the bootstrap addresses that parse.\<close>

definition doh_host :: "rstr \<Rightarrow> rstr" where
  "doh_host url =
     before_char 47 (case strip_prefix (lit ''https://'') url of Some r \<Rightarrow> r | None \<Rightarrow> url)"

definition bootstrap_socket_addrs :: "uri_api \<Rightarrow> rstr list \<Rightarrow> socket_addr list" where
  "bootstrap_socket_addrs ua ips =
     List.map_filter (\<lambda>ip. case u_ip ua ip of Some a \<Rightarrow> Some (a, 443) | None \<Rightarrow> None) ips"

definition new_connector :: "uri_api \<Rightarrow> rstr \<Rightarrow> rstr list \<Rightarrow> bootstrap_connector" where
  "new_connector ua url ips =
     \<lparr>bc_host = doh_host url, bc_addrs = bootstrap_socket_addrs ua ips\<rparr>"

text \<open>The client: its HTTP stack is the connector, everything behind it is a parameter of \<^verbatim>\<open>resolve\<close>.\<close>

record 'l doh_client =
  dh_url :: rstr
  dh_connector :: bootstrap_connector
  dh_cache :: "'l dns_cache"

definition doh_client_new :: "uri_api \<Rightarrow> rstr \<Rightarrow> rstr list \<Rightarrow> 'l dns_cache \<Rightarrow> 'l doh_client" where
  "doh_client_new ua url ips cache =
     \<lparr>dh_url = url, dh_connector = new_connector ua url ips, dh_cache = cache\<rparr>"

section \<open>Resolving\<close>

record dns_result =
  dr_response :: bytes
  dr_cached :: bool
  dr_upstream_status :: "u16 option"
  dr_upstream_latency_ms :: "u64 option"

datatype resolve_error =
    BadQuery rstr
  | RequestFailed rstr
  | UpstreamStatus u16
  | BodyFailed rstr

text \<open>What the HTTP client reports for one request.\<close>

datatype exchange = ReqError rstr | Reply u16 "(rstr, bytes) result"

definition set_id :: "u16 \<Rightarrow> bytes \<Rightarrow> bytes" where
  "set_id qid response =
     (if 2 \<le> length response
      then response[0 := ucast (drop_bit 8 qid), 1 := ucast (and qid 255)]
      else response)"

definition is_success :: "u16 \<Rightarrow> bool" where
  "is_success status \<longleftrightarrow> 200 \<le> status \<and> status < 300"

text \<open>Up to the request: an answer, or the parsed query with which to go on.\<close>

definition resolve_begin ::
  "dns_codec \<Rightarrow> 'l entry_lru \<Rightarrow> nat \<Rightarrow> bytes \<Rightarrow> 'l dns_cache \<Rightarrow>
   ((resolve_error, dns_result) result + message) \<times> 'l dns_cache" where
  "resolve_begin dc api now query_bytes c =
     (case from_vec dc query_bytes of
        Inl e \<Rightarrow> (Inl (Err (BadQuery e)), c)
      | Inr query_msg \<Rightarrow>
          (case cache_get dc api now query_msg c of
             (Some cached, c') \<Rightarrow>
               (Inl (Ok \<lparr>dr_response = set_id (m_id query_msg) cached, dr_cached = True,
                         dr_upstream_status = None, dr_upstream_latency_ms = None\<rparr>), c')
           | (None, c') \<Rightarrow> (Inr query_msg, c')))"

text \<open>After the exchange; \<open>None\<close> when storing the response panics.\<close>

definition resolve_finish ::
  "dns_codec \<Rightarrow> 'l entry_lru \<Rightarrow> nat \<Rightarrow> u64 \<Rightarrow> message \<Rightarrow> exchange \<Rightarrow> 'l dns_cache \<Rightarrow>
   ((resolve_error, dns_result) result \<times> 'l dns_cache) option" where
  "resolve_finish dc api now latency query_msg ex c =
     (case ex of
        ReqError e \<Rightarrow> Some (Err (RequestFailed e), c)
      | Reply status body \<Rightarrow>
          if \<not> is_success status then Some (Err (UpstreamStatus status), c)
          else
            (case body of
               Inl e \<Rightarrow> Some (Err (BodyFailed e), c)
             | Inr response_bytes \<Rightarrow>
                 (case cache_put dc api now query_msg response_bytes c of
                    None \<Rightarrow> None
                  | Some c' \<Rightarrow>
                      Some (Ok \<lparr>dr_response = set_id (m_id query_msg) response_bytes,
                                dr_cached = False, dr_upstream_status = Some status,
                                dr_upstream_latency_ms = Some latency\<rparr>, c'))))"

text \<open>One call of \<^verbatim>\<open>resolve\<close> with nothing in between.\<close>

definition resolve ::
  "dns_codec \<Rightarrow> 'l entry_lru \<Rightarrow> nat \<Rightarrow> nat \<Rightarrow> u64 \<Rightarrow> (bytes \<Rightarrow> exchange) \<Rightarrow> bytes \<Rightarrow> 'l dns_cache \<Rightarrow>
   ((resolve_error, dns_result) result \<times> 'l dns_cache) option" where
  "resolve dc api now now' latency post query_bytes c =
     (case resolve_begin dc api now query_bytes c of
        (Inl r, c') \<Rightarrow> Some (r, c')
      | (Inr query_msg, c') \<Rightarrow>
          resolve_finish dc api now' latency query_msg (post query_bytes) c')"

section \<open>Where responses come from\<close>

text \<open>
  A run is described by its successful exchanges, the request bytes with the body. A delivered
  response was received for exactly these request bytes or, when it came from the cache, for a
  request with the same first question, with only the identifier and the lifetimes rewritten.
\<close>

definition from_exchange :: "dns_codec \<Rightarrow> (bytes \<times> bytes) list \<Rightarrow> bytes \<Rightarrow> dns_result \<Rightarrow> bool" where
  "from_exchange dc x qb r \<longleftrightarrow>
     (\<exists>m. from_vec dc qb = Ok m \<and>
        (if dr_cached r
         then \<exists>qb0 m0 body rem. (qb0, body) \<in> set x \<and> from_vec dc qb0 = Ok m0 \<and>
                cache_key dc m0 = cache_key dc m \<and> dr_response r = set_id (m_id m) (adjust_ttls dc body rem)
         else \<exists>body. (qb, body) \<in> set x \<and> dr_response r = set_id (m_id m) body))"

section \<open>Lemmas\<close>

text \<open>The low byte as the source masks it.\<close>

lemma ucast_mask8: "ucast (and w 255) = (ucast w :: u8)" for w :: u16
proof -
  have m: "(255 :: u16) = mask 8" by (simp add: mask_eq_exp_minus_1)
  show ?thesis unfolding m by (rule bit_word_eqI) (simp add: bit_ucast_iff bit_and_iff bit_mask_iff)
qed

lemma length_set_id [simp]: "length (set_id i b) = length b"
  by (simp add: set_id_def)

lemma set_id_Cons2: "set_id i (x # y # r) = ucast (drop_bit 8 i) # ucast i # r"
  by (simp add: set_id_def ucast_mask8)

lemma set_id_bytes:
  assumes "2 \<le> length b"
  shows "from_be_bytes (set_id i b ! 0) (set_id i b ! 1) = i" and "drop 2 (set_id i b) = drop 2 b"
proof -
  obtain x y r where "b = x # y # r" using assms by (cases b; cases "tl b") auto
  then show "from_be_bytes (set_id i b ! 0) (set_id i b ! 1) = i" and "drop 2 (set_id i b) = drop 2 b"
    by (simp_all add: set_id_Cons2 from_to_be_bytes)
qed

lemma resolve_finish_Ok:
  assumes "resolve_finish dc api now lat m ex c = Some (Ok r, c')"
  obtains status body where "ex = Reply status (Ok body)" "is_success status"
    "cache_put dc api now m body c = Some c'" "dr_response r = set_id (m_id m) body" "\<not> dr_cached r"
  using assms by (auto simp: resolve_finish_def split: exchange.split_asm if_split_asm sum.split_asm option.split_asm)

lemma resolve_finish_Err:
  "resolve_finish dc api now lat m ex c = Some (Err e, c') \<Longrightarrow> c' = c"
  by (auto simp: resolve_finish_def split: exchange.split_asm if_split_asm sum.split_asm option.split_asm)

lemma resolve_begin_cases:
  assumes "resolve_begin dc api now qb c = (r, c')"
  obtains (bad) e where "r = Inl (Err (BadQuery e))" "c' = c"
    | (hit) m b d where "from_vec dc qb = Ok m" "cache_get dc api now m c = (Some b, c')" "r = Inl (Ok d)"
        "dr_response d = set_id (m_id m) b" "dr_cached d"
    | (miss) m where "from_vec dc qb = Ok m" "cache_get dc api now m c = (None, c')" "r = Inr m"
  using assms by (auto simp: resolve_begin_def split: sum.split_asm option.split_asm prod.split_asm)

lemma from_exchange_mono: "from_exchange dc x qb r \<Longrightarrow> set x \<subseteq> set y \<Longrightarrow> from_exchange dc y qb r"
  unfolding from_exchange_def by (cases "dr_cached r") (simp_all, blast+)

text \<open>The invariant of the cache: what it holds was brought in by the exchanges.\<close>

definition stored_from ::
  "dns_codec \<Rightarrow> 'l entry_lru \<Rightarrow> 'l dns_cache \<Rightarrow> 'l dns_cache \<Rightarrow> (bytes \<times> bytes) list \<Rightarrow> bool" where
  "stored_from dc api c0 c x \<longleftrightarrow>
     (\<exists>h. cache_reach dc api c0 c h \<and>
        (\<forall>t q resp. (t, q, resp) \<in> set h \<longrightarrow> (\<exists>qb. from_vec dc qb = Ok q \<and> (qb, resp) \<in> set x)))"

lemma stored_from_get:
  "stored_from dc api c0 c x \<Longrightarrow> cache_get dc api now q c = (r, c') \<Longrightarrow> stored_from dc api c0 c' x"
  unfolding stored_from_def using cache_reach.get by blast

lemma stored_from_put:
  assumes "stored_from dc api c0 c x" and "cache_put dc api now q resp c = Some c'"
    and "from_vec dc qb = Ok q"
  shows "stored_from dc api c0 c' ((qb, resp) # x)"
proof -
  obtain h where h: "cache_reach dc api c0 c h"
      "\<forall>t q resp. (t, q, resp) \<in> set h \<longrightarrow> (\<exists>qb. from_vec dc qb = Ok q \<and> (qb, resp) \<in> set x)"
    using assms(1) by (auto simp: stored_from_def)
  have "cache_reach dc api c0 c' ((now, q, resp) # h)" using h(1) assms(2) by (rule cache_reach.put)
  moreover have "\<forall>t q' resp'. (t, q', resp') \<in> set ((now, q, resp) # h) \<longrightarrow>
      (\<exists>qb'. from_vec dc qb' = Ok q' \<and> (qb', resp') \<in> set ((qb, resp) # x))"
    using h(2) assms(3) by (metis Pair_inject list.set_intros set_ConsD)
  ultimately show ?thesis unfolding stored_from_def by blast
qed

lemma hit_from_exchange:
  assumes "entry_cache api view cap ok" and "stored_from dc api (cache_new api n lo hi) c x"
    and "cache_get dc api now m c = (Some b, c')" and "from_vec dc qb = Ok m"
    and "dr_response d = set_id (m_id m) b" and "dr_cached d"
  shows "from_exchange dc x qb d"
proof -
  obtain h where h: "cache_reach dc api (cache_new api n lo hi) c h"
      "\<forall>t q resp. (t, q, resp) \<in> set h \<longrightarrow> (\<exists>qb. from_vec dc qb = Ok q \<and> (qb, resp) \<in> set x)"
    using assms(2) by (auto simp: stored_from_def)
  obtain t0 q0 resp rem where "(t0, q0, resp) \<in> set h" "cache_key dc q0 = cache_key dc m"
      "b = adjust_ttls dc resp rem"
    using entry_cache.cache_hit_stored [OF assms(1) h(1) assms(3)] by blast
  moreover from this h(2) obtain qb0 where "from_vec dc qb0 = Ok q0" "(qb0, resp) \<in> set x" by blast
  ultimately show ?thesis using assms(4-6) unfolding from_exchange_def by auto
qed

lemma resolve_Ok_cases:
  assumes "resolve dc api now now' lat post qb c = Some (Ok r, c')" and "from_vec dc qb = Ok m"
  obtains (hit) b where "cache_get dc api now m c = (Some b, c')" "dr_response r = set_id (m_id m) b" "dr_cached r"
    | (fresh) status body c1 where "cache_get dc api now m c = (None, c1)" "post qb = Reply status (Ok body)"
        "is_success status" "cache_put dc api now' m body c1 = Some c'"
        "dr_response r = set_id (m_id m) body" "\<not> dr_cached r"
proof -
  obtain b c1 where b: "resolve_begin dc api now qb c = (b, c1)" by fastforce
  from this show ?thesis
  proof (cases rule: resolve_begin_cases)
    case (bad e)
    with b assms(1) show ?thesis by (simp add: resolve_def)
  next
    case (hit m' resp d)
    with b assms that(1) show ?thesis by (simp add: resolve_def)
  next
    case (miss m')
    then have "resolve_finish dc api now' lat m (post qb) c1 = Some (Ok r, c')"
      using b assms by (simp add: resolve_def)
    then show ?thesis using miss assms(2) that(2) by (auto elim!: resolve_finish_Ok)
  qed
qed

text \<open>With the lifetime bounds in order a query never stops the process, and keeps the bounds.\<close>

lemma cache_get_ttls:
  "cache_get dc api now q c = (r, c') \<Longrightarrow> dc_min_ttl c' = dc_min_ttl c \<and> dc_max_ttl c' = dc_max_ttl c"
  by (auto simp: cache_get_def Let_def split: option.split_asm if_split_asm prod.split_asm)

lemma resolve_finish_total:
  assumes "dc_min_ttl c \<le> dc_max_ttl c"
  shows "\<exists>r c'. resolve_finish dc api now lat m ex c = Some (r, c') \<and>
    dc_min_ttl c' = dc_min_ttl c \<and> dc_max_ttl c' = dc_max_ttl c"
proof (cases ex)
  case (Reply status body)
  show ?thesis
  proof (cases "is_success status \<and> (\<exists>b. body = Ok b)")
    case True
    then obtain b where "is_success status" "body = Ok b" by blast
    with Reply cache_put_total [OF assms, of dc api now m b] show ?thesis
      by (auto simp: resolve_finish_def)
  next
    case False
    with Reply show ?thesis by (cases body) (auto simp: resolve_finish_def)
  qed
qed (simp add: resolve_finish_def)

lemma resolve_total:
  assumes "dc_min_ttl c \<le> dc_max_ttl c"
  shows "\<exists>r c'. resolve dc api now now' lat post qb c = Some (r, c') \<and>
    dc_min_ttl c' = dc_min_ttl c \<and> dc_max_ttl c' = dc_max_ttl c"
proof -
  obtain b c1 where b: "resolve_begin dc api now qb c = (b, c1)" by fastforce
  from this have ttls: "dc_min_ttl c1 = dc_min_ttl c \<and> dc_max_ttl c1 = dc_max_ttl c"
    by (cases rule: resolve_begin_cases) (auto dest: cache_get_ttls)
  show ?thesis
  proof (cases b)
    case (Inl r)
    with b ttls show ?thesis by (simp add: resolve_def)
  next
    case (Inr m)
    with b ttls assms resolve_finish_total [of c1 dc api now' lat m "post qb"] show ?thesis
      by (simp add: resolve_def)
  qed
qed

section \<open>Properties\<close>

definition codec1 :: dns_codec where
  "codec1 = codec0\<lparr>from_vec := \<lambda>_. Ok (query0\<lparr>m_id := 258\<rparr>)\<rparr>"

lemma codec1_simps [simp]:
  "from_vec codec1 b = Ok (query0\<lparr>m_id := 258\<rparr>)" "to_vec codec1 m = None"
  "cache_key codec1 (query0\<lparr>m_id := i\<rparr>) = Some key0" "adjust_ttls codec1 b t = b"
  using key_query0 by (auto simp: codec1_def cache_key_def first_query_def adjust_ttls_def split: option.splits)

lemma put_codec1:
  "cache_put codec1 ul_api t (query0\<lparr>m_id := i\<rparr>) resp cache0 =
     Some (cache0\<lparr>dc_cache := (10, [(key0, \<lparr>e_response = resp, e_inserted_at = t, e_ttl = 3600 * nanos_per_sec\<rparr>)])\<rparr>)"
  by (simp add: cache_put_def clamp_def extract_min_ttl_def ul_put_def query0_def [THEN arg_cong [of _ _ m_answers]]
      query0_def [THEN arg_cong [of _ _ m_additionals]] new_message_def)

lemma get_codec1: "cache_get codec1 ul_api t (query0\<lparr>m_id := i\<rparr>) cache0 = (None, cache0)"
  by (simp add: cache_get_def ul_get_def cache0_def cache_new_def)

lemma run_codec1:
  "resolve codec1 ul_api 0 5 3 (\<lambda>_. Reply 200 (Ok [9, 9, 5])) [7] cache0 =
     Some (Ok \<lparr>dr_response = set_id 258 [9, 9, 5], dr_cached = False, dr_upstream_status = Some 200,
               dr_upstream_latency_ms = Some 3\<rparr>,
           the (cache_put codec1 ul_api 5 (query0\<lparr>m_id := 258\<rparr>) [9, 9, 5] cache0))"
  by (simp add: resolve_def resolve_begin_def get_codec1 resolve_finish_def is_success_def put_codec1)



text \<open>The addresses that parse, and the host in the configured URL.\<close>

lemma bootstrap_socket_addrs_simps [simp]:
  "bootstrap_socket_addrs ua [] = []"
  "bootstrap_socket_addrs ua (ip # ips) =
     (case u_ip ua ip of None \<Rightarrow> [] | Some a \<Rightarrow> [(a, 443)]) @ bootstrap_socket_addrs ua ips"
  by (simp_all add: bootstrap_socket_addrs_def map_filter_simps split: option.split)

lemma bootstrap_addrs_first:
  "case find (\<lambda>i. u_ip ua i \<noteq> None) ips of
     None \<Rightarrow> bootstrap_socket_addrs ua ips = []
   | Some ip \<Rightarrow> \<exists>rest. bootstrap_socket_addrs ua ips = (the (u_ip ua ip), 443) # rest"
proof (induction ips)
  case (Cons ip ips)
  then show ?case
    by (cases "u_ip ua ip"; cases "find (\<lambda>i. u_ip ua i \<noteq> None) ips") simp_all
qed simp

lemma doh_host_url:
  assumes "47 \<notin> set h"
  shows "doh_host (lit ''https://'' @ h @ 47 # path) = h"
  using assms unfolding doh_host_def before_char_def by (simp, intro takeWhile_append_stop) auto

text \<open>
  C39. Which connections the bootstrap addresses redirect, for a configured URL \<^verbatim>\<open>https://host/path\<close>: exactly
  those whose host is the text between \<^verbatim>\<open>https://\<close> and the next slash, when some bootstrap address
  parses and the first one that does, followed by \<^verbatim>\<open>:443\<close>, is accepted as the authority of a URI; they go to that
  address with the request's path. Every other connection keeps its own address, in particular
  all of them when the configured URL names a port, which the host of a request never contains, and when the
  first address is one the URI builder refuses, such as an IPv6 address without brackets.
\<close>

theorem bootstrap_redirect:
  assumes "47 \<notin> set h"
  shows "connector_call ua (new_connector ua (lit ''https://'' @ h @ 47 # path) ips) uri =
         (case find (\<lambda>i. u_ip ua i \<noteq> None) ips of
            None \<Rightarrow> uri
          | Some ip \<Rightarrow>
              if u_host ua uri = Some h \<or> u_host ua uri = None \<and> h = [] then
                (case u_build ua (lit ''http'') (the (u_ip ua ip) @ lit '':443'')
                        (case u_path_and_query ua uri of Some pq \<Rightarrow> pq | None \<Rightarrow> lit ''/'') of
                   Some target \<Rightarrow> target
                 | None \<Rightarrow> uri)
              else uri) \<and>
         (58 \<in> set h \<longrightarrow> (\<forall>x. u_host ua uri = Some x \<longrightarrow> 58 \<notin> set x) \<longrightarrow>
            connector_call ua (new_connector ua (lit ''https://'' @ h @ 47 # path) ips) uri = uri)"
proof -
  have port: "lit '':'' @ show_nat (unat (443 :: u16)) = lit '':443''"
    by (simp add: show_nat.simps str_simps)
  define host where "host = (case u_host ua uri of Some x \<Rightarrow> x | None \<Rightarrow> [])"
  have same: "u_host ua uri = Some h \<or> u_host ua uri = None \<and> h = [] \<longleftrightarrow> host = h"
    by (auto simp: host_def split: option.split)
  define pq where "pq = (case u_path_and_query ua uri of Some pq \<Rightarrow> pq | None \<Rightarrow> lit ''/'')"
  define addrs where "addrs = bootstrap_socket_addrs ua ips"
  have call: "connector_call ua (new_connector ua (lit ''https://'' @ h @ 47 # path) ips) uri =
      (if host = h \<and> addrs \<noteq> [] then
         (case addrs ! 0 of (ip, port) \<Rightarrow>
            (case u_build ua (lit ''http'') (ip @ lit '':'' @ show_nat (unat port)) pq of
               Some u \<Rightarrow> u | None \<Rightarrow> uri))
       else uri)"
    by (simp add: connector_call_def new_connector_def doh_host_url [OF assms] host_def pq_def addrs_def Let_def)
  have "host \<noteq> h" if "58 \<in> set h" "\<forall>x. u_host ua uri = Some x \<longrightarrow> 58 \<notin> set x"
    using that by (auto simp: host_def split: option.split)
  then show ?thesis
    unfolding call same pq_def [symmetric]
    using bootstrap_addrs_first [of ua ips, folded addrs_def] port
    by (cases "find (\<lambda>i. u_ip ua i \<noteq> None) ips") auto
qed

text \<open>
  URI functions with one host, two addresses, of which the one with a colon is refused as an authority,
  and no address for anything else.
\<close>

definition uri0 :: uri_api where
  "uri0 = \<lparr>u_host = (\<lambda>_. Some [100]), u_path_and_query = (\<lambda>_. Some [47]),
     u_build = (\<lambda>s a p. if a = lit ''::1:443'' then None else Some (s @ a @ p)),
     u_ip = (\<lambda>s. if s = [49] \<or> s = lit ''::1'' then Some s else None)\<rparr>"

theorem bootstrap_redirect_witness:
  "connector_call uri0 (new_connector uri0 (lit ''https://'' @ [100] @ 47 # [113]) [[120], [49]]) [1, 2, 3] =
     lit ''http'' @ ([49] @ lit '':443'') @ [47] \<and>
   connector_call uri0 (new_connector uri0 (lit ''https://'' @ [100] @ 47 # [113]) [lit ''::1'', [49]]) [1, 2, 3] =
     [1, 2, 3] \<and>
   connector_call uri0 (new_connector uri0 (lit ''https://'' @ lit ''d:99'' @ 47 # [113]) [[49]]) [1, 2, 3] =
     [1, 2, 3]"
  using bootstrap_redirect [of "[100]" uri0 "[113]" "[[120], [49]]" "[1, 2, 3]"]
    bootstrap_redirect [of "[100]" uri0 "[113]" "[lit ''::1'', [49]]" "[1, 2, 3]"]
    bootstrap_redirect [of "lit ''d:99''" uri0 "[113]" "[[49]]" "[1, 2, 3]"]
  by (simp add: uri0_def str_simps)

end
