(* ===== verification/Calendar.thy ===== *)
theory Calendar
  imports Rust_Str
begin

text \<open>
  The time stamps of the query log, \<^verbatim>\<open>rfc3339\<close> and \<^verbatim>\<open>days_to_date\<close> of \<^verbatim>\<open>zebrafish-dns/src/query_log.rs\<close>, against the
  Gregorian calendar given by its rule for the next day. The arithmetic of the source is on \<^verbatim>\<open>u64\<close> and
  \<^verbatim>\<open>i64\<close>; its operands stay far inside those types for every time a 64-bit second counter can hold,
  and no subtraction goes below zero, so natural numbers model it; the last cast to \<^verbatim>\<open>i32\<close> is written out.
\<close>

section \<open>Definitions\<close>

definition as_i32 :: "int \<Rightarrow> int" where
  "as_i32 x = (x + 2 ^ 31) mod 2 ^ 32 - 2 ^ 31"

definition days_to_date :: "nat \<Rightarrow> int \<times> nat \<times> nat" where
  "days_to_date days =
     (let z = days + 719468;
          era = z div 146097;
          doe = z - era * 146097;
          yoe = (doe - doe div 1460 + doe div 36524 - doe div 146096) div 365;
          y = yoe + era * 400;
          doy = doe - (365 * yoe + yoe div 4 - yoe div 100);
          mp = (5 * doy + 2) div 153;
          d = doy - (153 * mp + 2) div 5 + 1;
          m = (if mp < 10 then mp + 3 else mp - 9);
          y' = (if m \<le> 2 then y + 1 else y)
      in (as_i32 (int y'), m, d))"

text \<open>\<^verbatim>\<open>{:04}\<close> and its kin: decimal, padded with zeros after the sign.\<close>

definition pad :: "nat \<Rightarrow> nat \<Rightarrow> rstr" where
  "pad w n = replicate (w - length (show_nat n)) 48 @ show_nat n"

definition pad_int :: "nat \<Rightarrow> int \<Rightarrow> rstr" where
  "pad_int w i = (if i < 0 then 45 # pad (w - 1) (nat (- i)) else pad w (nat i))"

definition rfc3339 :: "nat \<Rightarrow> nat \<Rightarrow> rstr" where
  "rfc3339 total_secs millis =
     (case days_to_date (total_secs div 86400) of (y, m, d) \<Rightarrow>
        let t = total_secs mod 86400;
            h = t div 3600;
            mi = (t mod 3600) div 60;
            s = t mod 60
        in pad_int 4 y @ lit ''-'' @ pad 2 m @ lit ''-'' @ pad 2 d @ lit ''T'' @
           pad 2 h @ lit '':'' @ pad 2 mi @ lit '':'' @ pad 2 s @ lit ''.'' @ pad 3 millis @ lit ''Z'')"

section \<open>The Gregorian calendar\<close>

definition leap :: "int \<Rightarrow> bool" where
  "leap y \<longleftrightarrow> y mod 4 = 0 \<and> (y mod 100 \<noteq> 0 \<or> y mod 400 = 0)"

definition month_length :: "int \<Rightarrow> nat \<Rightarrow> nat" where
  "month_length y m =
     (if m = 2 then (if leap y then 29 else 28)
      else if m \<in> {4, 6, 9, 11} then 30 else 31)"

fun next_day :: "int \<times> nat \<times> nat \<Rightarrow> int \<times> nat \<times> nat" where
  "next_day (y, m, d) =
     (if d < month_length y m then (y, m, d + 1)
      else if m < 12 then (y, m + 1, 1)
      else (y + 1, 1, 1))"

section \<open>Years that start in March\<close>

text \<open>
  The source counts years from the first of March. Such a year \<open>Y\<close> starts \<open>year_start Y\<close> days after
  the first of March of the year 0 and has a leap day at its end when \<open>Y + 1\<close> is a leap year.
\<close>

definition year_start :: "nat \<Rightarrow> nat" where
  "year_start y = 365 * y + y div 4 - y div 100 + y div 400"

definition year_len :: "nat \<Rightarrow> nat" where
  "year_len y = (if leap (1 + int y) then 366 else 365)"

text \<open>A year by its era, century, cycle of four and position in the cycle.\<close>

lemma year_split:
  fixes y :: nat
  obtains e c q r where "y = 400 * e + 100 * c + 4 * q + r" "c \<le> 3" "q \<le> 24" "r \<le> 3"
proof
  define x w where "x = y mod 400" and "w = x mod 100"
  have "y = 400 * (y div 400) + x" "x = 100 * (x div 100) + w" "w = 4 * (w div 4) + w mod 4"
    by (simp_all add: x_def w_def)
  then show "y = 400 * (y div 400) + 100 * (x div 100) + 4 * (w div 4) + w mod 4" by linarith
  have "x < 400" "w < 100" "w mod 4 < 4" by (simp_all add: x_def w_def)
  then show "x div 100 \<le> 3" "w div 4 \<le> 24" "w mod 4 \<le> 3" by linarith+
qed

text \<open>Dividing the parts of a year.\<close>

lemma div_mod_part:
  fixes k :: nat
  shows "r < k \<Longrightarrow> y = k * a + r \<Longrightarrow> y div k = a" and "r < k \<Longrightarrow> y = k * a + r \<Longrightarrow> y mod k = r"
  by simp_all

lemma year_start_split:
  assumes "c \<le> 3" "q \<le> 24" "r \<le> 3"
  shows "year_start (400 * e + 100 * c + 4 * q + r) = 146097 * e + 36524 * c + 1461 * q + 365 * r"
proof -
  let ?y = "400 * e + 100 * c + 4 * q + r"
  have "?y div 4 = 100 * e + 25 * c + q" using assms by (intro div_mod_part(1) [of r]) simp_all
  moreover have "?y div 100 = 4 * e + c" using assms by (intro div_mod_part(1) [of "4 * q + r"]) simp_all
  moreover have "?y div 400 = e" using assms by (intro div_mod_part(1) [of "100 * c + 4 * q + r"]) simp_all
  ultimately show ?thesis by (simp add: year_start_def)
qed

lemma leap_nat: "leap (int n) \<longleftrightarrow> n mod 4 = 0 \<and> (n mod 100 \<noteq> 0 \<or> n mod 400 = 0)"
proof -
  have "int n mod 4 = int (n mod 4)" "int n mod 100 = int (n mod 100)" "int n mod 400 = int (n mod 400)"
    by (simp_all add: zmod_int)
  then show ?thesis unfolding leap_def by (simp only: of_nat_eq_0_iff)
qed

lemma year_len_split:
  assumes "c \<le> 3" "q \<le> 24" "r \<le> 3"
  shows "year_len (400 * e + 100 * c + 4 * q + r) =
           (if r = 3 \<and> (q < 24 \<or> c = 3) then 366 else 365)"
proof -
  let ?n = "400 * e + 100 * c + 4 * q + r + 1"
  have "leap (int ?n) \<longleftrightarrow> r = 3 \<and> (q < 24 \<or> c = 3)"
  proof (cases "r = 3")
    case False
    then have "?n mod 4 = r + 1" using assms by (intro div_mod_part(2) [of _ _ _ "100 * e + 25 * c + q"]) simp_all
    with False show ?thesis by (simp only: leap_nat) simp
  next
    case r: True
    then have four: "?n mod 4 = 0" by (intro div_mod_part(2) [of _ _ _ "100 * e + 25 * c + q + 1"]) simp_all
    show ?thesis
    proof (cases "q < 24")
      case True
      then have "?n mod 100 = 4 * q + 4"
        using r by (intro div_mod_part(2) [of _ _ _ "4 * e + c"]) simp_all
      with four r True show ?thesis by (simp only: leap_nat) simp
    next
      case False
      then have q: "q = 24" using assms by simp
      then have hundred: "?n mod 100 = 0"
        using r by (intro div_mod_part(2) [of _ _ _ "4 * e + c + 1"]) simp_all
      have "?n mod 400 = 0 \<longleftrightarrow> c = 3"
      proof (cases "c = 3")
        case True
        then have "?n mod 400 = 0"
          using r q by (intro div_mod_part(2) [of _ _ _ "e + 1"]) simp_all
        with True show ?thesis by simp
      next
        case False
        then have "?n mod 400 = 100 * c + 100"
          using r q assms by (intro div_mod_part(2) [of _ _ _ e]) simp_all
        with False show ?thesis by simp
      qed
      with four hundred r q show ?thesis by (simp only: leap_nat) simp
    qed
  qed
  then show ?thesis by (simp add: year_len_def algebra_simps)
qed

lemma year_start_Suc: "year_start (Suc y) = year_start y + year_len y"
proof -
  obtain e c q r where y: "y = 400 * e + 100 * c + 4 * q + r" "c \<le> 3" "q \<le> 24" "r \<le> 3"
    by (rule year_split)
  have here: "year_start y = 146097 * e + 36524 * c + 1461 * q + 365 * r"
    "year_len y = (if r = 3 \<and> (q < 24 \<or> c = 3) then 366 else 365)"
    using y by (simp_all only: year_start_split year_len_split)
  consider "r < 3" | "r = 3" "q < 24" | "r = 3" "q = 24" "c < 3" | "r = 3" "q = 24" "c = 3"
    using y by linarith
  then show ?thesis
  proof cases
    case 1
    then have "year_start (Suc y) = 146097 * e + 36524 * c + 1461 * q + 365 * (r + 1)"
      using year_start_split [of c q "r + 1" e] y by simp
    with 1 here show ?thesis by simp
  next
    case 2
    then have "year_start (Suc y) = 146097 * e + 36524 * c + 1461 * (q + 1)"
      using year_start_split [of c "q + 1" 0 e] y by (simp add: ac_simps)
    with 2 here show ?thesis by simp
  next
    case 3
    then have "year_start (Suc y) = 146097 * e + 36524 * (c + 1)"
      using year_start_split [of "c + 1" 0 0 e] y by (simp add: ac_simps)
    with 3 here show ?thesis by simp
  next
    case 4
    then have "year_start (Suc y) = 146097 * (e + 1)"
      using year_start_split [of 0 0 0 "e + 1"] y by simp
    with 4 here show ?thesis by simp
  qed
qed

text \<open>The year of an era as the source computes it.\<close>

lemma year_of_era:
  fixes c q r doy doe :: nat
  assumes "c \<le> 3" "q \<le> 24" "r \<le> 3" "doy < (if r = 3 \<and> (q < 24 \<or> c = 3) then 366 else 365)"
    and "doe = 36524 * c + 1461 * q + 365 * r + doy"
  shows "(doe - doe div 1460 + doe div 36524 - doe div 146096) div 365 = 100 * c + 4 * q + r"
    and "doe < 146097"
proof -
  define e where "e = (24 * c + q + 365 * r + doy) div 1460"
  have "doe = 1460 * (25 * c + q) + (24 * c + q + 365 * r + doy)" using assms(5) by simp
  then have a: "doe div 1460 = 25 * c + q + e" by (simp only: div_mult_self4 e_def)
  have b: "doe div 36524 = c + doe div 146096"
  proof (cases "doe = 146096")
    case True
    then show ?thesis using assms by (auto split: if_split_asm)
  next
    case False
    then have "1461 * q + 365 * r + doy < 36524" using assms by (auto split: if_split_asm)
    moreover from this have "doe < 146096" using assms by simp
    ultimately show ?thesis using assms(5) by simp
  qed
  have e: "e \<le> doy" "doy < 365 + e"
    using assms(1-4) unfolding e_def by (auto split: if_split_asm)
  show "doe < 146097" using assms by (auto split: if_split_asm)
  have "doe - doe div 1460 + doe div 36524 - doe div 146096 = 365 * (100 * c + 4 * q + r) + (doy - e)"
    using a b e(1) assms(5) by simp
  then show "(doe - doe div 1460 + doe div 36524 - doe div 146096) div 365 = 100 * c + 4 * q + r"
    using e by simp
qed

section \<open>Months of a March year\<close>

definition month_at :: "nat \<Rightarrow> nat \<Rightarrow> nat \<times> nat" where
  "month_at mp doy = (if mp < 10 then mp + 3 else mp - 9, doy - (153 * mp + 2) div 5 + 1)"

definition month_day :: "nat \<Rightarrow> nat \<times> nat" where
  "month_day doy = month_at ((5 * doy + 2) div 153) doy"

lemma month_at_div:
  "153 * mp \<le> 5 * doy + 2 \<Longrightarrow> 5 * doy + 2 < 153 * Suc mp \<Longrightarrow> month_day doy = month_at mp doy"
  by (simp only: month_day_def div_nat_eqI)

text \<open>The twelve months, from March to a February of up to 29 days.\<close>

lemma month_day_eqs:
  "doy \<le> 30 \<Longrightarrow> month_day doy = (3, doy + 1)"
  "31 \<le> doy \<Longrightarrow> doy \<le> 60 \<Longrightarrow> month_day doy = (4, doy - 30)"
  "61 \<le> doy \<Longrightarrow> doy \<le> 91 \<Longrightarrow> month_day doy = (5, doy - 60)"
  "92 \<le> doy \<Longrightarrow> doy \<le> 121 \<Longrightarrow> month_day doy = (6, doy - 91)"
  "122 \<le> doy \<Longrightarrow> doy \<le> 152 \<Longrightarrow> month_day doy = (7, doy - 121)"
  "153 \<le> doy \<Longrightarrow> doy \<le> 183 \<Longrightarrow> month_day doy = (8, doy - 152)"
  "184 \<le> doy \<Longrightarrow> doy \<le> 213 \<Longrightarrow> month_day doy = (9, doy - 183)"
  "214 \<le> doy \<Longrightarrow> doy \<le> 244 \<Longrightarrow> month_day doy = (10, doy - 213)"
  "245 \<le> doy \<Longrightarrow> doy \<le> 274 \<Longrightarrow> month_day doy = (11, doy - 244)"
  "275 \<le> doy \<Longrightarrow> doy \<le> 305 \<Longrightarrow> month_day doy = (12, doy - 274)"
  "306 \<le> doy \<Longrightarrow> doy \<le> 336 \<Longrightarrow> month_day doy = (1, doy - 305)"
  "337 \<le> doy \<Longrightarrow> doy \<le> 365 \<Longrightarrow> month_day doy = (2, doy - 336)"
  by (subst month_at_div [of 0], simp, simp, simp add: month_at_def,
      subst month_at_div [of 1], simp, simp, simp add: month_at_def,
      subst month_at_div [of 2], simp, simp, simp add: month_at_def,
      subst month_at_div [of 3], simp, simp, simp add: month_at_def,
      subst month_at_div [of 4], simp, simp, simp add: month_at_def,
      subst month_at_div [of 5], simp, simp, simp add: month_at_def,
      subst month_at_div [of 6], simp, simp, simp add: month_at_def,
      subst month_at_div [of 7], simp, simp, simp add: month_at_def,
      subst month_at_div [of 8], simp, simp, simp add: month_at_def,
      subst month_at_div [of 9], simp, simp, simp add: month_at_def,
      subst month_at_div [of 10], simp, simp, simp add: month_at_def,
      subst month_at_div [of 11], simp, simp, simp add: month_at_def)

lemma month_day_table:
  assumes "doy \<le> 365"
  shows "month_day doy =
    (if doy \<le> 30 then (3, doy + 1)
     else if doy \<le> 60 then (4, doy - 30)
     else if doy \<le> 91 then (5, doy - 60)
     else if doy \<le> 121 then (6, doy - 91)
     else if doy \<le> 152 then (7, doy - 121)
     else if doy \<le> 183 then (8, doy - 152)
     else if doy \<le> 213 then (9, doy - 183)
     else if doy \<le> 244 then (10, doy - 213)
     else if doy \<le> 274 then (11, doy - 244)
     else if doy \<le> 305 then (12, doy - 274)
     else if doy \<le> 336 then (1, doy - 305)
     else (2, doy - 336))"
  using assms by (simp add: month_day_eqs)

text \<open>Walking through a March year day by day.\<close>

lemma month_day_Suc:
  assumes "doy < 365" and "month_day doy = (m, d)"
  shows "month_day (Suc doy) =
    (if d < (if m = 2 then 29 else if m \<in> {4, 6, 9, 11} then 30 else 31) then (m, d + 1)
     else if m < 12 then (m + 1, 1) else (1, 1))"
  using assms by (auto simp: month_day_table split: if_split_asm)

section \<open>The source's conversion\<close>

text \<open>The calendar date of a day of a March year.\<close>

definition civil :: "nat \<Rightarrow> nat \<Rightarrow> int \<times> nat \<times> nat" where
  "civil y doy = (case month_day doy of (m, d) \<Rightarrow> (int (if m \<le> 2 then y + 1 else y), m, d))"

lemma days_to_date_civil:
  assumes "n + 719468 = year_start y + doy" and "doy < year_len y"
  shows "days_to_date n = (as_i32 (fst (civil y doy)), snd (civil y doy))"
proof -
  obtain e c q r where y: "y = 400 * e + 100 * c + 4 * q + r" "c \<le> 3" "q \<le> 24" "r \<le> 3"
    by (rule year_split)
  define doe where "doe = 36524 * c + 1461 * q + 365 * r + doy"
  have doy: "doy < (if r = 3 \<and> (q < 24 \<or> c = 3) then 366 else 365)"
    using assms(2) y by (simp only: year_len_split)
  note yoe = year_of_era [OF y(2-4) doy doe_def]
  have z: "n + 719468 = 146097 * e + doe"
    using assms(1) y unfolding doe_def by (simp only: year_start_split)
  have era: "(n + 719468) div 146097 = e" using z yoe(2) by (intro div_mod_part(1) [of doe]) simp_all
  have "(100 * c + 4 * q + r) div 4 = 25 * c + q" using y by (intro div_mod_part(1) [of r]) simp_all
  moreover have "(100 * c + 4 * q + r) div 100 = c"
    using y by (intro div_mod_part(1) [of "4 * q + r"]) simp_all
  ultimately have rest: "doe - (365 * (100 * c + 4 * q + r) + (100 * c + 4 * q + r) div 4
      - (100 * c + 4 * q + r) div 100) = doy"
    by (simp add: doe_def)
  have doe: "n + 719468 - e * 146097 = doe" using z by simp
  have year: "100 * c + 4 * q + r + e * 400 = y" using y(1) by simp
  show ?thesis
    unfolding days_to_date_def Let_def era doe yoe(1) rest year
    by (simp add: civil_def month_day_def month_at_def)
qed

lemma next_day_civil:
  assumes "doy < year_len y"
  shows "next_day (civil y doy) =
    (if Suc doy < year_len y then civil y (Suc doy) else civil (Suc y) 0)"
proof -
  obtain m d where md: "month_day doy = (m, d)" by (cases "month_day doy")
  have le: "doy \<le> 365" using assms by (simp add: year_len_def split: if_split_asm)
  have feb: "m = 2 \<Longrightarrow> d = doy - 336 \<and> 337 \<le> doy"
    using md le by (simp add: month_day_table split: if_split_asm)
  show ?thesis
  proof (cases "Suc doy < year_len y")
    case True
    then have "doy < 365" by (simp add: year_len_def split: if_split_asm)
    from month_day_Suc [OF this md] True md feb show ?thesis
      by (auto simp: civil_def month_length_def year_len_def split: if_split_asm)
  next
    case False
    with assms le have "doy = year_len y - 1" "doy = 364 \<or> doy = 365"
      by (auto simp: year_len_def split: if_split_asm)
    then show ?thesis
      using False md by (auto simp: civil_def month_length_def year_len_def month_day_table
          split: if_split_asm)
  qed
qed

lemma calendar_run:
  "\<exists>y doy. n + 719468 = year_start y + doy \<and> doy < year_len y \<and>
     (next_day ^^ n) (1970, 1, 1) = civil y doy"
proof (induction n)
  case 0
  have "year_start 1969 + 306 = 719468" by (simp add: year_start_def)
  moreover have "306 < year_len 1969" by (simp add: year_len_def)
  moreover have "civil 1969 306 = (1970, 1, 1)" by (simp add: civil_def month_day_table)
  ultimately show ?case by (intro exI [of _ 1969] exI [of _ 306]) simp
next
  case (Suc n)
  then obtain y doy where ih: "n + 719468 = year_start y + doy" "doy < year_len y"
      "(next_day ^^ n) (1970, 1, 1) = civil y doy" by blast
  have "year_len (Suc y) > 0" by (simp add: year_len_def)
  show ?case
  proof (cases "Suc doy < year_len y")
    case True
    with ih next_day_civil [OF ih(2)] show ?thesis
      by (intro exI [of _ y] exI [of _ "Suc doy"]) simp
  next
    case False
    then have "Suc doy = year_len y" using ih(2) by simp
    with ih False next_day_civil [OF ih(2)] year_start_Suc [of y] \<open>year_len (Suc y) > 0\<close> show ?thesis
      by (intro exI [of _ "Suc y"] exI [of _ 0]) simp
  qed
qed

lemma as_i32_small: "0 \<le> x \<Longrightarrow> x < 2 ^ 31 \<Longrightarrow> as_i32 x = x"
  by (simp add: as_i32_def)

lemma year_start_mono: "x \<le> y \<Longrightarrow> year_start x \<le> year_start y"
  by (induction y) (auto simp: le_Suc_eq year_start_Suc)

lemma month_day_bounds: "doy \<le> 365 \<Longrightarrow> month_day doy = (m, d) \<Longrightarrow> m \<le> 12 \<and> d \<le> 31"
  by (auto simp: month_day_table split: if_split_asm)

text \<open>Dates before the year 10000.\<close>

lemma days_to_date_small:
  assumes "n < 2932897"
  obtains y m d where "days_to_date n = (int y, m, d)" "y < 10000" "m \<le> 12" "d \<le> 31"
proof -
  obtain y doy where run: "n + 719468 = year_start y + doy" "doy < year_len y"
    using calendar_run by blast
  obtain m d where md: "month_day doy = (m, d)" by (cases "month_day doy")
  have doy: "doy \<le> 365" using run(2) by (simp add: year_len_def split: if_split_asm)
  have start: "year_start 9999 = 3652059" "year_start 10000 = 3652425" by (simp_all add: year_start_def)
  have "y \<le> 9999" using year_start_mono [of 10000 y] start run(1) assms by (cases "10000 \<le> y") simp_all
  moreover have "\<not> m \<le> 2" if "y = 9999"
    using that run(1) assms start md doy by (auto simp: month_day_table split: if_split_asm)
  ultimately have small: "(if m \<le> 2 then y + 1 else y) < 10000" by (cases "y = 9999") auto
  have "days_to_date n = (int (if m \<le> 2 then y + 1 else y), m, d)"
    using days_to_date_civil [OF run] md small by (simp add: civil_def as_i32_def split: if_split_asm)
  with small month_day_bounds [OF doy md] that show ?thesis by blast
qed

lemma length_show_nat: "n < 10 ^ w \<Longrightarrow> 0 < w \<Longrightarrow> length (show_nat n) \<le> w"
proof (induction n arbitrary: w rule: show_nat.induct)
  case (1 n)
  show ?case
  proof (cases "n < 10")
    case True
    then show ?thesis using "1.prems" by (simp add: show_nat.simps [of n])
  next
    case False
    then obtain w' where w: "w = Suc w'" "0 < w'"
      using "1.prems" by (cases w; cases "w - 1") (auto simp: less_Suc_eq_0_disj)
    with False "1.prems" have "length (show_nat (n div 10)) \<le> w'"
      by (intro "1.IH") (simp_all add: less_mult_imp_div_less mult.commute)
    with False w show ?thesis by (simp add: show_nat.simps [of n])
  qed
qed

lemma length_pad: "n < 10 ^ w \<Longrightarrow> 0 < w \<Longrightarrow> length (pad w n) = w"
  using length_show_nat [of n w] by (simp add: pad_def)

section \<open>Properties\<close>

text \<open>
  C24. The date of a log entry is the Gregorian date: counting days from the first of January 1970
  with the calendar's own rule for the next day gives, after every number of days up to \<open>2 ^ 39\<close>
  (a billion years), the year, month and day the source computes.
\<close>

theorem days_to_date_gregorian:
  assumes "n \<le> 2 ^ 39"
  shows "days_to_date n = (next_day ^^ n) (1970, 1, 1)"
proof -
  obtain y doy where run: "n + 719468 = year_start y + doy" "doy < year_len y"
      "(next_day ^^ n) (1970, 1, 1) = civil y doy"
    using calendar_run by blast
  have "365 * y \<le> year_start y" by (simp add: year_start_def)
  then have "y < 2 ^ 31 - 1" using run(1) assms by simp
  then have "as_i32 (fst (civil y doy)) = fst (civil y doy)"
    by (intro as_i32_small) (auto simp: civil_def split: prod.split)
  with days_to_date_civil [OF run(1,2)] run(3) show ?thesis by simp
qed

theorem days_to_date_gregorian_witness: "(next_day ^^ 59) (1970, 1, 1) = (1970, 3, 1)"
proof -
  have "59 + 719468 = year_start 1970 + 0" "0 < year_len 1970"
    by (simp_all add: year_start_def year_len_def)
  from days_to_date_civil [OF this] have "days_to_date 59 = (1970, 3, 1)"
    by (simp add: civil_def month_day_table as_i32_def)
  moreover have "days_to_date 59 = (next_day ^^ 59) (1970, 1, 1)"
    by (rule days_to_date_gregorian) simp
  ultimately show ?thesis by (simp only:)
qed

text \<open>
  Until the end of the year 9999 every time stamp has the fixed width of 24 characters, and its
  hour, minute and second are the time of day: below 24, 60 and 60, and together the seconds
  since midnight.
\<close>

lemma rfc3339_fields:
  assumes "secs < 253402300800" and "millis < 1000"
  shows "length (rfc3339 secs millis) = 24 \<and>
    (\<exists>y m d h mi s. days_to_date (secs div 86400) = (int y, m, d) \<and>
       h < 24 \<and> mi < 60 \<and> s < 60 \<and> secs = 86400 * (secs div 86400) + 3600 * h + 60 * mi + s \<and>
       rfc3339 secs millis = pad 4 y @ lit ''-'' @ pad 2 m @ lit ''-'' @ pad 2 d @ lit ''T'' @
         pad 2 h @ lit '':'' @ pad 2 mi @ lit '':'' @ pad 2 s @ lit ''.'' @ pad 3 millis @ lit ''Z'')"
proof -
  have "secs div 86400 < 2932897" using assms(1) by (intro less_mult_imp_div_less) simp
  then obtain y m d where date: "days_to_date (secs div 86400) = (int y, m, d)"
      "y < 10000" "m \<le> 12" "d \<le> 31" by (rule days_to_date_small)
  define t h mi s where "t = secs mod 86400" and "h = t div 3600" and "mi = t mod 3600 div 60"
    and "s = t mod 60"
  have t: "t < 86400" by (simp add: t_def)
  have "h < 24" "mi < 60" "s < 60"
    using t by (simp_all add: h_def mi_def s_def less_mult_imp_div_less)
  moreover have "t = 3600 * h + t mod 3600" by (simp add: h_def)
  moreover have "t mod 3600 = 60 * mi + t mod 3600 mod 60" by (simp add: mi_def)
  moreover have "t mod 3600 mod 60 = s" by (simp add: s_def mod_mod_cancel)
  moreover have "secs = 86400 * (secs div 86400) + t" by (simp add: t_def)
  ultimately have hms: "h < 24" "mi < 60" "s < 60"
      "secs = 86400 * (secs div 86400) + 3600 * h + 60 * mi + s" by linarith+
  have text24: "rfc3339 secs millis = pad 4 y @ lit ''-'' @ pad 2 m @ lit ''-'' @ pad 2 d @ lit ''T'' @
         pad 2 h @ lit '':'' @ pad 2 mi @ lit '':'' @ pad 2 s @ lit ''.'' @ pad 3 millis @ lit ''Z''"
    by (simp add: rfc3339_def date Let_def pad_int_def t_def h_def mi_def s_def)
  have "length (rfc3339 secs millis) = 24"
    unfolding text24 using date hms(1-3) assms(2) by (simp add: length_pad)
  then show ?thesis
    using date(1) hms text24
    by (intro conjI exI [of _ y] exI [of _ m] exI [of _ d] exI [of _ h] exI [of _ mi] exI [of _ s])
qed

end
