(* ===== verification/Query_Log.thy ===== *)
theory Query_Log
  imports Calendar Dns_Msg Rust_Fs
begin

text \<open>
  The query log, \<^verbatim>\<open>zebrafish-dns/src/query_log.rs\<close>: the entry with the fields its derived serialiser emits, the
  logger with its writer behind a mutex, and the two logging functions. The JSON printer of
  \<^verbatim>\<open>serde_json\<close> is a parameter; a writer is a place of the outside world that text is appended to, and a
  refused write may leave a prefix behind. The open file is addressed by its name: nobody renames it
  meanwhile.
\<close>

section \<open>Entries\<close>

record query_log_entry =
  le_timestamp :: rstr
  le_client_ip :: rstr
  le_client_port :: u16
  le_protocol :: rstr
  le_query_id :: u16
  le_qname :: rstr
  le_qtype :: rstr
  le_qclass :: rstr
  le_response_code :: rstr
  le_answer_count :: u16
  le_authority_count :: u16
  le_additional_count :: u16
  le_query_size :: nat
  le_response_size :: nat
  le_cached :: bool
  le_upstream_status :: "u16 option"
  le_upstream_latency_ms :: "u64 option"
  le_total_latency_ms :: u64
  le_pid :: u32

datatype json = JStr rstr | JNum nat | JBool bool

definition json_opt :: "string \<Rightarrow> ('w :: len) word option \<Rightarrow> (rstr \<times> json) list" where
  "json_opt name x = (case x of None \<Rightarrow> [] | Some w \<Rightarrow> [(lit name, JNum (unat w))])"

text \<open>The members in declaration order; the two optional ones are skipped when absent.\<close>

definition ser_entry :: "query_log_entry \<Rightarrow> (rstr \<times> json) list" where
  "ser_entry e =
     [(lit ''timestamp'', JStr (le_timestamp e)),
      (lit ''client_ip'', JStr (le_client_ip e)),
      (lit ''client_port'', JNum (unat (le_client_port e))),
      (lit ''protocol'', JStr (le_protocol e)),
      (lit ''query_id'', JNum (unat (le_query_id e))),
      (lit ''qname'', JStr (le_qname e)),
      (lit ''qtype'', JStr (le_qtype e)),
      (lit ''qclass'', JStr (le_qclass e)),
      (lit ''response_code'', JStr (le_response_code e)),
      (lit ''answer_count'', JNum (unat (le_answer_count e))),
      (lit ''authority_count'', JNum (unat (le_authority_count e))),
      (lit ''additional_count'', JNum (unat (le_additional_count e))),
      (lit ''query_size'', JNum (le_query_size e)),
      (lit ''response_size'', JNum (le_response_size e)),
      (lit ''cached'', JBool (le_cached e))] @
     json_opt ''upstream_status'' (le_upstream_status e) @
     json_opt ''upstream_latency_ms'' (le_upstream_latency_ms e) @
     [(lit ''total_latency_ms'', JNum (unat (le_total_latency_ms e))),
      (lit ''pid'', JNum (unat (le_pid e)))]"

type_synonym json_printer = "(rstr \<times> json) list \<Rightarrow> rstr option"

section \<open>The logger\<close>

datatype log_sink = ToNull | ToStdout | ToFile path

text \<open>The outside world of the log: the files, and what standard output has received.\<close>

record log_io =
  li_fs :: fsys
  li_out :: rstr
  li_out_fault :: "nat option"

record query_logger =
  ql_enabled :: bool
  ql_writer :: log_sink
  ql_poisoned :: bool
  ql_pid :: u32

definition logger_disabled :: query_logger where
  "logger_disabled = \<lparr>ql_enabled = False, ql_writer = ToNull, ql_poisoned = False, ql_pid = 0\<rparr>"

text \<open>Opening for append creates a missing file and keeps what an existing one holds.\<close>

definition open_append :: "path \<Rightarrow> fsys \<Rightarrow> (io_error, unit) result \<times> fsys" where
  "open_append p fs =
     (let k = path_key p
      in if fs_is_dir fs k then (Err (Refused (lit ''Is a directory'')), fs)
         else if \<not> fs_is_dir fs (fst k, butlast (snd k)) then (Err NotFound, fs)
         else case fs_write_fault fs k of
                Some (c, None) \<Rightarrow> (Err (Refused c), fs)
              | _ \<Rightarrow> (Ok (), if fs_file fs k = None then set_node k (FileNode []) fs else fs))"

definition logger_new :: "u32 \<Rightarrow> rstr option \<Rightarrow> fsys \<Rightarrow> (io_error, query_logger) result \<times> fsys" where
  "logger_new pid output fs =
     (let opened = (case output of
                      None \<Rightarrow> (Ok ToStdout, fs)
                    | Some p \<Rightarrow>
                        if p = [] \<or> p = lit ''-'' then (Ok ToStdout, fs)
                        else
                          (case open_append p fs of
                             (Inl e, fs') \<Rightarrow> (Err e, fs')
                           | (Inr _, fs') \<Rightarrow> (Ok (ToFile p), fs')))
      in case opened of
           (Inl e, fs') \<Rightarrow> (Err e, fs')
         | (Inr w, fs') \<Rightarrow>
             (Ok \<lparr>ql_enabled = True, ql_writer = w, ql_poisoned = False, ql_pid = pid\<rparr>, fs'))"

definition append_file :: "path \<Rightarrow> rstr \<Rightarrow> fsys \<Rightarrow> fsys" where
  "append_file p t fs =
     (let k = path_key p; old = (case fs_file fs k of None \<Rightarrow> [] | Some s \<Rightarrow> s)
      in case fs_write_fault fs k of
           None \<Rightarrow> set_node k (FileNode (old @ t)) fs
         | Some (c, None) \<Rightarrow> fs
         | Some (c, Some n) \<Rightarrow> set_node k (FileNode (old @ take n t)) fs)"

fun write_sink :: "log_sink \<Rightarrow> rstr \<Rightarrow> log_io \<Rightarrow> log_io" where
  "write_sink ToNull t io = io"
| "write_sink ToStdout t io =
     io\<lparr>li_out := li_out io @ (case li_out_fault io of None \<Rightarrow> t | Some n \<Rightarrow> take n t)\<rparr>"
| "write_sink (ToFile p) t io = io\<lparr>li_fs := append_file p t (li_fs io)\<rparr>"

definition log_entry :: "json_printer \<Rightarrow> query_logger \<Rightarrow> query_log_entry \<Rightarrow> log_io \<Rightarrow> log_io" where
  "log_entry js lg e io =
     (if \<not> ql_enabled lg then io
      else if ql_poisoned lg then io
      else
        (case js (ser_entry e) of
           None \<Rightarrow> io
         | Some t \<Rightarrow> write_sink (ql_writer lg) (t @ [10]) io))"

text \<open>The arguments of \<^verbatim>\<open>log\<close>, with the clock it reads.\<close>

record log_call =
  lc_secs :: nat
  lc_millis :: nat
  lc_client_ip :: rstr
  lc_client_port :: u16
  lc_protocol :: rstr
  lc_query :: bytes
  lc_response :: bytes
  lc_cached :: bool
  lc_upstream_status :: "u16 option"
  lc_upstream_latency_ms :: "u64 option"
  lc_total_latency_ms :: u64

definition ok_opt :: "('e, 'a) result \<Rightarrow> 'a option" where
  "ok_opt r = (case r of Inl _ \<Rightarrow> None | Inr a \<Rightarrow> Some a)"

definition map_or :: "'b \<Rightarrow> ('a \<Rightarrow> 'b) \<Rightarrow> 'a option \<Rightarrow> 'b" where
  "map_or d f x = (case x of None \<Rightarrow> d | Some a \<Rightarrow> f a)"

definition make_entry :: "dns_codec \<Rightarrow> query_logger \<Rightarrow> log_call \<Rightarrow> query_log_entry" where
  "make_entry dc lg a =
     (let query_msg = ok_opt (from_vec dc (lc_query a));
          resp_msg = ok_opt (from_vec dc (lc_response a));
          query = Option.bind query_msg first_query
      in \<lparr>le_timestamp = rfc3339 (lc_secs a) (lc_millis a),
          le_client_ip = lc_client_ip a,
          le_client_port = lc_client_port a,
          le_protocol = lc_protocol a,
          le_query_id = map_or 0 m_id query_msg,
          le_qname = map_or [] (\<lambda>q. name_text dc (q_name q)) query,
          le_qtype = map_or [] (\<lambda>q. type_text dc (q_type q)) query,
          le_qclass = map_or [] (\<lambda>q. class_text dc (q_class q)) query,
          le_response_code = map_or [] (\<lambda>m. rcode_text dc (m_rcode m)) resp_msg,
          le_answer_count = map_or 0 (\<lambda>m. word_of_nat (length (m_answers m))) resp_msg,
          le_authority_count = map_or 0 (\<lambda>m. word_of_nat (length (m_name_servers m))) resp_msg,
          le_additional_count = map_or 0 (\<lambda>m. word_of_nat (length (m_additionals m))) resp_msg,
          le_query_size = length (lc_query a),
          le_response_size = length (lc_response a),
          le_cached = lc_cached a,
          le_upstream_status = lc_upstream_status a,
          le_upstream_latency_ms = lc_upstream_latency_ms a,
          le_total_latency_ms = lc_total_latency_ms a,
          le_pid = ql_pid lg\<rparr>)"

definition log :: "dns_codec \<Rightarrow> json_printer \<Rightarrow> query_logger \<Rightarrow> log_call \<Rightarrow> log_io \<Rightarrow> log_io" where
  "log dc js lg a io =
     (if \<not> ql_enabled lg then io else log_entry js lg (make_entry dc lg a) io)"

section \<open>The JSON printer\<close>

text \<open>
  What the log relies on: an object is printed on one line, without control characters. The compact
  printer below is one.
\<close>

locale json_lines =
  fixes js :: json_printer
  assumes printable: "js ms = Some t \<Longrightarrow> c \<in> set t \<Longrightarrow> 32 \<le> c"
begin

lemma no_newline: "js ms = Some t \<Longrightarrow> 10 \<notin> set t"
  using printable by fastforce

lemma no_final_cr: "js ms = Some t \<Longrightarrow> t = [] \<or> last t \<noteq> 13"
  using printable last_in_set by fastforce

end

definition hex_digit :: "nat \<Rightarrow> rchar" where
  "hex_digit n = (if n < 10 then 48 + n else 87 + n)"

definition js_escape :: "rchar \<Rightarrow> rstr" where
  "js_escape c =
     (if c = 34 \<or> c = 92 then [92, c]
      else if c = 8 then lit [CHR 92, CHR ''b'']
      else if c = 9 then lit [CHR 92, CHR ''t'']
      else if c = 10 then lit [CHR 92, CHR ''n'']
      else if c = 12 then lit [CHR 92, CHR ''f'']
      else if c = 13 then lit [CHR 92, CHR ''r'']
      else if c < 32 then lit [CHR 92, CHR ''u'', CHR ''0'', CHR ''0''] @ [hex_digit (c div 16), hex_digit (c mod 16)]
      else [c])"

definition js_string :: "rstr \<Rightarrow> rstr" where
  "js_string s = [34] @ concat (map js_escape s) @ [34]"

fun js_value :: "json \<Rightarrow> rstr" where
  "js_value (JStr s) = js_string s"
| "js_value (JNum n) = show_nat n"
| "js_value (JBool b) = (if b then lit ''true'' else lit ''false'')"

definition js_compact :: json_printer where
  "js_compact ms =
     Some ([123] @ join [44] (map (\<lambda>(k, v). js_string k @ [58] @ js_value v) ms) @ [125])"

lemma js_escape_printable: "x \<in> set (js_escape c) \<Longrightarrow> 32 \<le> x"
  by (auto simp: js_escape_def lit_def hex_digit_def split: if_split_asm)

lemma js_string_printable: "x \<in> set (js_string s) \<Longrightarrow> 32 \<le> x"
  using js_escape_printable by (auto simp: js_string_def)

lemma js_value_printable: "x \<in> set (js_value v) \<Longrightarrow> 32 \<le> x"
proof (cases v)
  case (JNum n)
  assume "x \<in> set (js_value v)"
  with JNum show_nat_digits [of n] show ?thesis by (auto simp: is_ascii_digit_def)
qed (auto simp: js_string_printable lit_def split: if_split_asm)

lemma set_join_subset: "set (join sep xs) \<subseteq> set sep \<union> \<Union> (set ` set xs)"
  by (induction sep xs rule: join.induct) auto

interpretation compact: json_lines js_compact
proof
  fix ms t c
  assume t: "js_compact ms = Some t" and c: "c \<in> set t"
  let ?fs = "map (\<lambda>(k, v). js_string k @ [58] @ js_value v) ms"
  have "set t = {123, 125} \<union> set (join [44] ?fs)" using t by (auto simp: js_compact_def)
  with c set_join_subset [of "[44]" ?fs] have "c \<in> {123, 44, 125} \<union> \<Union> (set ` set ?fs)"
    by (auto simp del: set_map simp add: subset_iff)
  then show "32 \<le> c" by (auto dest: js_string_printable js_value_printable)
qed

section \<open>Lemmas\<close>

lemma log_is_append:
  assumes "ql_enabled lg" and "\<not> ql_poisoned lg" and "ql_writer lg = ToFile p"
    and "fs_write_fault (li_fs io) (path_key p) = None" and "fs_file (li_fs io) (path_key p) = Some old"
    and "js (ser_entry (make_entry dc lg a)) = Some t"
  shows "log dc js lg a io = io\<lparr>li_fs := set_node (path_key p) (FileNode (old @ t @ [10])) (li_fs io)\<rparr>"
  using assms by (simp add: log_def log_entry_def append_file_def)

lemma logs_append:
  assumes "ql_enabled lg" and "\<not> ql_poisoned lg" and "ql_writer lg = ToFile p"
    and "fs_write_fault (li_fs io) (path_key p) = None" and "fs_file (li_fs io) (path_key p) = Some old"
    and "\<forall>a \<in> set calls. js (ser_entry (make_entry dc lg a)) = Some (line a)"
  shows "fs_file (li_fs (fold (log dc js lg) calls io)) =
         (fs_file (li_fs io))(path_key p \<mapsto> old @ concat (map (\<lambda>a. line a @ [10]) calls))"
  using assms(4-6)
proof (induction calls arbitrary: io old)
  case Nil
  then show ?case by (simp add: fun_upd_idem)
next
  case (Cons a calls)
  have step: "log dc js lg a io =
      io\<lparr>li_fs := set_node (path_key p) (FileNode (old @ line a @ [10])) (li_fs io)\<rparr>"
    using log_is_append [OF assms(1-3) Cons.prems(1,2)] Cons.prems(3) by simp
  show ?case
    using Cons.IH [of "log dc js lg a io" "old @ line a @ [10]"] Cons.prems
    by (simp add: step fs_simps fun_eq_iff)
qed

lemma logger_new_file:
  assumes "p \<noteq> []" and "p \<noteq> lit ''-''" and "logger_new pid (Some p) fs = (Ok lg, fs1)"
    and "fs_write_fault fs (path_key p) = None"
  shows "lg = \<lparr>ql_enabled = True, ql_writer = ToFile p, ql_poisoned = False, ql_pid = pid\<rparr>"
    and "fs_write_fault fs1 = fs_write_fault fs"
    and "fs_file fs1 = (fs_file fs)(path_key p \<mapsto> case fs_file fs (path_key p) of None \<Rightarrow> [] | Some t \<Rightarrow> t)"
  using assms
  by (auto simp: logger_new_def open_append_def Let_def fs_simps fun_eq_iff split: if_split_asm option.split_asm)

text \<open>
  A log file only grows, by one line per logged query and in the order of the calls: after
  opening the file and logging any sequence of queries, its lines are the earlier lines followed by
  the printed entries, and no other file has changed.
\<close>

lemma log_appends_lines:
  assumes "json_lines js" and "p \<noteq> []" and "p \<noteq> lit ''-''" and "fs_write_fault fs (path_key p) = None"
    and "logger_new pid (Some p) fs = (Ok lg, fs1)"
    and "old = (case fs_file fs (path_key p) of None \<Rightarrow> [] | Some t \<Rightarrow> t)" and "old = [] \<or> last old = 10"
    and "\<forall>a \<in> set calls. js (ser_entry (make_entry dc lg a)) = Some (line a)"
  shows "\<exists>new. fs_file (li_fs (fold (log dc js lg) calls (io\<lparr>li_fs := fs1\<rparr>))) = (fs_file fs)(path_key p \<mapsto> new) \<and>
           lines new = lines old @ map line calls"
proof -
  note lg = logger_new_file [OF assms(2,3,5,4)]
  have "fs_file fs1 (path_key p) = Some old" using lg(3) assms(6) by simp
  then have files: "fs_file (li_fs (fold (log dc js lg) calls (io\<lparr>li_fs := fs1\<rparr>))) =
      (fs_file fs)(path_key p \<mapsto> old @ concat (map (\<lambda>a. line a @ [10]) calls))"
    using logs_append [of lg p "io\<lparr>li_fs := fs1\<rparr>" old calls js dc line] lg assms(4,8) by simp
  have "10 \<notin> set (line a) \<and> (line a = [] \<or> last (line a) \<noteq> 13)" if "a \<in> set calls" for a
    using json_lines.no_newline [OF assms(1)] json_lines.no_final_cr [OF assms(1)] assms(8) that by blast
  then have "list_all (\<lambda>t. 10 \<notin> set t \<and> (t = [] \<or> last t \<noteq> 13)) (map line calls)"
    by (simp add: list_all_iff)
  from lines_append_lines [OF this assms(7)]
  have "lines (old @ concat (map (\<lambda>a. line a @ [10]) calls)) = lines old @ map line calls" by (simp add: comp_def)
  with files show ?thesis by blast
qed

end
