(* ===== verification/Dns_Server.thy ===== *)
theory Dns_Server
  imports Doh Query_Log
begin

text \<open>
  The server, \<^verbatim>\<open>zebrafish-dns/src/server.rs\<close>: the listeners, the handling of one query, the datagram loop and the
  connection loop with its two-byte length prefixes. Sockets are explicit: a connection is the
  bytes still to be read, how reading ends, the bytes written and how many more the peer takes.
  What the outside does during one query (clock, exchange with the upstream server) is a record of
  its own. Here the queries of one socket run one after the other; their interleaving on the shared
  cache is the subject of the resolver. \<open>None\<close> is an aborted process.
\<close>

section \<open>Listeners\<close>

record dns_server =
  ds_listen_addr_v4 :: rstr
  ds_listen_addr_v6 :: rstr
  ds_listen_port :: u16
  ds_logger :: "query_logger option"

text \<open>\<^verbatim>\<open>str::parse::<SocketAddr>\<close> and the two ways to bind an address.\<close>

record net_api =
  na_parse :: "rstr \<Rightarrow> rstr option"
  na_bind_udp :: "rstr \<Rightarrow> bool"
  na_bind_tcp :: "rstr \<Rightarrow> bool"

datatype listener = UdpListener rstr | TcpListener rstr

definition try_udp :: "net_api \<Rightarrow> rstr \<Rightarrow> listener list" where
  "try_udp net addr =
     (case na_parse net addr of
        Some a \<Rightarrow> if na_bind_udp net a then [UdpListener a] else []
      | None \<Rightarrow> [])"

definition try_tcp :: "net_api \<Rightarrow> rstr \<Rightarrow> listener list" where
  "try_tcp net addr =
     (case na_parse net addr of
        Some a \<Rightarrow> if na_bind_tcp net a then [TcpListener a] else []
      | None \<Rightarrow> [])"

datatype run_result = RunError rstr | Serving "listener list"

text \<open>The loops of the listeners do not return, so a server that has one keeps serving.\<close>

definition server_run :: "net_api \<Rightarrow> dns_server \<Rightarrow> run_result" where
  "server_run net srv =
     (let port = show_nat (unat (ds_listen_port srv));
          addr_v4 = ds_listen_addr_v4 srv @ lit '':'' @ port;
          addr_v6 = lit ''['' @ ds_listen_addr_v6 srv @ lit '']:'' @ port;
          v4 = try_udp net addr_v4 @ try_tcp net addr_v4;
          v6 = (if ds_listen_addr_v6 srv \<noteq> [] then try_udp net addr_v6 @ try_tcp net addr_v6 else []);
          listeners = v4 @ v6
      in if listeners = []
         then RunError (lit ''failed to initialize any DNS listener (IPv4/IPv6 UDP/TCP)'')
         else Serving listeners)"

section \<open>One query\<close>

record 'l server_env =
  sv_codec :: dns_codec
  sv_api :: "'l entry_lru"
  sv_json :: json_printer
  sv_logger :: "query_logger option"

record 'l server_state =
  ss_cache :: "'l dns_cache"
  ss_io :: log_io

type_synonym client = "rstr \<times> u16"

record query_env =
  qe_now :: nat
  qe_replied :: nat
  qe_latency :: u64
  qe_post :: "bytes \<Rightarrow> exchange"
  qe_secs :: nat
  qe_millis :: nat
  qe_total :: u64

text \<open>The message built by \<^verbatim>\<open>build_servfail\<close>, and its bytes.\<close>

definition servfail_of :: "message \<Rightarrow> message" where
  "servfail_of query =
     new_message\<lparr>m_id := m_id query, m_response := True, m_opcode := OPCODE_QUERY,
       m_rcode := RCODE_SERVFAIL, m_rd := m_rd query, m_ra := True, m_queries := m_queries query\<rparr>"

definition build_servfail :: "dns_codec \<Rightarrow> bytes \<Rightarrow> bytes option" where
  "build_servfail dc query_bytes =
     (case from_vec dc query_bytes of
        Inl _ \<Rightarrow> None
      | Inr query \<Rightarrow> to_vec dc (servfail_of query))"

definition log_query ::
  "'l server_env \<Rightarrow> client \<Rightarrow> rstr \<Rightarrow> query_env \<Rightarrow> bytes \<Rightarrow> dns_result \<Rightarrow> 'l server_state \<Rightarrow> 'l server_state" where
  "log_query env src protocol qe query r s =
     (case sv_logger env of
        None \<Rightarrow> s
      | Some logger \<Rightarrow>
          s\<lparr>ss_io := log (sv_codec env) (sv_json env) logger
              \<lparr>lc_secs = qe_secs qe, lc_millis = qe_millis qe, lc_client_ip = fst src, lc_client_port = snd src,
               lc_protocol = protocol, lc_query = query, lc_response = dr_response r, lc_cached = dr_cached r,
               lc_upstream_status = dr_upstream_status r, lc_upstream_latency_ms = dr_upstream_latency_ms r,
               lc_total_latency_ms = qe_total qe\<rparr> (ss_io s)\<rparr>)"

text \<open>
  Both loops treat a query alike: resolve, log, and hand back the response; a failed query is
  answered by the failure message, or not at all when that cannot be built.
\<close>

definition deliver ::
  "'l server_env \<Rightarrow> client \<Rightarrow> rstr \<Rightarrow> query_env \<Rightarrow> bytes \<Rightarrow> (resolve_error, dns_result) result \<Rightarrow> 'l server_state \<Rightarrow>
   bytes option \<times> 'l server_state" where
  "deliver env src protocol qe query dns_result s =
     (case dns_result of
        Inr r \<Rightarrow> (Some (dr_response r), log_query env src protocol qe query r s)
      | Inl _ \<Rightarrow>
          (case build_servfail (sv_codec env) query of
             None \<Rightarrow> (None, s)
           | Some servfail \<Rightarrow>
               (Some servfail,
                log_query env src protocol qe query
                  \<lparr>dr_response = servfail, dr_cached = False, dr_upstream_status = None,
                   dr_upstream_latency_ms = None\<rparr> s)))"

definition answer_query ::
  "'l server_env \<Rightarrow> client \<Rightarrow> rstr \<Rightarrow> query_env \<Rightarrow> bytes \<Rightarrow> 'l server_state \<Rightarrow>
   (bytes option \<times> 'l server_state) option" where
  "answer_query env src protocol qe query s =
     (case resolve (sv_codec env) (sv_api env) (qe_now qe) (qe_replied qe) (qe_latency qe) (qe_post qe) query
             (ss_cache s) of
        None \<Rightarrow> None
      | Some (dns_result, c) \<Rightarrow> Some (deliver env src protocol qe query dns_result (s\<lparr>ss_cache := c\<rparr>)))"

section \<open>Datagrams\<close>

datatype udp_event = Datagram client query_env bytes | RecvError

text \<open>
  The buffer takes 4096 bytes of a datagram; what follows is lost. The result lists the datagrams
  sent, with their destinations.
\<close>

fun serve_udp ::
  "'l server_env \<Rightarrow> udp_event list \<Rightarrow> 'l server_state \<Rightarrow> ((client \<times> bytes) list \<times> 'l server_state) option" where
  "serve_udp env [] s = Some ([], s)"
| "serve_udp env (RecvError # evs) s = serve_udp env evs s"
| "serve_udp env (Datagram src qe datagram # evs) s =
     (case answer_query env src (lit ''UDP'') qe (take 4096 datagram) s of
        None \<Rightarrow> None
      | Some (reply, s') \<Rightarrow>
          (case serve_udp env evs s' of
             None \<Rightarrow> None
           | Some (sent, s'') \<Rightarrow>
               Some ((case reply of None \<Rightarrow> [] | Some r \<Rightarrow> [(src, r)]) @ sent, s'')))"

section \<open>Connections\<close>

datatype tcp_error = UnexpectedEof | IoFault

record tcp_stream =
  ts_in :: bytes
  ts_in_fault :: bool
  ts_out :: bytes
  ts_room :: "nat option"

definition read_exact :: "nat \<Rightarrow> tcp_stream \<Rightarrow> (tcp_error, bytes) result \<times> tcp_stream" where
  "read_exact n st =
     (if n \<le> length (ts_in st) then (Ok (take n (ts_in st)), st\<lparr>ts_in := drop n (ts_in st)\<rparr>)
      else (Err (if ts_in_fault st then IoFault else UnexpectedEof), st\<lparr>ts_in := []\<rparr>))"

definition write_all :: "bytes \<Rightarrow> tcp_stream \<Rightarrow> (tcp_error, unit) result \<times> tcp_stream" where
  "write_all bs st =
     (case ts_room st of
        None \<Rightarrow> (Ok (), st\<lparr>ts_out := ts_out st @ bs\<rparr>)
      | Some n \<Rightarrow>
          if length bs \<le> n then (Ok (), st\<lparr>ts_out := ts_out st @ bs, ts_room := Some (n - length bs)\<rparr>)
          else (Err IoFault, st\<lparr>ts_out := ts_out st @ take n bs, ts_room := Some 0\<rparr>))"

lemma read_exact_Ok: "read_exact n st = (Ok bs, st') \<Longrightarrow>
    n \<le> length (ts_in st) \<and> bs = take n (ts_in st) \<and> st' = st\<lparr>ts_in := drop n (ts_in st)\<rparr>"
  by (auto simp: read_exact_def split: if_split_asm)

lemma write_all_in: "write_all bs st = (r, st') \<Longrightarrow> ts_in st' = ts_in st"
  by (auto simp: write_all_def split: option.split_asm if_split_asm)

text \<open>
  One message from the connection: nothing when the peer has closed it between messages or the
  length is zero, an error when reading fails or a message is cut off.
\<close>

definition read_query :: "tcp_stream \<Rightarrow> (tcp_error, bytes option) result \<times> tcp_stream" where
  "read_query st =
     (case read_exact 2 st of
        (Inl e, st1) \<Rightarrow> (if e = UnexpectedEof then Ok None else Err e, st1)
      | (Inr len_buf, st1) \<Rightarrow>
          (let msg_len = unat (from_be_bytes (len_buf ! 0) (len_buf ! 1))
           in if msg_len = 0 \<or> msg_len > 65535 then (Ok None, st1)
              else
                (case read_exact msg_len st1 of
                   (Inl e, st2) \<Rightarrow> (Err e, st2)
                 | (Inr query, st2) \<Rightarrow> (Ok (Some query), st2))))"

definition write_response :: "bytes \<Rightarrow> tcp_stream \<Rightarrow> (tcp_error, unit) result \<times> tcp_stream" where
  "write_response response st =
     (case write_all (to_be_bytes (word_of_nat (length response))) st of
        (Inl e, st1) \<Rightarrow> (Err e, st1)
      | (Inr _, st1) \<Rightarrow> write_all response st1)"

lemma read_query_shrinks: "read_query st = (Ok (Some q), st') \<Longrightarrow> length (ts_in st') + 3 \<le> length (ts_in st)"
  by (auto simp: read_query_def Let_def dest!: read_exact_Ok split: prod.split_asm sum.split_asm if_split_asm)

lemma write_response_in: "write_response r st = (x, st') \<Longrightarrow> ts_in st' = ts_in st"
  by (auto simp: write_response_def dest!: write_all_in split: prod.split_asm sum.split_asm)

function handle_tcp ::
  "'l server_env \<Rightarrow> client \<Rightarrow> (nat \<Rightarrow> query_env) \<Rightarrow> nat \<Rightarrow> tcp_stream \<Rightarrow> 'l server_state \<Rightarrow>
   ((tcp_error, unit) result \<times> tcp_stream \<times> 'l server_state) option" where
  "handle_tcp env src qe n st s =
     (case read_query st of
        (Inl e, st1) \<Rightarrow> Some (Err e, st1, s)
      | (Inr None, st1) \<Rightarrow> Some (Ok (), st1, s)
      | (Inr (Some query), st1) \<Rightarrow>
          (case answer_query env src (lit ''TCP'') (qe n) query s of
             None \<Rightarrow> None
           | Some (None, s') \<Rightarrow> Some (Ok (), st1, s')
           | Some (Some response, s') \<Rightarrow>
               (case write_response response st1 of
                  (Inl e, st2) \<Rightarrow> Some (Err e, st2, s')
                | (Inr _, st2) \<Rightarrow> handle_tcp env src qe (Suc n) st2 s')))"
  by pat_completeness auto
termination
  by (relation "measure (\<lambda>(env, src, qe, n, st, s). length (ts_in st))")
     (auto dest!: read_query_shrinks [OF sym] write_response_in [OF sym])

declare handle_tcp.simps [simp del]

text \<open>
  The accept loop gives every connection a task of its own, whose error concerns nobody else. The
  result lists the connections as their tasks leave them.
\<close>

datatype tcp_event = Accepted client "nat \<Rightarrow> query_env" tcp_stream | AcceptError

fun serve_tcp ::
  "'l server_env \<Rightarrow> tcp_event list \<Rightarrow> 'l server_state \<Rightarrow> (tcp_stream list \<times> 'l server_state) option" where
  "serve_tcp env [] s = Some ([], s)"
| "serve_tcp env (AcceptError # evs) s = serve_tcp env evs s"
| "serve_tcp env (Accepted src qe st # evs) s =
     (case handle_tcp env src qe 0 st s of
        None \<Rightarrow> None
      | Some (_, st', s') \<Rightarrow>
          (case serve_tcp env evs s' of
             None \<Rightarrow> None
           | Some (sts, s'') \<Rightarrow> Some (st' # sts, s'')))"

section \<open>Framing\<close>

text \<open>The specification of the framing: a message with its length, and reading messages back.\<close>

definition frame :: "bytes \<Rightarrow> bytes" where
  "frame b = to_be_bytes (word_of_nat (length b)) @ b"

function unframe :: "bytes \<Rightarrow> bytes list option" where
  "unframe bs =
     (case bs of
        [] \<Rightarrow> Some []
      | hi # lo # rest \<Rightarrow>
          (let n = unat (from_be_bytes hi lo)
           in if n \<le> length rest then map_option ((#) (take n rest)) (unframe (drop n rest)) else None)
      | _ \<Rightarrow> None)"
  by pat_completeness auto
termination by (relation "measure length") auto

declare unframe.simps [simp del]

text \<open>Answering queries one after the other, up to one that gets no answer.\<close>

fun answers ::
  "'l server_env \<Rightarrow> client \<Rightarrow> (nat \<Rightarrow> query_env) \<Rightarrow> nat \<Rightarrow> bytes list \<Rightarrow> 'l server_state \<Rightarrow>
   (bytes list \<times> bool \<times> 'l server_state) option" where
  "answers env src qe n [] s = Some ([], True, s)"
| "answers env src qe n (q # qs) s =
     (case answer_query env src (lit ''TCP'') (qe n) q s of
        None \<Rightarrow> None
      | Some (None, s') \<Rightarrow> Some ([], False, s')
      | Some (Some r, s') \<Rightarrow>
          (case answers env src qe (Suc n) qs s' of
             None \<Rightarrow> None
           | Some (rs, all_done, s'') \<Rightarrow> Some (r # rs, all_done, s'')))"

lemma to_from_be_bytes: "to_be_bytes (from_be_bytes hi lo) = [hi, lo]"
proof -
  have or: "from_be_bytes hi lo = or (push_bit 8 (ucast hi)) (ucast lo)"
    unfolding from_be_bytes_def
    by (rule disjunctive_add) (auto simp: bit_push_bit_iff bit_ucast_iff dest: bit_imp_le_length)
  have "ucast (drop_bit 8 (from_be_bytes hi lo)) = hi" "ucast (from_be_bytes hi lo) = lo"
    unfolding or
    by (rule bit_word_eqI; auto simp: bit_or_iff bit_push_bit_iff bit_ucast_iff bit_drop_bit_eq dest: bit_imp_le_length)+
  then show ?thesis by (simp add: to_be_bytes_def)
qed

lemma be_bytes: obtains hi lo where "to_be_bytes w = [hi, lo]" "from_be_bytes hi lo = w"
  using that from_to_be_bytes [of w] by (auto simp: to_be_bytes_def)

lemma unat_u16: "unat (word_of_nat n :: u16) = n mod 65536"
  by (simp add: unsigned_of_nat take_bit_eq_mod)

lemma frame_bytes:
  obtains hi lo where "frame b = hi # lo # b" "unat (from_be_bytes hi lo) = length b mod 65536"
proof -
  obtain hi lo where "to_be_bytes (word_of_nat (length b)) = [hi, lo]"
      "from_be_bytes hi lo = word_of_nat (length b)" by (rule be_bytes)
  with that show thesis by (simp add: frame_def unat_u16)
qed

lemma unframe_frame:
  assumes "length b < 65536"
  shows "unframe (frame b @ bs) = map_option ((#) b) (unframe bs)"
proof -
  obtain hi lo where "frame b = hi # lo # b" "unat (from_be_bytes hi lo) = length b mod 65536"
    by (rule frame_bytes)
  with assms show ?thesis by (subst unframe.simps) simp
qed

lemma unframe_frames: "list_all (\<lambda>b. length b < 65536) bs \<Longrightarrow> unframe (concat (map frame bs)) = Some bs"
proof (induction bs)
  case Nil
  show ?case by (simp add: unframe.simps)
qed (simp add: unframe_frame)

text \<open>One round of the connection loop on a whole frame.\<close>

lemma read_query_frame:
  assumes "ts_in st = frame q @ rest" and "0 < length q" and "length q < 65536"
  shows "read_query st = (Ok (Some q), st\<lparr>ts_in := rest\<rparr>)"
proof -
  obtain hi lo where f: "frame q = hi # lo # q" and "unat (from_be_bytes hi lo) = length q mod 65536"
    by (rule frame_bytes)
  then have n: "unat (from_be_bytes hi lo) = length q" using assms(3) by simp
  have "read_exact 2 st = (Ok [hi, lo], st\<lparr>ts_in := q @ rest\<rparr>)"
    using assms(1) f by (simp add: read_exact_def)
  moreover have "read_exact (length q) (st\<lparr>ts_in := q @ rest\<rparr>) = (Ok q, st\<lparr>ts_in := rest\<rparr>)"
    by (simp add: read_exact_def)
  ultimately show ?thesis using n assms(2,3) by (simp add: read_query_def)
qed

lemma write_response_frame:
  "ts_room st = None \<Longrightarrow> write_response r st = (Ok (), st\<lparr>ts_out := ts_out st @ frame r\<rparr>)"
  by (simp add: write_response_def write_all_def frame_def)

lemma handle_tcp_frame:
  assumes "ts_in st = frame q @ rest" and "0 < length q" and "length q < 65536" and "ts_room st = None"
  shows "handle_tcp env src qe n st s =
     (case answer_query env src (lit ''TCP'') (qe n) q s of
        None \<Rightarrow> None
      | Some (None, s') \<Rightarrow> Some (Ok (), st\<lparr>ts_in := rest\<rparr>, s')
      | Some (Some r, s') \<Rightarrow>
          handle_tcp env src qe (Suc n) (st\<lparr>ts_in := rest, ts_out := ts_out st @ frame r\<rparr>) s')"
  by (subst handle_tcp.simps)
     (simp add: read_query_frame [OF assms(1-3)] write_response_frame assms(4) split: option.split)

text \<open>The whole input: the loop answers the queries in order, as if it had been handed their list.\<close>

lemma handle_tcp_tail:
  assumes "length (ts_in st) < 2"
  shows "\<exists>st'. handle_tcp env src qe n st s = Some (if ts_in_fault st then Err IoFault else Ok (), st', s) \<and>
    ts_out st' = ts_out st"
  using assms by (subst handle_tcp.simps) (simp add: read_query_def read_exact_def)

lemma handle_tcp_frames:
  assumes "list_all (\<lambda>q. 0 < length q \<and> length q < 65536) qs"
    and "ts_in st = concat (map frame qs) @ tail" and "length tail < 2" and "ts_room st = None"
    and "answers env src qe n qs s = Some (rs, all_done, s')"
  shows "\<exists>st'. handle_tcp env src qe n st s =
      Some (if all_done \<and> ts_in_fault st then Err IoFault else Ok (), st', s') \<and>
    ts_out st' = ts_out st @ concat (map frame rs)"
  using assms
proof (induction qs arbitrary: n st s rs)
  case Nil
  then show ?case using handle_tcp_tail [of st env src qe n s] by simp
next
  case (Cons q qs)
  have q: "0 < length q" "length q < 65536" and "in": "ts_in st = frame q @ concat (map frame qs) @ tail"
    using Cons.prems by simp_all
  note round = handle_tcp_frame [OF "in" q Cons.prems(4), of env src qe n s]
  consider (none) s1 where "answer_query env src (lit ''TCP'') (qe n) q s = Some (None, s1)"
    | (some) r s1 where "answer_query env src (lit ''TCP'') (qe n) q s = Some (Some r, s1)"
    using Cons.prems(5) by (auto split: option.split_asm)
  then show ?case
  proof cases
    case none
    with Cons.prems(5) round show ?thesis by simp
  next
    case (some r s1)
    let ?st = "st\<lparr>ts_in := concat (map frame qs) @ tail, ts_out := ts_out st @ frame r\<rparr>"
    obtain rs' where rs: "answers env src qe (Suc n) qs s1 = Some (rs', all_done, s')" "rs = r # rs'"
      using Cons.prems(5) some by (auto split: option.split_asm)
    with Cons.IH [of ?st "Suc n" s1 rs'] Cons.prems round some show ?thesis by simp
  qed
qed

section \<open>Answers\<close>

text \<open>What the answers rely on: an encoded message starts with its identifier.\<close>

locale dns_wire =
  fixes dc :: dns_codec
  assumes wire_id: "to_vec dc m = Some b \<Longrightarrow> 2 \<le> length b \<and> from_be_bytes (b ! 0) (b ! 1) = m_id m"
begin

lemma servfail_id:
  "build_servfail dc q = Some b \<Longrightarrow> from_vec dc q = Ok m \<Longrightarrow> from_be_bytes (b ! 0) (b ! 1) = m_id m"
  using wire_id by (fastforce simp: build_servfail_def servfail_of_def)

end

text \<open>The twelve bytes of a header, with the counts of the sections.\<close>

definition header_bytes :: "message \<Rightarrow> bytes" where
  "header_bytes m =
     to_be_bytes (m_id m) @
     [word_of_nat ((if m_response m then 128 else 0) + m_opcode m * 8 + (if m_rd m then 1 else 0)),
      word_of_nat ((if m_ra m then 128 else 0) + m_rcode m)] @
     concat (map (\<lambda>n. to_be_bytes (word_of_nat n))
       [length (m_queries m), length (m_answers m), length (m_name_servers m), length (m_additionals m)])"

definition header_codec :: dns_codec where
  "header_codec = codec0\<lparr>
     from_vec := (\<lambda>b. if length b < 12 then Err [] else Ok (new_message\<lparr>m_id := from_be_bytes (b ! 0) (b ! 1)\<rparr>)),
     to_vec := (\<lambda>m. Some (header_bytes m))\<rparr>"

interpretation header: dns_wire header_codec
proof
  fix m b
  assume "to_vec header_codec m = Some b"
  moreover obtain hi lo where "to_be_bytes (m_id m) = [hi, lo]" "from_be_bytes hi lo = m_id m" by (rule be_bytes)
  ultimately show "2 \<le> length b \<and> from_be_bytes (b ! 0) (b ! 1) = m_id m"
    by (auto simp: header_codec_def header_bytes_def)
qed

lemma log_query_cache [simp]: "ss_cache (log_query env src proto qe q r s) = ss_cache s"
  by (simp add: log_query_def split: option.split)

lemma log_query_off: "sv_logger env = None \<Longrightarrow> log_query env src proto qe q r s = s"
  by (simp add: log_query_def)

lemma answer_query_total:
  assumes "dc_min_ttl (ss_cache s) \<le> dc_max_ttl (ss_cache s)"
    and "\<forall>q m. from_vec (sv_codec env) q = Ok m \<longrightarrow> to_vec (sv_codec env) (servfail_of m) \<noteq> None"
  shows "\<exists>reply s'. answer_query env src proto qe q s = Some (reply, s') \<and>
    dc_min_ttl (ss_cache s') \<le> dc_max_ttl (ss_cache s') \<and>
    (reply = None \<longleftrightarrow> (\<exists>e. from_vec (sv_codec env) q = Err e))"
proof -
  obtain r c where r: "resolve (sv_codec env) (sv_api env) (qe_now qe) (qe_replied qe) (qe_latency qe) (qe_post qe) q
      (ss_cache s) = Some (r, c)" and c: "dc_min_ttl c \<le> dc_max_ttl c"
    using resolve_total [OF assms(1)] assms(1) by metis
  show ?thesis
  proof (cases r)
    case (Inl e)
    show ?thesis
    proof (cases "from_vec (sv_codec env) q")
      case (Inr m)
      with assms(2) obtain b where "to_vec (sv_codec env) (servfail_of m) = Some b" by blast
      with Inr r Inl c show ?thesis by (simp add: answer_query_def deliver_def build_servfail_def)
    qed (use r Inl c in \<open>simp add: answer_query_def deliver_def build_servfail_def\<close>)
  next
    case (Inr d)
    have "\<nexists>e. from_vec (sv_codec env) q = Err e"
      using r Inr by (auto simp: resolve_def resolve_begin_def)
    with r Inr c show ?thesis by (simp add: answer_query_def deliver_def)
  qed
qed

text \<open>Connections end, whatever the peer sends and however it stops taking answers.\<close>

abbreviation ttls_ordered :: "'l server_state \<Rightarrow> bool" where
  "ttls_ordered s \<equiv> dc_min_ttl (ss_cache s) \<le> dc_max_ttl (ss_cache s)"

lemma answer_query_ordered:
  assumes "ttls_ordered s"
  obtains reply s' where "answer_query env src proto qe q s = Some (reply, s')" "ttls_ordered s'"
proof -
  obtain r c where "resolve (sv_codec env) (sv_api env) (qe_now qe) (qe_replied qe) (qe_latency qe) (qe_post qe) q
      (ss_cache s) = Some (r, c)" "dc_min_ttl c \<le> dc_max_ttl c"
    using resolve_total [OF assms] assms by metis
  with that show thesis
    by (cases r; cases "build_servfail (sv_codec env) q") (simp_all add: answer_query_def deliver_def)
qed

lemma handle_tcp_ends:
  "ttls_ordered s \<Longrightarrow> \<exists>r st' s'. handle_tcp env src qe n st s = Some (r, st', s') \<and> ttls_ordered s'"
proof (induction env src qe n st s rule: handle_tcp.induct)
  case (1 env src qe n st s)
  obtain b st1 where rd: "read_query st = (b, st1)" by fastforce
  consider e where "b = Err e" | "b = Ok None" | q where "b = Ok (Some q)" by (metis old.sum.exhaust option.exhaust)
  then show ?case
  proof cases
    case (3 query)
    obtain reply s1 where a: "answer_query env src (lit ''TCP'') (qe n) query s = Some (reply, s1)" "ttls_ordered s1"
      using 1(2) by (rule answer_query_ordered)
    show ?thesis
    proof (cases reply)
      case None
      with rd 3 a show ?thesis by (subst handle_tcp.simps) simp
    next
      case (Some response)
      obtain w st2 where w: "write_response response st1 = (w, st2)" by fastforce
      have "\<exists>r st' s'. handle_tcp env src qe (Suc n) st2 s1 = Some (r, st', s') \<and> ttls_ordered s'" if "w = Ok ()"
        by (rule 1(1) [OF rd [symmetric] 3 refl a(1) refl Some w [symmetric] that a(2)])
      with rd 3 a Some w show ?thesis by (subst handle_tcp.simps) (cases w, auto)
    qed
  qed (use rd 1(2) in \<open>subst handle_tcp.simps, simp\<close>)+
qed

definition parses :: "dns_codec \<Rightarrow> bytes \<Rightarrow> bool" where
  "parses dc b \<longleftrightarrow> \<not> isl (from_vec dc b)"

fun answerable :: "dns_codec \<Rightarrow> udp_event \<Rightarrow> client option" where
  "answerable dc (Datagram src qe d) = (if parses dc (take 4096 d) then Some src else None)"
| "answerable dc RecvError = None"

lemma serve_udp_total:
  assumes "\<forall>q m. from_vec (sv_codec env) q = Ok m \<longrightarrow> to_vec (sv_codec env) (servfail_of m) \<noteq> None"
    and "dc_min_ttl (ss_cache s) \<le> dc_max_ttl (ss_cache s)"
  shows "\<exists>sent s'. serve_udp env evs s = Some (sent, s') \<and>
    map fst sent = List.map_filter (answerable (sv_codec env)) evs"
  using assms(2)
proof (induction evs arbitrary: s)
  case (Cons ev evs)
  show ?case
  proof (cases ev)
    case (Datagram src qe d)
    obtain reply s1 where a: "answer_query env src (lit ''UDP'') qe (take 4096 d) s = Some (reply, s1)"
        "dc_min_ttl (ss_cache s1) \<le> dc_max_ttl (ss_cache s1)"
        "reply = None \<longleftrightarrow> (\<exists>e. from_vec (sv_codec env) (take 4096 d) = Err e)"
      using answer_query_total [OF Cons.prems assms(1)] by blast
    obtain sent s2 where "serve_udp env evs s1 = Some (sent, s2)"
        "map fst sent = List.map_filter (answerable (sv_codec env)) evs"
      using Cons.IH [OF a(2)] by blast
    with Datagram a(1,3) show ?thesis
      by (auto simp: parses_def isl_def map_filter_simps split: option.split)
  next
    case RecvError
    with Cons show ?thesis by (simp add: map_filter_simps)
  qed
qed (simp add: map_filter_simps)

section \<open>Properties\<close>

text \<open>
  C5. On a connection the server is a function from the sequence of queries to the sequence of
  responses: whatever complete queries the input stream frames, the output stream frames their
  answers, in order and one for each, with the state of the sequential run; a client that reads the
  frames back receives exactly these responses. The loop ends without error when the peer closes
  between messages.
\<close>

theorem tcp_stream_refines:
  assumes "ts_in st = concat (map frame qs) @ tail" and "length tail < 2"
    and "list_all (\<lambda>q. 0 < length q \<and> length q < 65536) qs"
    and "ts_out st = []" and "ts_room st = None" and "\<not> ts_in_fault st"
    and "answers env src qe 0 qs s = Some (rs, all_done, s')" and "list_all (\<lambda>r. length r < 65536) rs"
  shows "\<exists>st'. handle_tcp env src qe 0 st s = Some (Ok (), st', s') \<and> unframe (ts_out st') = Some rs"
  using handle_tcp_frames [OF assms(3,1,2,5,7)] assms(4,6) unframe_frames [OF assms(8)] by auto

definition env0 :: "(bytes, cache_entry) use_list server_env" where
  "env0 = \<lparr>sv_codec = header_codec, sv_api = ul_api, sv_json = js_compact, sv_logger = None\<rparr>"

definition state0 :: "(bytes, cache_entry) use_list server_state" where
  "state0 = \<lparr>ss_cache = cache0, ss_io = \<lparr>li_fs = empty_fs, li_out = [], li_out_fault = None\<rparr>\<rparr>"

definition qe0 :: query_env where
  "qe0 = \<lparr>qe_now = 0, qe_replied = 1, qe_latency = 2, qe_post = (\<lambda>b. ReqError []), qe_secs = 0, qe_millis = 0,
     qe_total = 3\<rparr>"

definition query12 :: bytes where
  "query12 = [1, 2, 0, 0, 0, 0, 0, 0, 0, 0, 0, 0]"

lemma length_query12 [simp]: "length query12 = 12" "query12 \<noteq> []"
  by (simp_all add: query12_def)

lemma answer_query12:
  "answer_query env0 src proto qe0 query12 state0 =
     Some (Some (header_bytes (servfail_of (new_message\<lparr>m_id := 258\<rparr>))), state0)"
proof -
  have id: "from_be_bytes 1 2 = 258" by (simp add: from_be_bytes_def)
  have "from_vec header_codec query12 = Ok (new_message\<lparr>m_id := 258\<rparr>)"
    by (simp add: header_codec_def query12_def id)
  moreover from this have "resolve header_codec ul_api 0 1 2 (\<lambda>b. ReqError []) query12 cache0 =
      Some (Err (RequestFailed []), cache0)"
    by (simp add: resolve_def resolve_begin_def resolve_finish_def cache_get_def cache_key_def first_query_def
        nth_opt_def new_message_def)
  moreover have "to_vec header_codec m = Some (header_bytes m)" for m by (simp add: header_codec_def)
  moreover have "log_query env0 src proto qe0 query12 r s = s" for r s
    by (rule log_query_off) (simp add: env0_def)
  moreover have "sv_codec env0 = header_codec" "sv_api env0 = ul_api" "qe_now qe0 = 0" "qe_replied qe0 = 1"
      "qe_latency qe0 = 2" "qe_post qe0 = (\<lambda>b. ReqError [])" "ss_cache state0 = cache0"
      "state0\<lparr>ss_cache := cache0\<rparr> = state0"
    by (simp_all add: env0_def qe0_def state0_def)
  ultimately show ?thesis by (simp add: answer_query_def deliver_def build_servfail_def)
qed

theorem tcp_stream_refines_witness:
  "\<exists>st'. handle_tcp env0 (lit ''::1'', 99) (\<lambda>_. qe0) 0
      \<lparr>ts_in = frame query12 @ frame query12 @ [0], ts_in_fault = False, ts_out = [], ts_room = None\<rparr> state0 =
        Some (Ok (), st', state0) \<and>
     unframe (ts_out st') = Some (replicate 2 (header_bytes (servfail_of (new_message\<lparr>m_id := 258\<rparr>))))"
  by (rule tcp_stream_refines [of _ "[query12, query12]" "[0]" _ _ _ _ _ True])
     (simp_all add: answer_query12 header_bytes_def numeral_2_eq_2)

text \<open>
  Every connection ends: whatever bytes the peers send, however early they stop reading or
  writing, the loops of all accepted connections return, one after the other, and failures to
  accept stop nothing; only lifetime bounds in the wrong order could abort the process.
\<close>

lemma tcp_connections_end:
  assumes "dc_min_ttl (ss_cache s) \<le> dc_max_ttl (ss_cache s)"
  shows "\<exists>sts s'. serve_tcp env evs s = Some (sts, s') \<and> length sts = length (filter (\<lambda>ev. ev \<noteq> AcceptError) evs)"
  using assms
proof (induction evs arbitrary: s)
  case (Cons ev evs)
  show ?case
  proof (cases ev)
    case (Accepted src qe st)
    obtain r st' s1 where "handle_tcp env src qe 0 st s = Some (r, st', s1)" "ttls_ordered s1"
      using handle_tcp_ends [OF Cons.prems] by blast
    with Cons.IH [of s1] Accepted show ?thesis by auto
  next
    case AcceptError
    with Cons show ?thesis by simp
  qed
qed simp

text \<open>
  C22. Every answer carries the identifier of its query, whether it comes from the cache, from the
  upstream server or is the failure message, provided it has room for one.
\<close>

theorem answer_identifier:
  assumes "dns_wire (sv_codec env)" and "answer_query env src proto qe q s = Some (Some r, s')"
    and "from_vec (sv_codec env) q = Ok m" and "2 \<le> length r"
  shows "from_be_bytes (r ! 0) (r ! 1) = m_id m"
proof -
  obtain x c where res: "resolve (sv_codec env) (sv_api env) (qe_now qe) (qe_replied qe) (qe_latency qe) (qe_post qe) q
      (ss_cache s) = Some (x, c)"
    using assms(2) by (auto simp: answer_query_def split: option.split_asm)
  show ?thesis
  proof (cases x)
    case (Inl e)
    with assms(2) res have "build_servfail (sv_codec env) q = Some r"
      by (auto simp: answer_query_def deliver_def split: option.split_asm)
    with assms(3) show ?thesis by (intro dns_wire.servfail_id [OF assms(1)])
  next
    case (Inr d)
    with assms(2) res have "r = dr_response d" by (simp add: answer_query_def deliver_def)
    moreover from res Inr assms(3) obtain b where "dr_response d = set_id (m_id m) b"
      by (auto elim: resolve_Ok_cases)
    ultimately show ?thesis using set_id_bytes(1) [of b "m_id m"] assms(4) by simp
  qed
qed

theorem answer_identifier_witness:
  "\<exists>r s'. answer_query env0 (lit ''::1'', 9) (lit ''UDP'') qe0 query12 state0 = Some (Some r, s') \<and>
     from_be_bytes (r ! 0) (r ! 1) = 258"
proof -
  have "from_vec (sv_codec env0) query12 = Ok (new_message\<lparr>m_id := 258\<rparr>)"
    by (simp add: env0_def header_codec_def query12_def from_be_bytes_def)
  with answer_identifier [OF _ answer_query12, of "new_message\<lparr>m_id := 258\<rparr>"] header.dns_wire_axioms
  show ?thesis unfolding answer_query12 by (simp add: env0_def header_bytes_def)
qed

text \<open>The length prefix of a response of 64 KiB or more is its length modulo 65536.\<close>

lemma long_response_misframed:
  obtains hi lo where "frame r = hi # lo # r" "unat (from_be_bytes hi lo) = length r mod 65536"
  by (rule frame_bytes)

end
