(* ===== verification/Server_Steps.thy ===== *)
theory Server_Steps
  imports Dns_Server "HOL-Library.Sublist"
begin

text \<open>
  The server as it runs: every datagram and every connection is a task of its own
  (\<^verbatim>\<open>tokio::spawn\<close> in \<^verbatim>\<open>serve_udp\<close> and \<^verbatim>\<open>serve_tcp\<close> of \<^verbatim>\<open>zebrafish-dns/src/server.rs\<close>), and the worker
  threads interleave the tasks between any two uses of something shared: the cache, the upstream
  server, the log, the sockets. A task is the client, the stream of a connection, and the
  point it has reached; a step of the server is the arrival of a task or a step of one task on
  the shared state. The history of a task, the datagrams sent and the successful exchanges with
  the upstream server are kept for the statements only: no step looks at them.

  The client sets no timeout on an exchange. That every exchange ends, with a reply or an error, is
  therefore assumed of the HTTP client and the network: a waiting task can always go on, and one whose exchange
  never ends is one that is never scheduled again. The statements on what has happened so far cover such
  runs; the statements on where complete runs end do not.
\<close>

section \<open>Definitions\<close>

datatype phase =
    PRead
  | PAsked bytes
  | PWaiting bytes message
  | PResolved bytes "(resolve_error, dns_result) result"
  | PReplying bytes
  | PClosed

text \<open>\<open>cn_input\<close> is the datagram, or all the bytes the peer sends on the connection.\<close>

record conn =
  cn_client :: client
  cn_stream :: "tcp_stream option"
  cn_phase :: phase
  cn_input :: bytes
  cn_history :: "(bytes \<times> bytes option) list"

definition udp_task :: "client \<Rightarrow> bytes \<Rightarrow> conn" where
  "udp_task src datagram =
     \<lparr>cn_client = src, cn_stream = None, cn_phase = PAsked (take 4096 datagram),
      cn_input = take 4096 datagram, cn_history = []\<rparr>"

definition tcp_task :: "client \<Rightarrow> tcp_stream \<Rightarrow> conn" where
  "tcp_task src st =
     \<lparr>cn_client = src, cn_stream = Some st, cn_phase = PRead, cn_input = ts_in st, cn_history = []\<rparr>"

definition protocol_of :: "conn \<Rightarrow> rstr" where
  "protocol_of c = (case cn_stream c of None \<Rightarrow> lit ''UDP'' | Some _ \<Rightarrow> lit ''TCP'')"

text \<open>One step of one task, with the datagrams it sends.\<close>

inductive conn_step ::
  "'l server_env \<Rightarrow> conn \<times> 'l server_state \<times> (bytes \<times> bytes) list \<Rightarrow>
   conn \<times> 'l server_state \<times> (bytes \<times> bytes) list \<Rightarrow> bytes list \<Rightarrow> bool"
  for env where
  read_some: "cn_phase c = PRead \<Longrightarrow> cn_stream c = Some st \<Longrightarrow> read_query st = (Ok (Some q), st') \<Longrightarrow>
    conn_step env (c, s, x) (c\<lparr>cn_phase := PAsked q, cn_stream := Some st'\<rparr>, s, x) []"
| read_end: "cn_phase c = PRead \<Longrightarrow> cn_stream c = Some st \<Longrightarrow> read_query st = (r, st') \<Longrightarrow>
    r = Ok None \<or> r = Err e \<Longrightarrow>
    conn_step env (c, s, x) (c\<lparr>cn_phase := PClosed, cn_stream := Some st'\<rparr>, s, x) []"
| answered: "cn_phase c = PAsked q \<Longrightarrow>
    resolve_begin (sv_codec env) (sv_api env) now q (ss_cache s) = (Inl r, c') \<Longrightarrow>
    conn_step env (c, s, x) (c\<lparr>cn_phase := PResolved q r\<rparr>, s\<lparr>ss_cache := c'\<rparr>, x) []"
| asked: "cn_phase c = PAsked q \<Longrightarrow>
    resolve_begin (sv_codec env) (sv_api env) now q (ss_cache s) = (Inr m, c') \<Longrightarrow>
    conn_step env (c, s, x) (c\<lparr>cn_phase := PWaiting q m\<rparr>, s\<lparr>ss_cache := c'\<rparr>, x) []"
| failed: "cn_phase c = PWaiting q m \<Longrightarrow>
    resolve_finish (sv_codec env) (sv_api env) now lat m ex (ss_cache s) = Some (Err e, c') \<Longrightarrow>
    conn_step env (c, s, x) (c\<lparr>cn_phase := PResolved q (Err e)\<rparr>, s\<lparr>ss_cache := c'\<rparr>, x) []"
| replied: "cn_phase c = PWaiting q m \<Longrightarrow>
    resolve_finish (sv_codec env) (sv_api env) now lat m (Reply status (Ok body)) (ss_cache s) = Some (Ok r, c') \<Longrightarrow>
    conn_step env (c, s, x) (c\<lparr>cn_phase := PResolved q (Ok r)\<rparr>, s\<lparr>ss_cache := c'\<rparr>, (q, body) # x) []"
| delivered: "cn_phase c = PResolved q r \<Longrightarrow>
    deliver env (cn_client c) (protocol_of c) qe q r s = (reply, s') \<Longrightarrow>
    conn_step env (c, s, x)
      (c\<lparr>cn_phase := (case reply of None \<Rightarrow> PClosed | Some b \<Rightarrow> PReplying b), cn_history := cn_history c @ [(q, reply)]\<rparr>,
       s', x) []"
| sent: "cn_phase c = PReplying b \<Longrightarrow> cn_stream c = None \<Longrightarrow>
    conn_step env (c, s, x) (c\<lparr>cn_phase := PClosed\<rparr>, s, x) [b]"
| unsent: "cn_phase c = PReplying b \<Longrightarrow> cn_stream c = None \<Longrightarrow>
    conn_step env (c, s, x) (c\<lparr>cn_phase := PClosed\<rparr>, s, x) []"
| wrote: "cn_phase c = PReplying b \<Longrightarrow> cn_stream c = Some st \<Longrightarrow> write_response b st = (r, st') \<Longrightarrow>
    conn_step env (c, s, x) (c\<lparr>cn_phase := (if r = Ok () then PRead else PClosed), cn_stream := Some st'\<rparr>, s, x) []"

record 'l serving =
  sg_conns :: "nat \<rightharpoonup> conn"
  sg_state :: "'l server_state"
  sg_exchanges :: "(bytes \<times> bytes) list"
  sg_sent :: "(nat \<times> client \<times> bytes) list"

inductive task_arrives :: "'l serving \<Rightarrow> 'l serving \<Rightarrow> bool" where
  datagram: "sg_conns g i = None \<Longrightarrow>
    task_arrives g (g\<lparr>sg_conns := (sg_conns g)(i \<mapsto> udp_task src d)\<rparr>)"
| accept: "sg_conns g i = None \<Longrightarrow> ts_out st = [] \<Longrightarrow>
    task_arrives g (g\<lparr>sg_conns := (sg_conns g)(i \<mapsto> tcp_task src st)\<rparr>)"

definition put_task ::
  "nat \<Rightarrow> conn \<times> 'l server_state \<times> (bytes \<times> bytes) list \<Rightarrow> bytes list \<Rightarrow> 'l serving \<Rightarrow> 'l serving" where
  "put_task i r out g =
     (case r of (c, s, x) \<Rightarrow>
        \<lparr>sg_conns = (sg_conns g)(i \<mapsto> c), sg_state = s, sg_exchanges = x,
         sg_sent = sg_sent g @ map (\<lambda>b. (i, cn_client c, b)) out\<rparr>)"

inductive task_runs :: "'l server_env \<Rightarrow> 'l serving \<Rightarrow> 'l serving \<Rightarrow> bool" for env where
  task_runs: "sg_conns g i = Some c \<Longrightarrow> conn_step env (c, sg_state g, sg_exchanges g) r out \<Longrightarrow>
    task_runs env g (put_task i r out g)"

inductive_cases task_runsE: "task_runs env g g'"

definition srv_step :: "'l server_env \<Rightarrow> 'l serving \<Rightarrow> 'l serving \<Rightarrow> bool" where
  "srv_step env g g' \<longleftrightarrow> task_arrives g g' \<or> task_runs env g g'"

definition idle :: "'l server_state \<Rightarrow> 'l serving" where
  "idle s = \<lparr>sg_conns = Map.empty, sg_state = s, sg_exchanges = [], sg_sent = []\<rparr>"

section \<open>What a task has done so far\<close>

definition reply_ok :: "dns_codec \<Rightarrow> (bytes \<times> bytes) list \<Rightarrow> bytes \<Rightarrow> bytes option \<Rightarrow> bool" where
  "reply_ok dc x q reply \<longleftrightarrow>
     (case reply of
        None \<Rightarrow> build_servfail dc q = None
      | Some b \<Rightarrow> (\<exists>r. from_exchange dc x q r \<and> b = dr_response r) \<or> build_servfail dc q = Some b)"

fun pending :: "phase \<Rightarrow> bytes list" where
  "pending (PAsked q) = [q]"
| "pending (PWaiting q _) = [q]"
| "pending (PResolved q _) = [q]"
| "pending _ = []"

definition responses :: "(bytes \<times> bytes option) list \<Rightarrow> bytes list" where
  "responses h = List.map_filter snd h"

text \<open>What the phase and the history say of the cache and the upstream server.\<close>

fun phase_ok :: "dns_codec \<Rightarrow> (bytes \<times> bytes) list \<Rightarrow> phase \<Rightarrow> bool" where
  "phase_ok dc x (PWaiting q m) \<longleftrightarrow> from_vec dc q = Ok m"
| "phase_ok dc x (PResolved q (Inr r)) \<longleftrightarrow> from_exchange dc x q r"
| "phase_ok dc x _ \<longleftrightarrow> True"

definition answers_ok :: "dns_codec \<Rightarrow> (bytes \<times> bytes) list \<Rightarrow> conn \<Rightarrow> bool" where
  "answers_ok dc x c \<longleftrightarrow>
     phase_ok dc x (cn_phase c) \<and> (\<forall>(q, reply) \<in> set (cn_history c). reply_ok dc x q reply)"

text \<open>What they say of the bytes read and written.\<close>

definition udp_ok :: "conn \<Rightarrow> bool" where
  "udp_ok c \<longleftrightarrow>
     (case cn_phase c of
        PRead \<Rightarrow> False
      | PReplying b \<Rightarrow> cn_history c = [(cn_input c, Some b)]
      | PClosed \<Rightarrow> (\<exists>reply. cn_history c = [(cn_input c, reply)])
      | ph \<Rightarrow> cn_history c = [] \<and> pending ph = [cn_input c])"

definition tcp_ok :: "tcp_stream \<Rightarrow> conn \<Rightarrow> bool" where
  "tcp_ok st c \<longleftrightarrow>
     (case cn_phase c of
        PClosed \<Rightarrow>
          prefix (concat (map (frame \<circ> fst) (cn_history c))) (cn_input c) \<and>
          prefix (ts_out st) (concat (map frame (responses (cn_history c))))
      | ph \<Rightarrow>
          cn_input c = concat (map (frame \<circ> fst) (cn_history c)) @ concat (map frame (pending ph)) @ ts_in st \<and>
          (\<exists>h. concat (map frame (responses (cn_history c))) = ts_out st @ h \<and>
               (case ph of PReplying b \<Rightarrow> h = frame b | _ \<Rightarrow> h = [])))"

definition bytes_ok :: "conn \<Rightarrow> bool" where
  "bytes_ok c \<longleftrightarrow> (case cn_stream c of None \<Rightarrow> udp_ok c | Some st \<Rightarrow> tcp_ok st c)"

section \<open>Bytes\<close>

lemma read_exact_out: "read_exact n st = (r, st') \<Longrightarrow> ts_out st' = ts_out st"
  by (auto simp: read_exact_def split: if_split_asm)

lemma read_query_out: "read_query st = (r, st') \<Longrightarrow> ts_out st' = ts_out st"
  by (auto simp: read_query_def Let_def dest!: read_exact_out split: prod.split_asm sum.split_asm if_split_asm)

lemma read_query_Some:
  assumes "read_query st = (Ok (Some q), st')"
  shows "ts_in st = frame q @ ts_in st'"
proof -
  obtain len st1 where len: "read_exact 2 st = (Ok len, st1)"
      "read_exact (unat (from_be_bytes (len ! 0) (len ! 1))) st1 = (Ok q, st')"
    using assms by (auto simp: read_query_def Let_def split: prod.split_asm sum.split_asm if_split_asm)
  note l = read_exact_Ok [OF len(1)] and q = read_exact_Ok [OF len(2)]
  obtain hi lo where hl: "len = [hi, lo]"
    using l by (cases "ts_in st"; cases "tl (ts_in st)") auto
  have "length q = unat (from_be_bytes hi lo)" using q hl by simp
  then have "frame q = hi # lo # q" by (simp add: frame_def to_from_be_bytes)
  moreover have "ts_in st = [hi, lo] @ ts_in st1" using l hl append_take_drop_id [of 2 "ts_in st"] by simp
  moreover have "ts_in st1 = q @ ts_in st'" using q by simp
  ultimately show ?thesis by simp
qed

lemma write_all_out:
  assumes "write_all bs st = (r, st')"
  shows "\<exists>t. ts_out st' = ts_out st @ t \<and> prefix t bs \<and> (r = Ok () \<longrightarrow> t = bs)"
  using assms by (auto simp: write_all_def take_is_prefix split: option.split_asm if_split_asm)

lemma write_response_out:
  assumes "write_response b st = (r, st')"
  shows "\<exists>t. ts_out st' = ts_out st @ t \<and> prefix t (frame b) \<and> (r = Ok () \<longrightarrow> t = frame b)"
proof -
  obtain r1 st1 where w: "write_all (to_be_bytes (word_of_nat (length b))) st = (r1, st1)" by fastforce
  from write_all_out [OF this] obtain t1 where t1: "ts_out st1 = ts_out st @ t1"
      "prefix t1 (to_be_bytes (word_of_nat (length b)))" "r1 = Ok () \<longrightarrow> t1 = to_be_bytes (word_of_nat (length b))"
    by blast
  show ?thesis
  proof (cases r1)
    case (Inl e)
    with assms w t1 show ?thesis by (auto simp: write_response_def frame_def)
  next
    case (Inr u)
    then have "write_all b st1 = (r, st')" using assms w by (simp add: write_response_def)
    from write_all_out [OF this] t1 Inr show ?thesis by (auto simp: frame_def)
  qed
qed

lemma responses_append [simp]:
  "responses (h @ [(q, reply)]) = responses h @ (case reply of None \<Rightarrow> [] | Some b \<Rightarrow> [b])"
  by (simp add: responses_def map_filter_def split: option.split)

text \<open>No step of a task loses, repeats or reorders bytes.\<close>

lemma conn_step_bytes:
  assumes "conn_step env (c, s, x) (c', s', x') out" and "bytes_ok c"
  shows "bytes_ok c'"
  using assms(1)
proof cases
  case (read_some st q st')
  with assms(2) read_query_Some [OF read_some(7)] read_query_out [OF read_some(7)] show ?thesis
    by (simp add: bytes_ok_def tcp_ok_def)
next
  case (read_end st r st' e)
  with assms(2) read_query_out [OF read_end(7)] show ?thesis
    by (auto simp: bytes_ok_def tcp_ok_def)
next
  case (delivered q r qe reply)
  show ?thesis
  proof (cases "cn_stream c")
    case None
    with delivered assms(2) show ?thesis by (auto simp: bytes_ok_def udp_ok_def split: option.split)
  next
    case (Some st)
    with delivered assms(2) show ?thesis by (auto simp: bytes_ok_def tcp_ok_def split: option.split)
  qed
next
  case (wrote b st r st')
  obtain t where "ts_out st' = ts_out st @ t" "prefix t (frame b)" "r = Ok () \<longrightarrow> t = frame b"
    using write_response_out [OF wrote(7)] by blast
  with wrote assms(2) write_response_in [OF wrote(7)] show ?thesis
    by (auto simp: bytes_ok_def tcp_ok_def)
qed (use assms(2) in \<open>auto simp: bytes_ok_def udp_ok_def tcp_ok_def split: option.split_asm\<close>)

section \<open>Answers\<close>

lemma reply_ok_mono: "reply_ok dc x q reply \<Longrightarrow> set x \<subseteq> set y \<Longrightarrow> reply_ok dc y q reply"
  by (cases reply) (auto simp: reply_ok_def intro: from_exchange_mono)

lemma answers_ok_mono: "answers_ok dc x c \<Longrightarrow> set x \<subseteq> set y \<Longrightarrow> answers_ok dc y c"
proof -
  assume c: "answers_ok dc x c" and sub: "set x \<subseteq> set y"
  then have "phase_ok dc y (cn_phase c)"
    by (cases "(dc, x, cn_phase c)" rule: phase_ok.cases) (auto simp: answers_ok_def intro: from_exchange_mono)
  with c sub show ?thesis by (auto simp: answers_ok_def intro: reply_ok_mono)
qed

lemma deliver_reply:
  assumes "deliver env src proto qe q r s = (reply, s')" and "\<And>d. r = Ok d \<Longrightarrow> from_exchange (sv_codec env) x q d"
  shows "reply_ok (sv_codec env) x q reply" and "ss_cache s' = ss_cache s"
proof -
  have "reply_ok (sv_codec env) x q reply \<and> ss_cache s' = ss_cache s"
    using assms by (cases r) (auto simp: deliver_def reply_ok_def split: option.splits)
  then show "reply_ok (sv_codec env) x q reply" and "ss_cache s' = ss_cache s" by simp_all
qed

text \<open>The cache holds what the exchanges brought in, and every answer comes from there.\<close>

lemma conn_step_answers:
  assumes lru: "entry_cache (sv_api env) view cap ok" and step: "conn_step env (c, s, x) (c', s', x') out"
    and st: "stored_from (sv_codec env) (sv_api env) (cache_new (sv_api env) n lo hi) (ss_cache s) x"
    and c: "answers_ok (sv_codec env) x c"
  shows "stored_from (sv_codec env) (sv_api env) (cache_new (sv_api env) n lo hi) (ss_cache s') x' \<and>
         answers_ok (sv_codec env) x' c' \<and> set x \<subseteq> set x'"
  using step
proof cases
  case (answered q now r cc)
  from answered(6) show ?thesis
  proof (cases rule: resolve_begin_cases)
    case (bad e)
    with answered c st show ?thesis by (simp add: answers_ok_def)
  next
    case (hit m b d)
    with answered c stored_from_get [OF st hit(2)] hit_from_exchange [OF lru st hit(2,1,4,5)]
    show ?thesis by (simp add: answers_ok_def)
  qed simp
next
  case (asked q now m cc)
  from asked(6) show ?thesis
  proof (cases rule: resolve_begin_cases)
    case (miss m')
    with asked c stored_from_get [OF st miss(2)] show ?thesis by (simp add: answers_ok_def)
  qed simp_all
next
  case (failed q m now lat ex e cc)
  with c st resolve_finish_Err [OF failed(6)] show ?thesis by (simp add: answers_ok_def)
next
  case (replied q m now lat status body r cc)
  have m: "from_vec (sv_codec env) q = Ok m" using c replied(5) by (simp add: answers_ok_def)
  have r: "cache_put (sv_codec env) (sv_api env) now m body (ss_cache s) = Some cc"
      "dr_response r = set_id (m_id m) body" "\<not> dr_cached r"
    using replied(6) by (auto elim: resolve_finish_Ok)
  have "from_exchange (sv_codec env) ((q, body) # x) q r" using m r by (auto simp: from_exchange_def)
  moreover have "answers_ok (sv_codec env) ((q, body) # x) c" using c by (rule answers_ok_mono) auto
  ultimately show ?thesis using replied stored_from_put [OF st r(1) m] by (auto simp: answers_ok_def)
next
  case (delivered q r qe reply)
  have "from_exchange (sv_codec env) x q d" if "r = Ok d" for d
    using c delivered(4) that by (simp add: answers_ok_def)
  from deliver_reply [OF delivered(5) this] delivered c st show ?thesis
    by (auto simp: answers_ok_def split: option.split)
qed (use c st in \<open>auto simp: answers_ok_def\<close>)

section \<open>The invariant of the server\<close>

text \<open>The datagrams a task has sent.\<close>

definition own_sent :: "nat \<Rightarrow> (nat \<times> client \<times> bytes) list \<Rightarrow> (nat \<times> client \<times> bytes) list" where
  "own_sent i sent = filter (\<lambda>e. fst e = i) sent"

definition sent_ok :: "nat \<Rightarrow> conn \<Rightarrow> (nat \<times> client \<times> bytes) list \<Rightarrow> bool" where
  "sent_ok i c sent \<longleftrightarrow>
     own_sent i sent = [] \<or>
     (\<exists>b. own_sent i sent = [(i, cn_client c, b)] \<and> cn_stream c = None \<and> cn_phase c = PClosed \<and>
          cn_history c = [(cn_input c, Some b)])"

definition srv_inv :: "'l server_env \<Rightarrow> 'l dns_cache \<Rightarrow> 'l serving \<Rightarrow> bool" where
  "srv_inv env c0 g \<longleftrightarrow>
     stored_from (sv_codec env) (sv_api env) c0 (ss_cache (sg_state g)) (sg_exchanges g) \<and>
     (\<forall>i c. sg_conns g i = Some c \<longrightarrow>
        answers_ok (sv_codec env) (sg_exchanges g) c \<and> bytes_ok c \<and> sent_ok i c (sg_sent g)) \<and>
     (\<forall>i. sg_conns g i = None \<longrightarrow> own_sent i (sg_sent g) = [])"

lemma new_task_ok:
  "answers_ok dc x (udp_task src d)" "bytes_ok (udp_task src d)"
  "answers_ok dc x (tcp_task src st)" "ts_out st = [] \<Longrightarrow> bytes_ok (tcp_task src st)"
  by (simp_all add: udp_task_def tcp_task_def answers_ok_def bytes_ok_def udp_ok_def tcp_ok_def responses_def
      map_filter_simps)

lemma sent_ok_new: "own_sent i sent = [] \<Longrightarrow> sent_ok i c sent"
  by (simp add: sent_ok_def)

lemma task_arrives_inv: "task_arrives g g' \<Longrightarrow> srv_inv env c0 g \<Longrightarrow> srv_inv env c0 g'"
  by (cases rule: task_arrives.cases) (auto simp: srv_inv_def new_task_ok sent_ok_new split: if_split_asm)

lemma conn_step_sent:
  assumes "conn_step env (c, s, x) (c', s', x') out" and "bytes_ok c" and "sent_ok i c sent"
  shows "sent_ok i c' (sent @ map (\<lambda>b. (i, cn_client c', b)) out)"
proof -
  have open_phase: "own_sent i sent = []" if "cn_phase c \<noteq> PClosed" using assms(3) that by (simp add: sent_ok_def)
  from assms(1) show ?thesis
  proof cases
    case (sent b)
    with assms(2) open_phase show ?thesis by (auto simp: sent_ok_def own_sent_def bytes_ok_def udp_ok_def)
  qed (use open_phase in \<open>simp_all add: sent_ok_def own_sent_def\<close>)
qed

lemma task_runs_inv:
  assumes lru: "entry_cache (sv_api env) view cap ok" and step: "task_runs env g g'"
    and inv: "srv_inv env (cache_new (sv_api env) n lo hi) g"
  shows "srv_inv env (cache_new (sv_api env) n lo hi) g'"
  using step
proof cases
  case (task_runs i c r out)
  obtain c' s' x' where r: "r = (c', s', x')" by (cases r)
  have st: "stored_from (sv_codec env) (sv_api env) (cache_new (sv_api env) n lo hi) (ss_cache (sg_state g)) (sg_exchanges g)"
    and c: "answers_ok (sv_codec env) (sg_exchanges g) c" "bytes_ok c" "sent_ok i c (sg_sent g)"
    using inv task_runs(2) by (auto simp: srv_inv_def)
  note cs = task_runs(3) [unfolded r]
  note A = conn_step_answers [OF lru cs st c(1)]
  have others: "own_sent j (sg_sent g @ map (\<lambda>b. (i, cn_client c', b)) out) = own_sent j (sg_sent g)" if "j \<noteq> i" for j
    using that by (simp add: own_sent_def filter_empty_conv)
  have "answers_ok (sv_codec env) x' d" if "sg_conns g j = Some d" for j d
  proof (rule answers_ok_mono)
    show "answers_ok (sv_codec env) (sg_exchanges g) d" using inv that by (simp add: srv_inv_def)
  qed (use A in simp)
  moreover note A conn_step_bytes [OF cs c(2)] conn_step_sent [OF cs c(2,3)] others
  ultimately show ?thesis
    using inv task_runs(1) r by (auto simp: srv_inv_def put_task_def sent_ok_def split: if_split_asm)
qed

lemma srv_run_inv:
  assumes "entry_cache (sv_api env) view cap ok" and "(srv_step env)\<^sup>*\<^sup>* (idle s0) g"
    and "ss_cache s0 = cache_new (sv_api env) n lo hi"
  shows "srv_inv env (cache_new (sv_api env) n lo hi) g"
  using assms(2)
proof (induction rule: rtranclp_induct)
  case base
  have "stored_from (sv_codec env) (sv_api env) (cache_new (sv_api env) n lo hi) (cache_new (sv_api env) n lo hi) []"
    unfolding stored_from_def using cache_reach.init by fastforce
  with assms(3) show ?case by (simp add: srv_inv_def idle_def own_sent_def)
next
  case (step g1 g2)
  then show ?case
    using task_arrives_inv task_runs_inv [OF assms(1)] by (auto simp: srv_step_def)
qed

section \<open>Progress\<close>

definition conn_work :: "conn \<Rightarrow> nat" where
  "conn_work c =
     (case cn_phase c of
        PClosed \<Rightarrow> 0
      | ph \<Rightarrow>
          6 * (case cn_stream c of None \<Rightarrow> 0 | Some st \<Rightarrow> length (ts_in st)) +
          (case ph of PRead \<Rightarrow> 1 | PReplying _ \<Rightarrow> 2 | PResolved _ _ \<Rightarrow> 3 | PWaiting _ _ \<Rightarrow> 4 | _ \<Rightarrow> 5))"

definition total_work :: "'l serving \<Rightarrow> nat" where
  "total_work g = (\<Sum>i \<in> dom (sg_conns g). conn_work (the (sg_conns g i)))"

lemma conn_step_work:
  assumes "conn_step env (c, s, x) (c', s', x') out"
  shows "conn_work c' < conn_work c"
  using assms
proof cases
  case (read_some st q st')
  then show ?thesis using read_query_shrinks [OF read_some(7)] by (simp add: conn_work_def)
next
  case (wrote b st r st')
  then show ?thesis using write_response_in [OF wrote(7)] by (simp add: conn_work_def)
qed (simp_all add: conn_work_def split: option.split)

lemma conn_step_ttls:
  assumes "conn_step env (c, s, x) (c', s', x') out" and "ttls_ordered s"
  shows "ttls_ordered s'"
  using assms(1)
proof cases
  case (answered q now r cc)
  from answered(6) show ?thesis
    by (cases rule: resolve_begin_cases) (use answered assms(2) in \<open>auto dest: cache_get_ttls\<close>)
next
  case (asked q now m cc)
  from asked(6) show ?thesis
    by (cases rule: resolve_begin_cases) (use asked assms(2) in \<open>auto dest: cache_get_ttls\<close>)
next
  case (failed q m now lat ex e cc)
  with assms(2) resolve_finish_Err [OF failed(6)] show ?thesis by simp
next
  case (replied q m now lat status body r cc)
  with assms(2) resolve_finish_total [OF assms(2), of "sv_codec env" "sv_api env" now lat m "Reply status (Ok body)"]
  show ?thesis by auto
next
  case (delivered q r qe reply)
  then have "ss_cache s' = ss_cache s"
    by (auto simp: deliver_def split: sum.split_asm option.split_asm)
  with assms(2) show ?thesis by simp
qed (use assms(2) in auto)

text \<open>With the lifetime bounds in order a task that is not closed can always go on.\<close>

lemma conn_step_progress:
  assumes "cn_phase c \<noteq> PClosed" and "bytes_ok c"
  shows "\<exists>r out. conn_step env (c, s, x) r out"
proof (cases "cn_phase c")
  case PRead
  then obtain st where st: "cn_stream c = Some st" using assms(2) by (auto simp: bytes_ok_def udp_ok_def split: option.split_asm)
  obtain r st' where rd: "read_query st = (r, st')" by fastforce
  consider e where "r = Err e" | "r = Ok None" | q where "r = Ok (Some q)" by (metis old.sum.exhaust option.exhaust)
  then show ?thesis using PRead st rd by cases (blast intro: conn_step.read_some conn_step.read_end)+
next
  case (PAsked q)
  obtain r c' where "resolve_begin (sv_codec env) (sv_api env) 0 q (ss_cache s) = (r, c')" by fastforce
  with PAsked show ?thesis by (cases r) (blast intro: conn_step.answered conn_step.asked)+
next
  case (PWaiting q m)
  have "resolve_finish (sv_codec env) (sv_api env) 0 0 m (ReqError []) (ss_cache s) = Some (Err (RequestFailed []), ss_cache s)"
    by (simp add: resolve_finish_def)
  with PWaiting show ?thesis by (blast intro: conn_step.failed)
next
  case (PResolved q r)
  then show ?thesis using conn_step.delivered by (metis surj_pair)
next
  case (PReplying b)
  then show ?thesis using conn_step.sent conn_step.wrote by (metis not_None_eq surj_pair)
qed (use assms(1) in simp)

lemma task_runs_work:
  assumes "task_runs env g g'" and "finite (dom (sg_conns g))"
  shows "total_work g' < total_work g" and "dom (sg_conns g') = dom (sg_conns g)"
proof -
  obtain i c r out where task_runs: "g' = put_task i r out g" "sg_conns g i = Some c"
      "conn_step env (c, sg_state g, sg_exchanges g) r out"
    using assms(1) by (rule task_runsE)
  obtain c' s' x' where r: "r = (c', s', x')" by (cases r)
  have i: "i \<in> dom (sg_conns g)" using task_runs(2) by blast
  have d: "dom (sg_conns g') = dom (sg_conns g)" using task_runs r i by (auto simp: put_task_def)
  then show "dom (sg_conns g') = dom (sg_conns g)" .
  have "conn_work (the (sg_conns g' i)) < conn_work (the (sg_conns g i))"
    using conn_step_work [OF task_runs(3) [unfolded r]] task_runs r by (simp add: put_task_def)
  moreover have "conn_work (the (sg_conns g' j)) \<le> conn_work (the (sg_conns g j))" if "j \<in> dom (sg_conns g)" for j
    using calculation task_runs r by (cases "j = i") (auto simp: put_task_def)
  ultimately show "total_work g' < total_work g"
    unfolding total_work_def d using i assms(2) by (intro sum_strict_mono_ex1) auto
qed

text \<open>A task at which storing an upstream answer would abort the process.\<close>

definition aborts :: "'l server_env \<Rightarrow> 'l serving \<Rightarrow> bool" where
  "aborts env g \<longleftrightarrow>
     (\<exists>i c q m now lat ex. sg_conns g i = Some c \<and> cn_phase c = PWaiting q m \<and>
        resolve_finish (sv_codec env) (sv_api env) now lat m ex (ss_cache (sg_state g)) = None)"

lemma srv_step_keeps:
  assumes "srv_step env g g'" and "finite (dom (sg_conns g)) \<and> ttls_ordered (sg_state g)"
  shows "finite (dom (sg_conns g')) \<and> ttls_ordered (sg_state g')"
  using assms(1) unfolding srv_step_def
proof
  assume "task_arrives g g'"
  then show ?thesis by cases (use assms(2) in auto)
next
  assume run: "task_runs env g g'"
  then obtain i c r out where "g' = put_task i r out g" "conn_step env (c, sg_state g, sg_exchanges g) r out"
    by (rule task_runsE)
  then have "ttls_ordered (sg_state g')"
    using conn_step_ttls [of env c "sg_state g"] assms(2) by (cases r) (auto simp: put_task_def)
  with task_runs_work(2) [OF run] assms(2) show ?thesis by simp
qed

lemma srv_run_keeps:
  assumes "(srv_step env)\<^sup>*\<^sup>* g g'" and "finite (dom (sg_conns g)) \<and> ttls_ordered (sg_state g)"
  shows "finite (dom (sg_conns g')) \<and> ttls_ordered (sg_state g')"
  using assms(1) by (induction rule: rtranclp_induct) (use assms(2) srv_step_keeps in blast)+

lemma ordered_not_aborts: "ttls_ordered (sg_state g) \<Longrightarrow> \<not> aborts env g"
  unfolding aborts_def by (metis option.distinct(1) resolve_finish_total)

lemma task_runs_bounded:
  "(task_runs env ^^ k) g g' \<Longrightarrow> finite (dom (sg_conns g)) \<Longrightarrow> k + total_work g' \<le> total_work g"
proof (induction k arbitrary: g')
  case (Suc k)
  then obtain g1 where g1: "(task_runs env ^^ k) g g1" "task_runs env g1 g'" by auto
  have "dom (sg_conns g1) = dom (sg_conns g)"
    using g1(1) Suc.prems(2)
  proof (induction k arbitrary: g1)
    case (Suc k)
    then show ?case using task_runs_work(2) by (metis relpowp_Suc_E)
  qed simp
  then have "total_work g' < total_work g1" using task_runs_work(1) [OF g1(2)] Suc.prems(2) by simp
  with Suc.IH [OF g1(1) Suc.prems(2)] show ?case by simp
qed simp

section \<open>One connection alone\<close>

text \<open>The functions of the server are the runs in which nothing else happens in between.\<close>

abbreviation quiet_run :: "'l server_env \<Rightarrow> conn \<times> 'l server_state \<times> (bytes \<times> bytes) list \<Rightarrow>
    conn \<times> 'l server_state \<times> (bytes \<times> bytes) list \<Rightarrow> bool" where
  "quiet_run env \<equiv> (\<lambda>a b. conn_step env a b [])\<^sup>*\<^sup>*"

lemma quiet_cons: "conn_step env a b [] \<Longrightarrow> quiet_run env b c \<Longrightarrow> quiet_run env a c"
  by (rule converse_rtranclp_into_rtranclp [where r = "\<lambda>a b. conn_step env a b []"])

lemma quiet_snoc: "quiet_run env a b \<Longrightarrow> conn_step env b c [] \<Longrightarrow> quiet_run env a c"
  by (rule rtranclp.rtrancl_into_rtrancl [where r = "\<lambda>a b. conn_step env a b []"])

text \<open>The exchange a query brings in, if any.\<close>

definition brought :: "(bytes \<Rightarrow> exchange) \<Rightarrow> bytes \<Rightarrow> (bytes \<times> bytes) list \<Rightarrow> (bytes \<times> bytes) list \<Rightarrow> bool" where
  "brought post q x x' \<longleftrightarrow> x' = x \<or> (\<exists>status body. post q = Reply status (Ok body) \<and> x' = (q, body) # x)"

lemma resolve_run:
  assumes "resolve (sv_codec env) (sv_api env) now now' lat post q (ss_cache s) = Some (r, c1)"
    and "cn_phase c = PAsked q"
  shows "\<exists>x'. quiet_run env (c, s, x) (c\<lparr>cn_phase := PResolved q r\<rparr>, s\<lparr>ss_cache := c1\<rparr>, x') \<and> brought post q x x'"
proof -
  let ?go = "\<lambda>a b. conn_step env a b []"
  obtain b c2 where b: "resolve_begin (sv_codec env) (sv_api env) now q (ss_cache s) = (b, c2)" by fastforce
  show ?thesis
  proof (cases b)
    case (Inl r')
    then have "?go (c, s, x) (c\<lparr>cn_phase := PResolved q r\<rparr>, s\<lparr>ss_cache := c1\<rparr>, x)"
      using assms b by (auto simp: resolve_def intro: conn_step.answered)
    then show ?thesis by (auto simp: brought_def)
  next
    case (Inr m)
    let ?c = "c\<lparr>cn_phase := PWaiting q m\<rparr>" and ?s = "s\<lparr>ss_cache := c2\<rparr>"
    have w: "?go (c, s, x) (?c, ?s, x)" using Inr b assms(2) by (auto intro: conn_step.asked)
    have f: "resolve_finish (sv_codec env) (sv_api env) now' lat m (post q) c2 = Some (r, c1)"
      using assms(1) b Inr by (simp add: resolve_def)
    have "\<exists>x'. ?go (?c, ?s, x) (c\<lparr>cn_phase := PResolved q r\<rparr>, s\<lparr>ss_cache := c1\<rparr>, x') \<and> brought post q x x'"
    proof (cases r)
      case (Inl e)
      with f conn_step.failed [of ?c q m env now' lat "post q" ?s e c1 x] show ?thesis
        by (auto simp: brought_def)
    next
      case ok: (Inr d)
      then obtain status body where "post q = Reply status (Ok body)" using f by (auto elim: resolve_finish_Ok)
      with f ok conn_step.replied [of ?c q m env now' lat status body ?s d c1 x] show ?thesis
        by (auto simp: brought_def)
    qed
    then show ?thesis using quiet_snoc [OF quiet_cons [OF w rtranclp.rtrancl_refl]] by blast
  qed
qed

lemma answer_query_run:
  assumes "answer_query env (cn_client c) (protocol_of c) qe q s = Some (reply, s')" and "cn_phase c = PAsked q"
  shows "\<exists>x'. quiet_run env (c, s, x)
    (c\<lparr>cn_phase := (case reply of None \<Rightarrow> PClosed | Some b \<Rightarrow> PReplying b), cn_history := cn_history c @ [(q, reply)]\<rparr>, s', x') \<and>
    brought (qe_post qe) q x x'"
proof -
  obtain r c1 where r: "resolve (sv_codec env) (sv_api env) (qe_now qe) (qe_replied qe) (qe_latency qe) (qe_post qe) q
      (ss_cache s) = Some (r, c1)" "deliver env (cn_client c) (protocol_of c) qe q r (s\<lparr>ss_cache := c1\<rparr>) = (reply, s')"
    using assms(1) by (auto simp: answer_query_def split: option.split_asm)
  let ?c = "c\<lparr>cn_phase := PResolved q r\<rparr>"
  obtain x' where run: "quiet_run env (c, s, x) (?c, s\<lparr>ss_cache := c1\<rparr>, x')" "brought (qe_post qe) q x x'"
    using resolve_run [OF r(1) assms(2)] by blast
  have "protocol_of ?c = protocol_of c" by (simp add: protocol_of_def)
  with conn_step.delivered [of ?c q r env qe "s\<lparr>ss_cache := c1\<rparr>" reply s' x'] r(2) run show ?thesis
    by (auto intro: quiet_snoc)
qed

lemma tcp_query_run:
  assumes "cn_phase c = PRead" and "cn_stream c = Some st" and "read_query st = (Ok (Some q), st1)"
    and "answer_query env (cn_client c) (lit ''TCP'') qe q s = Some (reply, s1)"
  shows "\<exists>x1. quiet_run env (c, s, x)
    (c\<lparr>cn_stream := Some st1, cn_phase := (case reply of None \<Rightarrow> PClosed | Some b \<Rightarrow> PReplying b),
       cn_history := cn_history c @ [(q, reply)]\<rparr>, s1, x1)"
proof -
  let ?c = "c\<lparr>cn_phase := PAsked q, cn_stream := Some st1\<rparr>"
  have start: "conn_step env (c, s, x) (?c, s, x) []" using assms(1-3) by (rule conn_step.read_some)
  show ?thesis
    using answer_query_run [of env ?c qe q s reply s1 x] assms(4) quiet_cons [OF start]
    by (auto simp: protocol_of_def)
qed

text \<open>A whole connection, as the loop of \<^verbatim>\<open>handle_tcp_connection\<close> runs it.\<close>

lemma handle_tcp_run:
  "handle_tcp env src qe n st s = Some (r, st', s') \<Longrightarrow>
   cn_phase c = PRead \<Longrightarrow> cn_stream c = Some st \<Longrightarrow> cn_client c = src \<Longrightarrow>
   \<exists>c' x'. quiet_run env (c, s, x) (c', s', x') \<and> cn_phase c' = PClosed \<and> cn_stream c' = Some st'"
proof (induction env src qe n st s arbitrary: c x rule: handle_tcp.induct)
  case (1 env src qe n st s)
  obtain b st1 where rd: "read_query st = (b, st1)" by fastforce
  consider e where "b = Err e" | "b = Ok None" | q where "b = Ok (Some q)" by (metis old.sum.exhaust option.exhaust)
  then show ?case
  proof cases
    case (3 query)
    obtain reply s1 where a: "answer_query env src (lit ''TCP'') (qe n) query s = Some (reply, s1)"
      using 1(2) rd 3 by (subst (asm) handle_tcp.simps) (auto split: option.split_asm)
    let ?d = "c\<lparr>cn_stream := Some st1, cn_phase := (case reply of None \<Rightarrow> PClosed | Some b \<Rightarrow> PReplying b),
      cn_history := cn_history c @ [(query, reply)]\<rparr>"
    obtain x1 where mid: "quiet_run env (c, s, x) (?d, s1, x1)"
      using tcp_query_run [OF 1(3,4) _ a [folded 1(5)]] rd 3 by blast
    show ?thesis
    proof (cases reply)
      case None
      with 1(2) rd 3 a have "st' = st1" "s' = s1" by (subst (asm) handle_tcp.simps, simp)+
      with mid None show ?thesis by (intro exI [of _ ?d] exI [of _ x1]) simp
    next
      case (Some b)
      obtain w st2 where w: "write_response b st1 = (w, st2)" by fastforce
      let ?e = "?d\<lparr>cn_phase := (if w = Ok () then PRead else PClosed), cn_stream := Some st2\<rparr>"
      have "conn_step env (?d, s1, x1) (?e, s1, x1) []" using Some w by (intro conn_step.wrote) auto
      with mid have e: "quiet_run env (c, s, x) (?e, s1, x1)" by (rule quiet_snoc)
      show ?thesis
      proof (cases w)
        case (Inl e)
        with 1(2) rd 3 a Some w have "st' = st2" "s' = s1" by (subst (asm) handle_tcp.simps, simp)+
        with e Inl show ?thesis by (intro exI [of _ ?e] exI [of _ x1]) simp
      next
        case (Inr u)
        have "handle_tcp env src qe (Suc n) st2 s1 = Some (r, st', s')"
          using 1(2) rd 3 a Some w Inr by (subst (asm) handle_tcp.simps) simp
        from 1(1) [OF rd [symmetric] 3 refl a refl Some w [symmetric] Inr this, of ?e x1] 1(5) Inr e
        show ?thesis by (auto intro: rtranclp_trans)
      qed
    qed
  qed (use 1 rd in \<open>force simp: handle_tcp.simps intro!: exI conjI r_into_rtranclp conn_step.read_end\<close>)+
qed

section \<open>Properties\<close>

lemma tcp_ok_prefixes:
  assumes "tcp_ok st c"
  shows "prefix (concat (map (frame \<circ> fst) (cn_history c))) (cn_input c)"
    and "prefix (ts_out st) (concat (map frame (responses (cn_history c))))"
  using assms by (auto simp: tcp_ok_def prefix_def split: phase.split_asm)

text \<open>
  C4. However the worker threads interleave the tasks of the server, each task answers its own
  queries and nobody else's: every answer given is a response the upstream server sent for these
  bytes, a response it sent for the same question with identifier and lifetimes rewritten, or the
  failure message for these bytes; a datagram gets at most one reply, sent to its source and answering
  its first 4096 bytes; on a connection the queries answered are the frames received, in order, and
  what has been written is the frames of their answers, in order, up to the point reached.
\<close>

theorem server_interleaving:
  assumes "entry_cache (sv_api env) view cap ok" and "ss_cache s0 = cache_new (sv_api env) n lo hi"
    and "(srv_step env)\<^sup>*\<^sup>* (idle s0) g" and "sg_conns g i = Some c"
  shows "(\<forall>(q, reply) \<in> set (cn_history c). reply_ok (sv_codec env) (sg_exchanges g) q reply) \<and>
         (case cn_stream c of
            None \<Rightarrow> own_sent i (sg_sent g) \<in>
              {[]} \<union> {[(i, cn_client c, b)] |b. cn_history c = [(cn_input c, Some b)]}
          | Some st \<Rightarrow>
              prefix (concat (map (frame \<circ> fst) (cn_history c))) (cn_input c) \<and>
              prefix (ts_out st) (concat (map frame (responses (cn_history c)))))"
proof -
  have "answers_ok (sv_codec env) (sg_exchanges g) c" "bytes_ok c" "sent_ok i c (sg_sent g)"
    using srv_run_inv [OF assms(1,3,2)] assms(4) by (auto simp: srv_inv_def)
  then show ?thesis
    by (auto simp: answers_ok_def bytes_ok_def sent_ok_def tcp_ok_prefixes split: option.split_asm)
qed

definition solo :: "conn \<Rightarrow> 'l server_state \<Rightarrow> (bytes \<times> bytes) list \<Rightarrow> 'l serving" where
  "solo c s x = \<lparr>sg_conns = [0 \<mapsto> c], sg_state = s, sg_exchanges = x, sg_sent = []\<rparr>"

lemma solo_run:
  "quiet_run env (c, s, x) r \<Longrightarrow> (srv_step env)\<^sup>*\<^sup>* (solo c s x) (case r of (c', s', x') \<Rightarrow> solo c' s' x')"
proof (induction rule: rtranclp_induct)
  case (step r1 r2)
  obtain c1 s1 x1 c2 s2 x2 where r: "r1 = (c1, s1, x1)" "r2 = (c2, s2, x2)" by (cases r1; cases r2)
  have "task_runs env (solo c1 s1 x1) (put_task 0 r2 [] (solo c1 s1 x1))"
    using step(2) r by (intro task_runs.task_runs) (simp_all add: solo_def)
  then have "srv_step env (solo c1 s1 x1) (solo c2 s2 x2)"
    by (simp add: srv_step_def put_task_def solo_def r)
  with step(3) r show ?case by (simp add: rtranclp.rtrancl_into_rtrancl)
qed simp

lemma datagram_run:
  assumes "answer_query env src (lit ''UDP'') qe (take 4096 d) s = Some (Some b, s')"
  shows "\<exists>x. brought (qe_post qe) (take 4096 d) [] x \<and> (srv_step env)\<^sup>*\<^sup>* (idle s)
    (solo (udp_task src d\<lparr>cn_phase := PReplying b, cn_history := [(take 4096 d, Some b)]\<rparr>) s' x)"
proof -
  let ?c = "udp_task src d"
  have "task_arrives (idle s) (solo ?c s [])"
    using task_arrives.datagram [of "idle s" 0 src d] by (simp add: idle_def solo_def)
  then have "srv_step env (idle s) (solo ?c s [])" by (simp add: srv_step_def)
  moreover obtain x where
    q: "quiet_run env (?c, s, []) (?c\<lparr>cn_phase := PReplying b, cn_history := [(take 4096 d, Some b)]\<rparr>, s', x)"
    and x: "brought (qe_post qe) (take 4096 d) [] x"
    using answer_query_run [of env ?c qe "take 4096 d" s "Some b" s' "[]"] assms
    by (auto simp: udp_task_def protocol_of_def)
  from solo_run [OF q] have "(srv_step env)\<^sup>*\<^sup>* (solo ?c s [])
      (solo (?c\<lparr>cn_phase := PReplying b, cn_history := [(take 4096 d, Some b)]\<rparr>) s' x)" by simp
  ultimately show ?thesis using x by (meson converse_rtranclp_into_rtranclp)
qed

text \<open>A datagram and its reply, on a server that does nothing else.\<close>

lemma datagram_replied:
  assumes "answer_query env src (lit ''UDP'') qe (take 4096 d) s = Some (Some b, s')"
  shows "\<exists>g c. (srv_step env)\<^sup>*\<^sup>* (idle s) g \<and> sg_conns g 0 = Some c \<and> cn_client c = src \<and> cn_stream c = None \<and>
    cn_input c = take 4096 d \<and> sg_sent g = [(0, src, b)] \<and> brought (qe_post qe) (take 4096 d) [] (sg_exchanges g)"
proof -
  let ?c = "udp_task src d\<lparr>cn_phase := PReplying b, cn_history := [(take 4096 d, Some b)]\<rparr>"
  obtain x where x: "brought (qe_post qe) (take 4096 d) [] x" "(srv_step env)\<^sup>*\<^sup>* (idle s) (solo ?c s' x)"
    using datagram_run [OF assms] by blast
  let ?g = "put_task 0 (?c\<lparr>cn_phase := PClosed\<rparr>, s', x) [b] (solo ?c s' x)"
  have "conn_step env (?c, s', x) (?c\<lparr>cn_phase := PClosed\<rparr>, s', x) [b]"
    by (rule conn_step.sent) (simp_all add: udp_task_def)
  then have "task_runs env (solo ?c s' x) ?g" by (intro task_runs.task_runs) (simp_all add: solo_def)
  then have "(srv_step env)\<^sup>*\<^sup>* (idle s) ?g"
    using x(2) by (meson srv_step_def rtranclp.rtrancl_into_rtrancl)
  with x(1) show ?thesis
    by (intro exI [of _ ?g] exI [of _ "?c\<lparr>cn_phase := PClosed\<rparr>"]) (simp add: put_task_def solo_def udp_task_def)
qed

lemma example_run:
  obtains x c where "(srv_step env0)\<^sup>*\<^sup>* (idle state0) (solo c state0 x)" "length (cn_history c) = 1" "cn_stream c = None"
  using datagram_run [of env0 "(lit ''::1'', 9)" qe0 query12 state0] answer_query12
  by (force simp: udp_task_def query12_def)

theorem server_interleaving_witness:
  "\<exists>g c. (srv_step env0)\<^sup>*\<^sup>* (idle state0) g \<and> sg_conns g 0 = Some c \<and> length (cn_history c) = 1 \<and>
     own_sent 0 (sg_sent g) \<in> {[]} \<union> {[(0, cn_client c, b)] |b. cn_history c = [(cn_input c, Some b)]}"
proof -
  obtain x c where c: "(srv_step env0)\<^sup>*\<^sup>* (idle state0) (solo c state0 x)" "length (cn_history c) = 1" "cn_stream c = None"
    by (rule example_run)
  have api: "sv_api env0 = ul_api" and cache: "ss_cache state0 = cache_new ul_api 10 60 3600"
    by (simp_all add: env0_def state0_def cache0_def)
  from server_interleaving [OF ec.entry_cache_axioms [folded api] cache [folded api] c(1), of 0 c] c(3)
  have "own_sent 0 (sg_sent (solo c state0 x)) \<in>
      {[]} \<union> {[(0, cn_client c, b)] |b. cn_history c = [(cn_input c, Some b)]}"
    by (simp add: solo_def)
  with c show ?thesis by (intro exI [of _ "solo c state0 x"] exI [of _ c]) (simp add: solo_def)
qed

lemma servfail_built:
  assumes "parses dc q" and "\<forall>q m. from_vec dc q = Ok m \<longrightarrow> to_vec dc (servfail_of m) \<noteq> None"
  shows "build_servfail dc q \<noteq> None"
  using assms by (cases "from_vec dc q") (auto simp: parses_def build_servfail_def)

text \<open>When no task can go on, all are closed and the datagrams are answered.\<close>

definition drained :: "'l server_env \<Rightarrow> 'l serving \<Rightarrow> bool" where
  "drained env g \<longleftrightarrow>
     (\<forall>i c. sg_conns g i = Some c \<longrightarrow> cn_phase c = PClosed \<and>
        (cn_stream c = None \<and> parses (sv_codec env) (cn_input c) \<longrightarrow>
           (\<exists>b. cn_history c = [(cn_input c, Some b)])))"

lemma stuck_drained:
  assumes "srv_inv env c0 g" and "\<nexists>g'. task_runs env g g'"
    and "\<forall>q m. from_vec (sv_codec env) q = Ok m \<longrightarrow> to_vec (sv_codec env) (servfail_of m) \<noteq> None"
  shows "drained env g"
  unfolding drained_def
proof (intro allI impI conjI)
  fix i c assume c: "sg_conns g i = Some c"
  then have ok: "answers_ok (sv_codec env) (sg_exchanges g) c" "bytes_ok c" using assms(1) by (auto simp: srv_inv_def)
  then show closed: "cn_phase c = PClosed"
    using conn_step_progress [of c env "sg_state g" "sg_exchanges g"] task_runs.task_runs [OF c] assms(2) by blast
  assume udp: "cn_stream c = None \<and> parses (sv_codec env) (cn_input c)"
  obtain reply where h: "cn_history c = [(cn_input c, reply)]"
    using ok(2) udp closed by (auto simp: bytes_ok_def udp_ok_def)
  then have "reply_ok (sv_codec env) (sg_exchanges g) (cn_input c) reply" using ok(1) by (simp add: answers_ok_def)
  with h servfail_built [OF _ assms(3), of "cn_input c"] udp show "\<exists>b. cn_history c = [(cn_input c, Some b)]"
    by (cases reply) (auto simp: reply_ok_def)
qed

lemma reachable_drains:
  assumes "entry_cache (sv_api env) view cap ok" and "ss_cache s0 = cache_new (sv_api env) n lo hi" and "lo \<le> hi"
    and "\<forall>q m. from_vec (sv_codec env) q = Ok m \<longrightarrow> to_vec (sv_codec env) (servfail_of m) \<noteq> None"
    and "(srv_step env)\<^sup>*\<^sup>* (idle s0) g"
  shows "\<not> aborts env g" and "(task_runs env ^^ k) g g' \<Longrightarrow> k \<le> total_work g"
    and "drained env g \<longleftrightarrow> (\<nexists>g'. task_runs env g g')"
proof -
  have keeps: "finite (dom (sg_conns g)) \<and> ttls_ordered (sg_state g)"
    using srv_run_keeps [OF assms(5)] assms(2,3) by (simp add: idle_def cache_new_def)
  then show "\<not> aborts env g" using ordered_not_aborts by blast
  show "k \<le> total_work g" if "(task_runs env ^^ k) g g'" using task_runs_bounded [OF that] keeps by simp
  have "\<nexists>g'. task_runs env g g'" if "drained env g"
  proof
    assume "\<exists>g'. task_runs env g g'"
    then obtain i c r out where "sg_conns g i = Some c" "conn_step env (c, sg_state g, sg_exchanges g) r out"
      by (auto elim: task_runsE)
    with that conn_step_work [of env c] show False by (cases r) (fastforce simp: drained_def conn_work_def)
  qed
  then show "drained env g \<longleftrightarrow> (\<nexists>g'. task_runs env g g')"
    using stuck_drained [OF srv_run_inv [OF assms(1,5,2)] _ assms(4)] by blast
qed

text \<open>
  A state from which every complete run of the tasks that have arrived ends drained, whichever task runs
  next and whatever the upstream server answers: no run gets stuck before, and none goes on for
  ever.
\<close>

inductive must_drain :: "'l server_env \<Rightarrow> 'l serving \<Rightarrow> bool" for env where
  rest: "drained env g \<Longrightarrow> \<nexists>g'. task_runs env g g' \<Longrightarrow> must_drain env g"
| onward: "task_runs env g g1 \<Longrightarrow> (\<And>g'. task_runs env g g' \<Longrightarrow> must_drain env g') \<Longrightarrow> must_drain env g"

lemma reachable_must_drain:
  assumes "entry_cache (sv_api env) view cap ok" and "ss_cache s0 = cache_new (sv_api env) n lo hi" and "lo \<le> hi"
    and "\<forall>q m. from_vec (sv_codec env) q = Ok m \<longrightarrow> to_vec (sv_codec env) (servfail_of m) \<noteq> None"
  shows "(srv_step env)\<^sup>*\<^sup>* (idle s0) g \<Longrightarrow> must_drain env g"
proof (induction "total_work g" arbitrary: g rule: less_induct)
  case less
  have fin: "finite (dom (sg_conns g))"
    using srv_run_keeps [OF less.prems] assms(2,3) by (simp add: idle_def cache_new_def)
  have next_state: "must_drain env g'" if "task_runs env g g'" for g'
  proof -
    have "srv_step env g g'" using that by (simp add: srv_step_def)
    with less.prems have "(srv_step env)\<^sup>*\<^sup>* (idle s0) g'" by (rule rtranclp.rtrancl_into_rtrancl)
    with less.hyps task_runs_work(1) [OF that fin] show ?thesis by blast
  qed
  show ?case
  proof (cases "drained env g")
    case True
    with reachable_drains(3) [OF assms less.prems] show ?thesis by (blast intro: must_drain.rest)
  next
    case False
    then obtain g1 where "task_runs env g g1" using reachable_drains(3) [OF assms less.prems] by blast
    then show ?thesis using next_state by (rule must_drain.onward)
  qed
qed

text \<open>Without a query log the tasks touch neither files nor the standard output.\<close>

lemma conn_step_silent:
  assumes "conn_step env (c, s, x) (c', s', x') out" and "sv_logger env = None"
  shows "ss_io s' = ss_io s"
  using assms
  by cases (auto simp: deliver_def log_query_def split: sum.split_asm option.split_asm)

lemma srv_run_silent:
  assumes "(srv_step env)\<^sup>*\<^sup>* g g'" and "sv_logger env = None"
  shows "ss_io (sg_state g') = ss_io (sg_state g)"
  using assms(1)
proof (induction rule: rtranclp_induct)
  case (step g1 g2)
  have "ss_io (sg_state g2) = ss_io (sg_state g1)"
    using step(2) conn_step_silent [OF _ assms(2)]
    by (fastforce simp: srv_step_def put_task_def elim: task_arrives.cases task_runsE split: prod.split)
  with step(3) show ?case by simp
qed simp

text \<open>
  C12. The server never hangs and never stops: with the lifetime bounds in order no state the server can
  reach aborts the process, whatever the upstream server answers; from every such state the tasks
  that have arrived take only boundedly many more steps, and none can go on exactly when all are
  closed and every datagram that parses has got its one answer.
\<close>

theorem server_drains:
  assumes "entry_cache (sv_api env) view cap ok" and "ss_cache s0 = cache_new (sv_api env) n lo hi" and "lo \<le> hi"
    and "\<forall>q m. from_vec (sv_codec env) q = Ok m \<longrightarrow> to_vec (sv_codec env) (servfail_of m) \<noteq> None"
    and "(srv_step env)\<^sup>*\<^sup>* (idle s0) g"
  shows "\<not> aborts env g \<and>
         (\<forall>k g'. (task_runs env ^^ k) g g' \<longrightarrow> k \<le> total_work g) \<and>
         ((\<nexists>g'. task_runs env g g') \<longleftrightarrow> drained env g)"
  using reachable_drains [OF assms] by blast

theorem server_drains_witness:
  "\<exists>g. (srv_step env0)\<^sup>*\<^sup>* (idle state0) g \<and> sg_conns g 0 \<noteq> None \<and> \<not> aborts env0 g \<and>
     (\<forall>k g'. (task_runs env0 ^^ k) g g' \<longrightarrow> k \<le> total_work g)"
proof -
  obtain x c where c: "(srv_step env0)\<^sup>*\<^sup>* (idle state0) (solo c state0 x)"
    by (rule example_run)
  have api: "sv_api env0 = ul_api" and cache: "ss_cache state0 = cache_new ul_api 10 60 3600"
    by (simp_all add: env0_def state0_def cache0_def)
  have enc: "\<forall>q m. from_vec (sv_codec env0) q = Ok m \<longrightarrow> to_vec (sv_codec env0) (servfail_of m) \<noteq> None"
    by (simp add: env0_def header_codec_def)
  from server_drains [OF ec.entry_cache_axioms [folded api] cache [folded api] _ enc c] c
  show ?thesis by (intro exI [of _ "solo c state0 x"]) (simp add: solo_def)
qed

end
