(* ===== verification/Server_Log.thy ===== *)
theory Server_Log
  imports Server_Steps "HOL-Library.Multiset"
begin

text \<open>
  The server and its query log together: whatever the interleaving of the tasks, the log file holds one
  line for every answer that has been given, and nothing else is added to it. The lines of different
  tasks appear in the order in which the tasks reached the log.
\<close>

section \<open>Definitions\<close>

text \<open>The answers a task has given: client, query and response.\<close>

definition given :: "conn \<Rightarrow> (client \<times> bytes \<times> bytes) list" where
  "given c = List.map_filter (\<lambda>(q, reply). map_option (\<lambda>b. (cn_client c, q, b)) reply) (cn_history c)"

definition all_given :: "'l serving \<Rightarrow> (client \<times> bytes \<times> bytes) multiset" where
  "all_given g = (\<Sum>i \<in> dom (sg_conns g). mset (given (the (sg_conns g i))))"

text \<open>What a call of the logger reports of an answer.\<close>

definition reported :: "log_call \<Rightarrow> client \<times> bytes \<times> bytes" where
  "reported a = ((lc_client_ip a, lc_client_port a), lc_query a, lc_response a)"

definition logged :: "'l server_env \<Rightarrow> query_logger \<Rightarrow> log_io \<Rightarrow> 'l serving \<Rightarrow> log_call list \<Rightarrow> bool" where
  "logged env lg io0 g calls \<longleftrightarrow>
     ss_io (sg_state g) = fold (log (sv_codec env) (sv_json env) lg) calls io0 \<and>
     mset (map reported calls) = all_given g"

section \<open>Lemmas\<close>

lemma log_query_is_call:
  assumes "sv_logger env = Some lg"
  shows "\<exists>a. ss_io (log_query env src proto qe q r s) = log (sv_codec env) (sv_json env) lg a (ss_io s) \<and>
    reported a = (src, q, dr_response r)"
proof (intro exI conjI)
  let ?a = "\<lparr>lc_secs = qe_secs qe, lc_millis = qe_millis qe, lc_client_ip = fst src, lc_client_port = snd src,
    lc_protocol = proto, lc_query = q, lc_response = dr_response r, lc_cached = dr_cached r,
    lc_upstream_status = dr_upstream_status r, lc_upstream_latency_ms = dr_upstream_latency_ms r,
    lc_total_latency_ms = qe_total qe\<rparr>"
  show "ss_io (log_query env src proto qe q r s) = log (sv_codec env) (sv_json env) lg ?a (ss_io s)"
    using assms by (simp add: log_query_def)
  show "reported ?a = (src, q, dr_response r)" by (simp add: reported_def)
qed

lemma given_simps [simp]:
  "given (c\<lparr>cn_phase := p\<rparr>) = given c" "given (c\<lparr>cn_stream := t\<rparr>) = given c"
  "given (c\<lparr>cn_history := cn_history c @ [(q, reply)]\<rparr>) =
     given c @ (case reply of None \<Rightarrow> [] | Some b \<Rightarrow> [(cn_client c, q, b)])"
  by (simp_all add: given_def map_filter_def split: option.split)

lemma deliver_logs:
  assumes "deliver env src proto qe q r s = (reply, s')" and "sv_logger env = Some lg"
  shows "\<exists>calls. ss_io s' = fold (log (sv_codec env) (sv_json env) lg) calls (ss_io s) \<and>
    map reported calls = (case reply of None \<Rightarrow> [] | Some b \<Rightarrow> [(src, q, b)])"
proof (cases reply)
  case None
  then have "ss_io s' = ss_io s" using assms(1) by (auto simp: deliver_def split: sum.split_asm option.split_asm)
  with None show ?thesis by (intro exI [of _ "[]"]) simp
next
  case (Some b)
  then obtain d where "s' = log_query env src proto qe q d s" "dr_response d = b"
    using assms(1) by (auto simp: deliver_def split: sum.split_asm option.split_asm)
  with log_query_is_call [OF assms(2), of src proto qe q d s] obtain a where
    "ss_io s' = log (sv_codec env) (sv_json env) lg a (ss_io s)" "reported a = (src, q, b)" by auto
  with Some show ?thesis by (intro exI [of _ "[a]"]) simp
qed

lemma conn_step_logs:
  assumes "conn_step env (c, s, x) (c', s', x') out" and "sv_logger env = Some lg"
  shows "\<exists>calls. ss_io s' = fold (log (sv_codec env) (sv_json env) lg) calls (ss_io s) \<and>
    given c' = given c @ map reported calls"
  using assms(1)
proof cases
  case (delivered q r qe reply)
  from deliver_logs [OF delivered(5) assms(2)] delivered show ?thesis by (auto simp: given_def map_filter_def split: option.split)
qed (auto intro!: exI [of _ "[]"])

lemma all_given_upd:
  assumes "finite (dom (sg_conns g))" and "sg_conns g i = Some c" and "sg_conns g' = (sg_conns g)(i \<mapsto> c')"
    and "given c' = given c @ new"
  shows "all_given g' = all_given g + mset new"
proof -
  have i: "i \<in> dom (sg_conns g)" and d: "dom (sg_conns g') = dom (sg_conns g)" using assms(2,3) by auto
  have "(\<Sum>j \<in> dom (sg_conns g) - {i}. mset (given (the (sg_conns g' j)))) =
      (\<Sum>j \<in> dom (sg_conns g) - {i}. mset (given (the (sg_conns g j))))"
    using assms(3) by (intro sum.cong) auto
  with assms(2-4) show ?thesis
    unfolding all_given_def d sum.remove [OF assms(1) i] by simp
qed

lemma all_given_new:
  assumes "finite (dom (sg_conns g))" and "sg_conns g i = None" and "given c = []"
  shows "all_given (g\<lparr>sg_conns := (sg_conns g)(i \<mapsto> c)\<rparr>) = all_given g"
proof -
  have "(\<Sum>j \<in> dom (sg_conns g). mset (given (the (((sg_conns g)(i \<mapsto> c)) j)))) =
      (\<Sum>j \<in> dom (sg_conns g). mset (given (the (sg_conns g j))))"
    using assms(2) by (intro sum.cong) auto
  with assms show ?thesis by (simp add: all_given_def domIff)
qed

lemma new_task_given [simp]: "given (udp_task src d) = []" "given (tcp_task src st) = []"
  by (simp_all add: given_def udp_task_def tcp_task_def map_filter_simps)

lemma srv_step_logs:
  assumes "srv_step env g g'" and "finite (dom (sg_conns g))" and "sv_logger env = Some lg"
    and "logged env lg io0 g calls"
  shows "\<exists>new. logged env lg io0 g' (calls @ new)"
  using assms(1) unfolding srv_step_def
proof
  assume "task_arrives g g'"
  then have "all_given g' = all_given g \<and> sg_state g' = sg_state g"
    using assms(2) by cases (simp_all add: all_given_new)
  with assms(4) show ?thesis by (intro exI [of _ "[]"]) (simp add: logged_def)
next
  assume "task_runs env g g'"
  then obtain i c r out where run: "g' = put_task i r out g" "sg_conns g i = Some c"
      "conn_step env (c, sg_state g, sg_exchanges g) r out" by (rule task_runsE)
  obtain c' s' x' where r: "r = (c', s', x')" by (cases r)
  obtain new where new: "ss_io s' = fold (log (sv_codec env) (sv_json env) lg) new (ss_io (sg_state g))"
      "given c' = given c @ map reported new"
    using conn_step_logs [OF run(3) [unfolded r] assms(3)] by blast
  have "sg_conns g' = (sg_conns g)(i \<mapsto> c')" using run(1) r by (simp add: put_task_def)
  from all_given_upd [OF assms(2) run(2) this new(2)]
  have "all_given g' = all_given g + mset (map reported new)" .
  with new(1) assms(4) run(1) r show ?thesis by (intro exI [of _ new]) (simp add: logged_def put_task_def)
qed

lemma srv_run_logs:
  assumes "(srv_step env)\<^sup>*\<^sup>* (idle s0) g" and "sv_logger env = Some lg" and "ttls_ordered s0"
  shows "\<exists>calls. logged env lg (ss_io s0) g calls"
  using assms(1)
proof (induction rule: rtranclp_induct)
  case base
  show ?case by (intro exI [of _ "[]"]) (simp add: logged_def idle_def all_given_def)
next
  case (step g1 g2)
  have "finite (dom (sg_conns g1))" using srv_run_keeps [OF step(1)] assms(3) by (simp add: idle_def)
  with step(2,3) assms(2) srv_step_logs show ?case by blast
qed

section \<open>Properties\<close>

text \<open>
  C15. The log file of a running server only grows, by exactly one line per answer given: in every
  state the server can reach, however its tasks interleave, the lines of the file are the earlier
  lines followed by the printed entries of the answers given so far, each once, with the client, the
  query and the response of the answer; no other file has changed.
\<close>

theorem server_log_lines:
  assumes "json_lines (sv_json env)" and "p \<noteq> []" and "p \<noteq> lit ''-''" and "fs_write_fault fs (path_key p) = None"
    and "logger_new pid (Some p) fs = (Ok lg, fs1)"
    and "old = (case fs_file fs (path_key p) of None \<Rightarrow> [] | Some t \<Rightarrow> t)" and "old = [] \<or> last old = 10"
    and "\<forall>a. sv_json env (ser_entry (make_entry (sv_codec env) lg a)) = Some (line a)"
    and "sv_logger env = Some lg" and "li_fs (ss_io s0) = fs1" and "ttls_ordered s0"
    and "(srv_step env)\<^sup>*\<^sup>* (idle s0) g"
  shows "\<exists>calls new. fs_file (li_fs (ss_io (sg_state g))) = (fs_file fs)(path_key p \<mapsto> new) \<and>
           lines new = lines old @ map line calls \<and> mset (map reported calls) = all_given g"
proof -
  obtain calls where calls: "logged env lg (ss_io s0) g calls"
    using srv_run_logs [OF assms(12,9,11)] by blast
  have io: "ss_io s0 = (ss_io s0)\<lparr>li_fs := fs1\<rparr>" using assms(10) by simp
  have "\<exists>new. fs_file (li_fs (fold (log (sv_codec env) (sv_json env) lg) calls ((ss_io s0)\<lparr>li_fs := fs1\<rparr>))) =
      (fs_file fs)(path_key p \<mapsto> new) \<and> lines new = lines old @ map line calls"
    by (rule log_appends_lines [OF assms(1-7)]) (use assms(8) in simp)
  with calls io show ?thesis unfolding logged_def by (metis (no_types, lifting))
qed

definition log_file :: path where
  "log_file = [113]"

theorem server_log_lines_witness:
  "\<exists>env s0 g new. (srv_step (env :: (bytes, cache_entry) use_list server_env))\<^sup>*\<^sup>* (idle s0) g \<and>
     fs_file (li_fs (ss_io (sg_state g))) = (fs_file empty_fs)(path_key log_file \<mapsto> new) \<and> length (lines new) = 1"
proof -
  have key: "path_key log_file = (False, [[113]])" unfolding log_file_def by code_simp
  obtain lg fs1 where lg: "logger_new 7 (Some log_file) empty_fs = (Ok lg, fs1)"
    unfolding log_file_def by (simp add: logger_new_def open_append_def key [unfolded log_file_def] lit_def)
  let ?env = "env0\<lparr>sv_logger := Some lg\<rparr>"
  let ?s = "state0\<lparr>ss_io := \<lparr>li_fs = fs1, li_out = [], li_out_fault = None\<rparr>\<rparr>"
  have ttls: "ttls_ordered ?s" by (simp add: state0_def)
  have enc: "\<forall>q m. from_vec (sv_codec ?env) q = Ok m \<longrightarrow> to_vec (sv_codec ?env) (servfail_of m) \<noteq> None"
    by (simp add: env0_def header_codec_def)
  obtain b s1 where "answer_query ?env (lit ''::1'', 9) (lit ''UDP'') qe0 (take 4096 query12) ?s = Some (Some b, s1)"
    using answer_query_total [OF ttls enc, of "(lit ''::1'', 9)" "lit ''UDP''" qe0 "take 4096 query12"]
    by (auto simp: env0_def header_codec_def)
  then obtain x where run: "(srv_step ?env)\<^sup>*\<^sup>* (idle ?s)
      (solo (udp_task (lit ''::1'', 9) query12\<lparr>cn_phase := PReplying b, cn_history := [(take 4096 query12, Some b)]\<rparr>) s1 x)"
    (is "(srv_step ?env)\<^sup>*\<^sup>* (idle ?s) ?g") using datagram_run by blast
  have js: "\<forall>a. sv_json ?env (ser_entry (make_entry (sv_codec ?env) lg a)) =
      Some (the (js_compact (ser_entry (make_entry (sv_codec ?env) lg a))))"
    by (simp add: env0_def js_compact_def)
  have one: "all_given ?g = {#((lit ''::1'', 9), take 4096 query12, b)#}"
    by (simp add: all_given_def solo_def given_def udp_task_def map_filter_simps)
  have "json_lines (sv_json ?env)" using compact.json_lines_axioms by (simp add: env0_def)
  from server_log_lines [OF this _ _ _ lg refl _ js _ _ ttls run] one
  obtain calls new where n: "fs_file (li_fs (ss_io (sg_state ?g))) = (fs_file empty_fs)(path_key log_file \<mapsto> new)"
      "lines new = lines [] @ map (\<lambda>a. the (js_compact (ser_entry (make_entry (sv_codec ?env) lg a)))) calls"
      "mset (map reported calls) = {#((lit ''::1'', 9), take 4096 query12, b)#}"
    by (auto simp: log_file_def lit_def)
  have "size (mset (map reported calls)) = 1" unfolding n(3) by simp
  then have "length calls = 1" by simp
  moreover have "lines [] = []" by code_simp
  ultimately have "length (lines new) = 1" using n(2) by simp
  with run n(1) show ?thesis by blast
qed

end
