(* ===== verification/Dns_Config.thy ===== *)
theory Dns_Config
  imports Schema Rust_Fs
begin

text \<open>
  The configuration of the DNS daemon, \<^verbatim>\<open>zebrafish-dns/src/config.rs\<close>: the structures with the readers their serde
  attributes derive, the built-in configuration, and the choice of the upstream server. The syntax
  of TOML is a parameter, as for the other program; a \<^verbatim>\<open>usize\<close> has 64 bits.
\<close>

section \<open>Structures\<close>

record server_config =
  sc_listen_address :: rstr
  sc_listen_port :: u16
  sc_listen_address_v6 :: rstr
  sc_workers :: u64

record provider_config =
  pc_url :: rstr
  pc_bootstrap :: "rstr list"

record upstream_config =
  uc_provider :: rstr
  uc_custom_url :: "rstr option"
  uc_providers :: "(rstr \<times> provider_config) list"

record cache_config =
  cc_max_entries :: u64
  cc_min_ttl :: u32
  cc_max_ttl :: u32

record logging_config =
  lg_level :: rstr

record query_log_config =
  qc_enabled :: bool
  qc_output :: "rstr option"

record dns_config =
  dn_server :: server_config
  dn_upstream :: upstream_config
  dn_cache :: cache_config
  dn_logging :: logging_config
  dn_query_log :: query_log_config

section \<open>Reading\<close>

definition default_listen_v6 :: rstr where "default_listen_v6 = lit ''::''"
definition default_max_entries :: u64 where "default_max_entries = 10000"
definition default_min_ttl :: u32 where "default_min_ttl = 60"
definition default_max_ttl :: u32 where "default_max_ttl = 86400"
definition default_log_level :: rstr where "default_log_level = lit ''info''"

definition query_log_default :: query_log_config where
  "query_log_default = \<lparr>qc_enabled = False, qc_output = None\<rparr>"

definition de_server :: "toml_value \<Rightarrow> server_config option" where
  "de_server v = do {
     fs \<leftarrow> fields_of [lit ''listen_address'', lit ''listen_port'', lit ''listen_address_v6'', lit ''workers''] v;
     address \<leftarrow> req_field fs (lit ''listen_address'') de_string;
     port \<leftarrow> req_field fs (lit ''listen_port'') de_uint;
     v6 \<leftarrow> default_field default_listen_v6 fs (lit ''listen_address_v6'') de_string;
     workers \<leftarrow> default_field 0 fs (lit ''workers'') de_uint;
     Some \<lparr>sc_listen_address = address, sc_listen_port = port, sc_listen_address_v6 = v6,
           sc_workers = workers\<rparr> }"

definition de_provider :: "toml_value \<Rightarrow> provider_config option" where
  "de_provider v = do {
     fs \<leftarrow> fields_of [lit ''url'', lit ''bootstrap''] v;
     url \<leftarrow> req_field fs (lit ''url'') de_string;
     bootstrap \<leftarrow> req_field fs (lit ''bootstrap'') (de_vec de_string);
     Some \<lparr>pc_url = url, pc_bootstrap = bootstrap\<rparr> }"

text \<open>A hash map takes the entries of a table, whose keys are distinct.\<close>

fun de_entries :: "(toml_value \<Rightarrow> 'a option) \<Rightarrow> toml_table \<Rightarrow> (rstr \<times> 'a) list option" where
  "de_entries de [] = Some []"
| "de_entries de ((k, v) # t) = do { x \<leftarrow> de v; xs \<leftarrow> de_entries de t; Some ((k, x) # xs) }"

fun de_map :: "(toml_value \<Rightarrow> 'a option) \<Rightarrow> toml_value \<Rightarrow> (rstr \<times> 'a) list option" where
  "de_map de (TTable t) = de_entries de t"
| "de_map de _ = None"

definition de_upstream :: "toml_value \<Rightarrow> upstream_config option" where
  "de_upstream v = do {
     fs \<leftarrow> fields_of [lit ''provider'', lit ''custom_url'', lit ''providers''] v;
     provider \<leftarrow> req_field fs (lit ''provider'') de_string;
     custom_url \<leftarrow> opt_field fs (lit ''custom_url'') de_string;
     providers \<leftarrow> default_field [] fs (lit ''providers'') (de_map de_provider);
     Some \<lparr>uc_provider = provider, uc_custom_url = custom_url, uc_providers = providers\<rparr> }"

definition de_cache :: "toml_value \<Rightarrow> cache_config option" where
  "de_cache v = do {
     fs \<leftarrow> fields_of [lit ''max_entries'', lit ''min_ttl'', lit ''max_ttl''] v;
     max_entries \<leftarrow> default_field default_max_entries fs (lit ''max_entries'') de_uint;
     min_ttl \<leftarrow> default_field default_min_ttl fs (lit ''min_ttl'') de_uint;
     max_ttl \<leftarrow> default_field default_max_ttl fs (lit ''max_ttl'') de_uint;
     Some \<lparr>cc_max_entries = max_entries, cc_min_ttl = min_ttl, cc_max_ttl = max_ttl\<rparr> }"

definition de_logging :: "toml_value \<Rightarrow> logging_config option" where
  "de_logging v = do {
     fs \<leftarrow> fields_of [lit ''level''] v;
     level \<leftarrow> default_field default_log_level fs (lit ''level'') de_string;
     Some \<lparr>lg_level = level\<rparr> }"

definition de_query_log :: "toml_value \<Rightarrow> query_log_config option" where
  "de_query_log v = do {
     fs \<leftarrow> fields_of [lit ''enabled'', lit ''output''] v;
     enabled \<leftarrow> default_field False fs (lit ''enabled'') as_bool;
     output \<leftarrow> opt_field fs (lit ''output'') de_string;
     Some \<lparr>qc_enabled = enabled, qc_output = output\<rparr> }"

definition de_dns_config :: "toml_value \<Rightarrow> dns_config option" where
  "de_dns_config v = do {
     fs \<leftarrow> fields_of [lit ''server'', lit ''upstream'', lit ''cache'', lit ''logging'', lit ''query_log''] v;
     server \<leftarrow> req_field fs (lit ''server'') de_server;
     upstream \<leftarrow> req_field fs (lit ''upstream'') de_upstream;
     cache \<leftarrow> req_field fs (lit ''cache'') de_cache;
     logging \<leftarrow> req_field fs (lit ''logging'') de_logging;
     query_log \<leftarrow> default_field query_log_default fs (lit ''query_log'') de_query_log;
     Some \<lparr>dn_server = server, dn_upstream = upstream, dn_cache = cache, dn_logging = logging,
           dn_query_log = query_log\<rparr> }"

datatype dns_load_error = LoadIo io_error | LoadToml rstr

type_synonym toml_parser = "rstr \<Rightarrow> (rstr, toml_table) result"

definition dns_load :: "toml_parser \<Rightarrow> path \<Rightarrow> fsys \<Rightarrow> (dns_load_error, dns_config) result" where
  "dns_load prs p fs =
     (case read_to_string fs p of
        Inl e \<Rightarrow> Err (LoadIo e)
      | Inr content \<Rightarrow>
          (case prs content of
             Inl e \<Rightarrow> Err (LoadToml e)
           | Inr t \<Rightarrow> ok_or (LoadToml (lit ''schema'')) (de_dns_config (TTable t))))"

section \<open>The upstream server\<close>

definition cloudflare_url :: rstr where
  "cloudflare_url = lit ''https://cloudflare-dns.com/dns-query''"

definition doh_url :: "dns_config \<Rightarrow> rstr" where
  "doh_url c =
     (if uc_provider (dn_upstream c) = lit ''custom''
      then (case uc_custom_url (dn_upstream c) of Some u \<Rightarrow> u | None \<Rightarrow> cloudflare_url)
      else
        (case map_of (uc_providers (dn_upstream c)) (uc_provider (dn_upstream c)) of
           Some p \<Rightarrow> pc_url p
         | None \<Rightarrow> cloudflare_url))"

definition bootstrap_addrs :: "dns_config \<Rightarrow> rstr list" where
  "bootstrap_addrs c =
     (if uc_provider (dn_upstream c) = lit ''custom'' then [lit ''1.1.1.1'']
      else
        (case map_of (uc_providers (dn_upstream c)) (uc_provider (dn_upstream c)) of
           Some p \<Rightarrow> pc_bootstrap p
         | None \<Rightarrow> [lit ''1.1.1.1'']))"

definition dns_default :: dns_config where
  "dns_default =
     \<lparr>dn_server = \<lparr>sc_listen_address = lit ''0.0.0.0'', sc_listen_port = 53,
                   sc_listen_address_v6 = lit ''::'', sc_workers = 0\<rparr>,
      dn_upstream = \<lparr>uc_provider = lit ''cloudflare'', uc_custom_url = None,
                     uc_providers =
                       [(lit ''cloudflare'',
                         \<lparr>pc_url = lit ''https://cloudflare-dns.com/dns-query'',
                          pc_bootstrap = [lit ''1.1.1.1'', lit ''1.0.0.1'', lit ''2606:4700:4700::1111'',
                                          lit ''2606:4700:4700::1001'']\<rparr>)]\<rparr>,
      dn_cache = \<lparr>cc_max_entries = 10000, cc_min_ttl = 60, cc_max_ttl = 86400\<rparr>,
      dn_logging = \<lparr>lg_level = lit ''info''\<rparr>,
      dn_query_log = query_log_default\<rparr>"

section \<open>Lemmas\<close>

lemmas field_defs = req_field_def opt_field_def default_field_def

lemma de_entries_keys: "de_entries de t = Some xs \<Longrightarrow> map fst xs = map fst t"
proof (induction t arbitrary: xs)
  case (Cons e t)
  then show ?case by (cases e) (auto simp: bind_eq_Some_conv)
qed simp

text \<open>An entry of the map is the reading of the entry of the table.\<close>

lemma de_entries_lookup:
  assumes "de_entries de t = Some xs"
  shows "map_of xs k = Option.bind (map_of t k) de"
  using assms
proof (induction t arbitrary: xs)
  case (Cons e t)
  obtain j v where e: "e = (j, v)" by fastforce
  with Cons.prems obtain x ys where "de v = Some x" "de_entries de t = Some ys" "xs = (j, x) # ys"
    by (auto simp: bind_eq_Some_conv)
  with Cons.IH [of ys] e show ?case by simp
qed simp

lemma de_entries_all:
  assumes "de_entries de t = Some xs" and "map_of t k = Some v"
  shows "\<exists>x. de v = Some x"
proof -
  have "map fst xs = map fst t" using assms(1) by (rule de_entries_keys)
  then have "map_of xs k \<noteq> None" using assms(2) by (metis map_of_eq_None_iff option.distinct(1) set_map)
  with de_entries_lookup [OF assms(1), of k] assms(2) show ?thesis by auto
qed

lemma de_string_Some_iff: "de_string v = Some s \<longleftrightarrow> v = TString s"
  by (cases v) auto

lemma de_all_string: "de_all de_string vs = Some ss \<longleftrightarrow> vs = map TString ss"
proof (induction vs arbitrary: ss)
  case (Cons v vs)
  have "de_all de_string (v # vs) = Some ss \<longleftrightarrow>
      (\<exists>x xs. v = TString x \<and> de_all de_string vs = Some xs \<and> ss = x # xs)"
    by (auto simp: de_string_Some_iff split: option.split)
  also have "\<dots> \<longleftrightarrow> v # vs = map TString ss" unfolding Cons.IH by (cases ss) auto
  finally show ?case .
qed auto

lemma de_vec_string: "de_vec de_string v = Some ss \<longleftrightarrow> v = ser_vec TString ss"
  by (cases v) (auto simp: de_all_string ser_vec_def)

section \<open>Properties\<close>

text \<open>
  A minimal configuration file is complete: with only the address, the port and the provider
  given and the other sections empty, every remaining setting takes its documented default, the
  lifetime bounds are in order, and the provider falls back to the built-in one.
\<close>

lemma minimal_config_defaults:
  assumes "map_of t (lit ''server'') = Some (TTable [(lit ''listen_address'', TString a), (lit ''listen_port'', ser_uint p)])"
    and "map_of t (lit ''upstream'') = Some (TTable [(lit ''provider'', TString prov)])"
    and "map_of t (lit ''cache'') = Some (TTable [])" and "map_of t (lit ''logging'') = Some (TTable [])"
    and "map_of t (lit ''query_log'') = None"
  shows "\<exists>c. de_dns_config (TTable t) = Some c \<and>
           dn_server c = (dn_server dns_default)\<lparr>sc_listen_address := a, sc_listen_port := p\<rparr> \<and>
           dn_cache c = dn_cache dns_default \<and> dn_logging c = dn_logging dns_default \<and>
           dn_query_log c = dn_query_log dns_default \<and>
           cc_min_ttl (dn_cache c) \<le> cc_max_ttl (dn_cache c) \<and>
           doh_url c = doh_url dns_default \<and> set (bootstrap_addrs c) \<subseteq> set (bootstrap_addrs dns_default)"
  using assms
  by (auto simp: de_dns_config_def de_server_def de_upstream_def de_cache_def de_logging_def field_defs
      c_uint.de_ser dns_default_def default_listen_v6_def default_max_entries_def default_min_ttl_def
      default_max_ttl_def default_log_level_def doh_url_def bootstrap_addrs_def cloudflare_url_def)

text \<open>
  A configured provider is used as written: when a loaded file names a provider other than
  \<^verbatim>\<open>custom\<close> and defines it, the URL and the bootstrap addresses are the ones of that definition.
\<close>

lemma provider_as_written:
  assumes "de_dns_config (TTable t) = Some c" and "map_of t (lit ''upstream'') = Some (TTable u)"
    and "map_of u (lit ''provider'') = Some (TString prov)" and "prov \<noteq> lit ''custom''"
    and "map_of u (lit ''providers'') = Some (TTable ps)" and "map_of ps prov = Some (TTable d)"
  shows "map_of d (lit ''url'') = Some (TString (doh_url c)) \<and>
         map_of d (lit ''bootstrap'') = Some (ser_vec TString (bootstrap_addrs c))"
proof -
  obtain up where up: "de_upstream (TTable u) = Some up" "dn_upstream c = up"
    using assms(1,2) by (auto simp: de_dns_config_def field_defs bind_eq_Some_conv)
  obtain xs where xs: "uc_provider up = prov" "de_entries de_provider ps = Some xs" "uc_providers up = xs"
    using up(1) assms(3,5) by (fastforce simp: de_upstream_def field_defs bind_eq_Some_conv)
  have look: "map_of xs prov = de_provider (TTable d)"
    using de_entries_lookup [OF xs(2), of prov] assms(6) by simp
  obtain p where p: "de_provider (TTable d) = Some p"
    using de_entries_all [OF xs(2)] assms(6) by blast
  then have "map_of d (lit ''url'') = Some (TString (pc_url p))"
    "map_of d (lit ''bootstrap'') = Some (ser_vec TString (pc_bootstrap p))"
    by (auto simp: de_provider_def field_defs bind_eq_Some_conv de_string_Some_iff de_vec_string split: option.split_asm)
  with look p up(2) xs assms(4) show ?thesis by (simp add: doh_url_def bootstrap_addrs_def)
qed

definition toml_google :: toml_table where
  "toml_google = [(lit ''url'', TString (lit ''https://dns.google/q'')), (lit ''bootstrap'', TArray [TString (lit ''8.8.8.8'')])]"

definition toml_upstream :: toml_table where
  "toml_upstream =
     [(lit ''provider'', TString (lit ''google'')), (lit ''providers'', TTable [(lit ''google'', TTable toml_google)])]"

definition toml0 :: toml_table where
  "toml0 = [(lit ''server'', TTable [(lit ''listen_address'', TString (lit ''127.0.0.1'')), (lit ''listen_port'', TInteger 53)]),
     (lit ''upstream'', TTable toml_upstream), (lit ''cache'', TTable []), (lit ''logging'', TTable [])]"

end
