(* ===== verification/Dns_Main.thy ===== *)
theory Dns_Main
  imports Server_Log Dns_Config
begin

text \<open>
  The start of the daemon, \<^verbatim>\<open>zebrafish-dns/src/main.rs\<close>: which configuration is used, whether queries are logged, how
  many workers run, and the cache, client and server built from the configuration. What the
  process asks of its host is a record. Tracing output is not modelled.
\<close>

section \<open>Definitions\<close>

definition DEFAULT_CONFIG_PATH :: path where
  "DEFAULT_CONFIG_PATH = lit ''/etc/zebrafish-dns/zebrafish-dns.toml''"

record host =
  h_toml :: toml_parser
  h_parallelism :: "nat option"
  h_pid :: u32
  h_uri :: uri_api
  h_net :: net_api
  h_runtime :: bool

record 'l daemon =
  da_config :: dns_config
  da_workers :: nat
  da_client :: "'l doh_client"
  da_server :: dns_server

datatype 'l main_result = MainError rstr | Running "'l daemon" "listener list"

definition config_path :: "rstr list \<Rightarrow> path" where
  "config_path args = (case nth_opt args 1 of Some p \<Rightarrow> p | None \<Rightarrow> DEFAULT_CONFIG_PATH)"

definition choose_config :: "toml_parser \<Rightarrow> path \<Rightarrow> fsys \<Rightarrow> dns_config" where
  "choose_config prs p fs = (case dns_load prs p fs of Inr c \<Rightarrow> c | Inl _ \<Rightarrow> dns_default)"

definition choose_logger :: "u32 \<Rightarrow> query_log_config \<Rightarrow> fsys \<Rightarrow> query_logger option \<times> fsys" where
  "choose_logger pid qc fs =
     (if qc_enabled qc then
        (case logger_new pid (qc_output qc) fs of
           (Inr logger, fs') \<Rightarrow> (Some logger, fs')
         | (Inl _, fs') \<Rightarrow> (None, fs'))
      else (None, fs))"

definition worker_count :: "nat option \<Rightarrow> server_config \<Rightarrow> nat" where
  "worker_count parallelism sc =
     (if sc_workers sc = 0 then (case parallelism of Some n \<Rightarrow> n | None \<Rightarrow> 2) else unat (sc_workers sc))"

definition make_daemon :: "'l entry_lru \<Rightarrow> host \<Rightarrow> dns_config \<Rightarrow> query_logger option \<Rightarrow> 'l daemon" where
  "make_daemon api h c logger =
     \<lparr>da_config = c,
      da_workers = worker_count (h_parallelism h) (dn_server c),
      da_client = doh_client_new (h_uri h) (doh_url c) (bootstrap_addrs c)
        (cache_new api (unat (cc_max_entries (dn_cache c))) (cc_min_ttl (dn_cache c)) (cc_max_ttl (dn_cache c))),
      da_server = \<lparr>ds_listen_addr_v4 = sc_listen_address (dn_server c),
                   ds_listen_addr_v6 = sc_listen_address_v6 (dn_server c),
                   ds_listen_port = sc_listen_port (dn_server c), ds_logger = logger\<rparr>\<rparr>"

definition dns_main :: "'l entry_lru \<Rightarrow> host \<Rightarrow> rstr list \<Rightarrow> fsys \<Rightarrow> 'l main_result \<times> fsys" where
  "dns_main api h args fs =
     (let c = choose_config (h_toml h) (config_path args) fs;
          (logger, fs') = choose_logger (h_pid h) (dn_query_log c) fs
      in if \<not> h_runtime h then (MainError (lit ''runtime''), fs')
         else
           (let d = make_daemon api h c logger
            in case server_run (h_net h) (da_server d) of
                 RunError e \<Rightarrow> (MainError e, fs')
               | Serving ls \<Rightarrow> (Running d ls, fs')))"

text \<open>The environment and the first state of the server's loops.\<close>

definition daemon_env :: "dns_codec \<Rightarrow> 'l entry_lru \<Rightarrow> json_printer \<Rightarrow> 'l daemon \<Rightarrow> 'l server_env" where
  "daemon_env dc api js d =
     \<lparr>sv_codec = dc, sv_api = api, sv_json = js, sv_logger = ds_logger (da_server d)\<rparr>"

definition daemon_state :: "'l daemon \<Rightarrow> log_io \<Rightarrow> 'l server_state" where
  "daemon_state d io = \<lparr>ss_cache = dh_cache (da_client d), ss_io = io\<rparr>"

section \<open>Lemmas\<close>

lemma cache_new_ttls [simp]:
  "dc_min_ttl (cache_new api n lo hi) = lo" "dc_max_ttl (cache_new api n lo hi) = hi"
  by (simp_all add: cache_new_def)

lemma running_daemon:
  assumes "dns_main api h args fs = (Running d ls, fs')"
  obtains logger where "d = make_daemon api h (choose_config (h_toml h) (config_path args) fs) logger"
    "choose_logger (h_pid h) (dn_query_log (choose_config (h_toml h) (config_path args) fs)) fs = (logger, fs')"
    "server_run (h_net h) (da_server d) = Serving ls"
  using assms by (auto simp: dns_main_def Let_def split: prod.split_asm if_split_asm run_result.split_asm)

lemma server_run_nonempty: "server_run net srv = Serving ls \<Longrightarrow> ls \<noteq> []"
  by (auto simp: server_run_def Let_def split: if_split_asm)

text \<open>A host that binds datagram sockets runs any configuration without query log.\<close>

lemma main_runs:
  assumes "choose_config (h_toml h) (config_path args) fs = c" and "\<not> qc_enabled (dn_query_log c)"
    and "h_runtime h" and "na_parse (h_net h) = Some" and "na_bind_udp (h_net h) = (\<lambda>_. True)"
  shows "\<exists>ls. dns_main api h args fs = (Running (make_daemon api h c None) ls, fs)"
  using assms by (simp add: dns_main_def choose_logger_def server_run_def try_udp_def Let_def)

section \<open>Properties\<close>

text \<open>What the cache of a reachable state holds.\<close>

lemma reachable_cache:
  assumes lru: "entry_cache (sv_api env) view cap ok" and cache: "ss_cache s0 = cache_new (sv_api env) n lo hi"
    and run: "(srv_step env)\<^sup>*\<^sup>* (idle s0) g"
  shows "card (dom (view (dc_cache (ss_cache (sg_state g))))) \<le> max n 1"
    and "view (dc_cache (ss_cache (sg_state g))) k = Some e \<Longrightarrow>
      unat lo * nanos_per_sec \<le> e_ttl e \<and> e_ttl e \<le> unat hi * nanos_per_sec \<and>
      (\<exists>q m. (q, e_response e) \<in> set (sg_exchanges g) \<and> from_vec (sv_codec env) q = Ok m \<and>
         cache_key (sv_codec env) m = Some k)"
proof -
  obtain h where h: "cache_reach (sv_codec env) (sv_api env) (cache_new (sv_api env) n lo hi) (ss_cache (sg_state g)) h"
      "\<forall>t q resp. (t, q, resp) \<in> set h \<longrightarrow> (\<exists>qb. from_vec (sv_codec env) qb = Ok q \<and> (qb, resp) \<in> set (sg_exchanges g))"
    using srv_run_inv [OF lru run cache] by (auto simp: srv_inv_def stored_from_def)
  note ci = entry_cache.cache_reach_inv [OF lru h(1)]
  have l: "lru_cache (sv_api env) view cap ok" using lru by (simp add: entry_cache_def)
  have "ok (dc_cache (ss_cache (sg_state g)))" "cap (dc_cache (ss_cache (sg_state g))) = max n 1"
    using ci entry_cache.cache_inv_def [OF lru] by blast+
  then show "card (dom (view (dc_cache (ss_cache (sg_state g))))) \<le> max n 1"
    using lru_cache.within_cap [OF l] by metis
  show "unat lo * nanos_per_sec \<le> e_ttl e \<and> e_ttl e \<le> unat hi * nanos_per_sec \<and>
      (\<exists>q m. (q, e_response e) \<in> set (sg_exchanges g) \<and> from_vec (sv_codec env) q = Ok m \<and>
         cache_key (sv_codec env) m = Some k)"
    if e: "view (dc_cache (ss_cache (sg_state g))) k = Some e"
  proof -
    have ex: "explained (sv_codec env) lo hi h k e"
      using ci e entry_cache.cache_inv_def [OF lru] by blast
    define ttl where "ttl = response_lifetime (sv_codec env) lo hi (e_response e)"
    have "lo \<le> ttl" "ttl \<le> hi"
      using ex response_lifetime_bounds [of lo hi] by (auto simp: explained_def ttl_def)
    then have "unat lo * nanos_per_sec \<le> e_ttl e \<and> e_ttl e \<le> unat hi * nanos_per_sec"
      using ex by (simp add: explained_def ttl_def [symmetric] word_le_nat_alt mult_le_mono1)
    with ex h(2) show ?thesis by (fastforce simp: explained_def)
  qed
qed

text \<open>
  C14. A running daemon follows its configuration file in every state it can reach. The configuration is
  the one the file holds, or the built-in one when it cannot be loaded; the daemon has a listener and
  the configured number of workers, or as many as the host allows. As long as the configured lifetime
  bounds are in order, no interleaving of its tasks aborts it, and from every state it reaches every
  complete run of the tasks that have arrived ends with all of them closed and every datagram that parses
  answered, whichever task runs next and whatever the upstream server answers (an exchange
  that never ends is a run that is never complete). The cache never holds more entries than
  configured, each entry is a response to its own question and lives as long as the bounds allow; and with the
  query log disabled no file and no output is touched, at the start or later.
\<close>

theorem running_daemon_serves:
  assumes "entry_cache api view cap ok" and "dns_main api h args fs = (Running d ls, fs')"
    and "h_parallelism h \<noteq> Some 0" and "c = da_config d"
    and "cc_min_ttl (dn_cache c) \<le> cc_max_ttl (dn_cache c)"
    and "\<forall>q m. from_vec dc q = Ok m \<longrightarrow> to_vec dc (servfail_of m) \<noteq> None"
    and "env = daemon_env dc api js d" and "(srv_step env)\<^sup>*\<^sup>* (idle (daemon_state d io)) g"
  shows "(case dns_load (h_toml h) (config_path args) fs of Inr c' \<Rightarrow> c = c' | Inl _ \<Rightarrow> c = dns_default) \<and>
     ls \<noteq> [] \<and> 0 < da_workers d \<and>
     (sc_workers (dn_server c) \<noteq> 0 \<longrightarrow> da_workers d = unat (sc_workers (dn_server c))) \<and>
     \<not> aborts env g \<and> must_drain env g \<and>
     card (dom (view (dc_cache (ss_cache (sg_state g))))) \<le> max (unat (cc_max_entries (dn_cache c))) 1 \<and>
     (\<forall>k e. view (dc_cache (ss_cache (sg_state g))) k = Some e \<longrightarrow>
        unat (cc_min_ttl (dn_cache c)) * nanos_per_sec \<le> e_ttl e \<and>
        e_ttl e \<le> unat (cc_max_ttl (dn_cache c)) * nanos_per_sec \<and>
        (\<exists>q m. (q, e_response e) \<in> set (sg_exchanges g) \<and> from_vec dc q = Ok m \<and> cache_key dc m = Some k)) \<and>
     (\<not> qc_enabled (dn_query_log c) \<longrightarrow> fs' = fs \<and> ss_io (sg_state g) = io)"
proof -
  obtain logger where d: "d = make_daemon api h (choose_config (h_toml h) (config_path args) fs) logger"
      and lg: "choose_logger (h_pid h) (dn_query_log (choose_config (h_toml h) (config_path args) fs)) fs = (logger, fs')"
      and run: "server_run (h_net h) (da_server d) = Serving ls"
    using assms(2) by (rule running_daemon)
  have cfg: "c = choose_config (h_toml h) (config_path args) fs" using d assms(4) by (simp add: make_daemon_def)
  have workers: "0 < da_workers d \<and>
      (sc_workers (dn_server c) \<noteq> 0 \<longrightarrow> da_workers d = unat (sc_workers (dn_server c)))"
    using assms(3) by (auto simp: d cfg make_daemon_def worker_count_def word_neq_0_conv unat_gt_0 split: option.split)
  have cache: "ss_cache (daemon_state d io) = cache_new (sv_api env) (unat (cc_max_entries (dn_cache c)))
      (cc_min_ttl (dn_cache c)) (cc_max_ttl (dn_cache c))"
    by (simp add: daemon_state_def d cfg make_daemon_def doh_client_new_def daemon_env_def assms(7))
  have lru: "entry_cache (sv_api env) view cap ok"
    and enc: "\<forall>q m. from_vec (sv_codec env) q = Ok m \<longrightarrow> to_vec (sv_codec env) (servfail_of m) \<noteq> None"
    and codec: "sv_codec env = dc"
    using assms(1,6,7) by (simp_all add: daemon_env_def)
  have silent: "fs' = fs \<and> ss_io (sg_state g) = io" if "\<not> qc_enabled (dn_query_log c)"
  proof -
    have "logger = None" "fs' = fs" using lg that by (simp_all add: cfg choose_logger_def)
    then have "sv_logger env = None" by (simp add: assms(7) daemon_env_def d make_daemon_def)
    with srv_run_silent [OF assms(8)] \<open>fs' = fs\<close> show ?thesis by (simp add: idle_def daemon_state_def)
  qed
  show ?thesis
    using workers silent server_run_nonempty [OF run] reachable_drains(1) [OF lru cache assms(5) enc assms(8)]
      reachable_must_drain [OF lru cache assms(5) enc assms(8)] reachable_cache [OF lru cache assms(8)]
    unfolding codec by (simp add: cfg choose_config_def split: sum.split)
qed

definition host0 :: host where
  "host0 = \<lparr>h_toml = (\<lambda>_. Err []), h_parallelism = Some 4, h_pid = 1, h_uri = uri0,
     h_net = \<lparr>na_parse = Some, na_bind_udp = (\<lambda>_. True), na_bind_tcp = (\<lambda>_. False)\<rparr>, h_runtime = True\<rparr>"

lemma host0_default: "choose_config (h_toml (host0\<lparr>h_uri := u\<rparr>)) (config_path []) empty_fs = dns_default"
  by (auto simp: choose_config_def dns_load_def host0_def split: sum.split)

lemma main_host0:
  "\<exists>ls. dns_main ul_api (host0\<lparr>h_uri := u\<rparr>) [] empty_fs =
     (Running (make_daemon ul_api (host0\<lparr>h_uri := u\<rparr>) dns_default None) ls, empty_fs)"
  by (rule main_runs [OF host0_default]) (simp_all add: host0_def dns_default_def query_log_default_def)

theorem running_daemon_serves_witness:
  "\<exists>d ls g. dns_main ul_api host0 [] empty_fs = (Running d ls, empty_fs) \<and> 0 < da_workers d \<and>
     sg_conns g 0 = Some (udp_task (lit ''::1'', 9) query12) \<and>
     must_drain (daemon_env header_codec ul_api js_compact d) g"
proof -
  have "host0\<lparr>h_uri := uri0\<rparr> = host0" by (simp add: host0_def)
  then obtain d ls where d: "dns_main ul_api host0 [] empty_fs = (Running d ls, empty_fs)" "da_config d = dns_default"
    using main_host0 [of uri0] by (auto simp: make_daemon_def)
  let ?env = "daemon_env header_codec ul_api js_compact d"
  let ?s = "daemon_state d \<lparr>li_fs = empty_fs, li_out = [], li_out_fault = None\<rparr>"
  let ?g = "solo (udp_task (lit ''::1'', 9) query12) ?s []"
  have "task_arrives (idle ?s) ?g"
    using task_arrives.datagram [of "idle ?s" 0 "(lit ''::1'', 9)" query12] by (simp add: idle_def solo_def)
  then have run: "(srv_step ?env)\<^sup>*\<^sup>* (idle ?s) ?g" by (simp add: srv_step_def r_into_rtranclp)
  have enc: "\<forall>q m. from_vec header_codec q = Ok m \<longrightarrow> to_vec header_codec (servfail_of m) \<noteq> None"
    by (simp add: header_codec_def)
  have "h_parallelism host0 \<noteq> Some 0" "cc_min_ttl (dn_cache (da_config d)) \<le> cc_max_ttl (dn_cache (da_config d))"
    by (simp_all add: d(2) dns_default_def host0_def)
  from running_daemon_serves [OF ec.entry_cache_axioms d(1) this(1) refl this(2) enc refl run]
  have "0 < da_workers d \<and> must_drain ?env ?g" by blast
  moreover have "sg_conns ?g 0 = Some (udp_task (lit ''::1'', 9) query12)" by (simp add: solo_def)
  ultimately show ?thesis using d(1) by blast
qed

text \<open>
  Without a usable configuration file the daemon runs with the built-in configuration: it asks
  the built-in provider through its first bootstrap address, and its lifetime bounds are in order.
\<close>

lemma unreadable_config_defaults:
  assumes "dns_main api h args fs = (Running d ls, fs')"
    and "dns_load (h_toml h) (config_path args) fs = Err e"
    and "u_ip (h_uri h) (lit ''1.1.1.1'') = Some a"
  shows "da_config d = dns_default \<and> bc_host (dh_connector (da_client d)) = lit ''cloudflare-dns.com'' \<and>
         nth_opt (bc_addrs (dh_connector (da_client d))) 0 = Some (a, 443) \<and>
         dc_min_ttl (dh_cache (da_client d)) \<le> dc_max_ttl (dh_cache (da_client d)) \<and> ds_logger (da_server d) = None \<and> fs' = fs"
proof -
  obtain logger where d: "d = make_daemon api h (choose_config (h_toml h) (config_path args) fs) logger"
      and lg: "choose_logger (h_pid h) (dn_query_log (choose_config (h_toml h) (config_path args) fs)) fs = (logger, fs')"
    using assms(1) by (rule running_daemon)
  have c: "choose_config (h_toml h) (config_path args) fs = dns_default"
    using assms(2) by (simp add: choose_config_def)
  have lg': "logger = None" "fs' = fs"
    using lg unfolding c by (simp_all add: choose_logger_def dns_default_def query_log_default_def)
  have boot: "bootstrap_addrs dns_default =
      lit ''1.1.1.1'' # [lit ''1.0.0.1'', lit ''2606:4700:4700::1111'', lit ''2606:4700:4700::1001'']"
    by (simp add: bootstrap_addrs_def dns_default_def)
  have host: "doh_host (doh_url dns_default) = lit ''cloudflare-dns.com''"
    by (simp add: doh_url_def dns_default_def doh_host_def strip_prefix_def before_char_def str_simps)
  have "bootstrap_socket_addrs (h_uri h) (bootstrap_addrs dns_default) = (a, 443) #
      bootstrap_socket_addrs (h_uri h) [lit ''1.0.0.1'', lit ''2606:4700:4700::1111'', lit ''2606:4700:4700::1001'']"
    unfolding boot bootstrap_socket_addrs_def using assms(3) by (simp add: map_filter_simps)
  with host lg' show ?thesis
    by (simp add: d c make_daemon_def doh_client_new_def new_connector_def nth_opt_def) (simp add: dns_default_def)
qed

text \<open>
  C26. Nothing checks the order of the lifetime bounds: a configuration file with the minimum above
  the maximum is accepted, and the first answer the upstream server gives to a query with a
  question aborts the process.
\<close>

theorem misordered_ttls_abort:
  assumes "dns_main api h args fs = (Running d ls, fs')"
    and "cc_max_ttl (dn_cache (da_config d)) < cc_min_ttl (dn_cache (da_config d))"
    and "from_vec dc query = Ok m" and "cache_key dc m = Some k"
    and "fst (cache_get dc api (qe_now qe) m (dh_cache (da_client d))) = None"
    and "qe_post qe query = Reply 200 (Ok body)"
  shows "answer_query (daemon_env dc api js d) src protocol qe query (daemon_state d io) = None"
proof -
  obtain logger where d: "d = make_daemon api h (choose_config (h_toml h) (config_path args) fs) logger"
    using assms(1) by (rule running_daemon)
  obtain c1 where get: "cache_get dc api (qe_now qe) m (dh_cache (da_client d)) = (None, c1)"
    using assms(5) by (metis prod.collapse)
  have "dc_max_ttl c1 < dc_min_ttl c1"
    using cache_get_ttls [OF get] assms(2) by (simp add: d make_daemon_def doh_client_new_def)
  then have "cache_put dc api t m b c1 = None" for t b
    using assms(4) by (simp add: cache_put_def clamp_def)
  then have "resolve dc api (qe_now qe) (qe_replied qe) (qe_latency qe) (qe_post qe) query (dh_cache (da_client d)) = None"
    using assms(3,6) get by (simp add: resolve_def resolve_begin_def resolve_finish_def is_success_def)
  then show ?thesis by (simp add: answer_query_def deliver_def daemon_env_def daemon_state_def)
qed

definition toml_bad :: toml_table where
  "toml_bad = AList.update (lit ''cache'')
     (TTable [(lit ''min_ttl'', TInteger 100), (lit ''max_ttl'', TInteger 50)]) toml0"

theorem misordered_ttls_abort_witness:
  "\<exists>d ls. dns_main ul_api (host0\<lparr>h_toml := \<lambda>_. Ok toml_bad\<rparr>) [[], [99]] (set_node (path_key [99]) (FileNode []) empty_fs) =
       (Running d ls, set_node (path_key [99]) (FileNode []) empty_fs) \<and>
     answer_query (daemon_env codec1 ul_api js_compact d) (lit ''::1'', 9) (lit ''UDP'')
       (qe0\<lparr>qe_post := \<lambda>_. Reply 200 (Ok [1])\<rparr>) [7] (daemon_state d \<lparr>li_fs = empty_fs, li_out = [], li_out_fault = None\<rparr>) = None"
proof -
  let ?h = "host0\<lparr>h_toml := \<lambda>_. Ok toml_bad\<rparr>" and ?fs = "set_node (path_key [99]) (FileNode []) empty_fs"
  let ?qe = "qe0\<lparr>qe_post := \<lambda>_. Reply 200 (Ok [1])\<rparr>" and ?io = "\<lparr>li_fs = empty_fs, li_out = [], li_out_fault = None\<rparr>"
  obtain c where c: "de_dns_config (TTable toml_bad) = Some c" "cc_max_ttl (dn_cache c) < cc_min_ttl (dn_cache c)"
      "\<not> qc_enabled (dn_query_log c)"
    by (simp add: toml_bad_def toml0_def toml_upstream_def toml_google_def de_dns_config_def de_server_def de_upstream_def
        de_provider_def de_cache_def de_logging_def field_defs query_log_default_def)
  have "read_to_string ?fs [99] = Ok []"
    by (rule read_to_string_file) (simp_all add: fs_simps, code_simp)
  then have choose: "choose_config (h_toml ?h) (config_path [[], [99]]) ?fs = c"
    using c(1) by (simp add: choose_config_def dns_load_def config_path_def nth_opt_def)
  define d where "d = make_daemon ul_api ?h c None"
  obtain ls where run: "dns_main ul_api ?h [[], [99]] ?fs = (Running d ls, ?fs)"
    using main_runs [OF choose c(3)] by (auto simp: host0_def d_def)
  have "fst (cache_get codec1 ul_api (qe_now ?qe) (query0\<lparr>m_id := 258\<rparr>) (dh_cache (da_client d))) = None"
    by (simp add: d_def make_daemon_def doh_client_new_def cache_new_def cache_get_def ul_get_def)
  from misordered_ttls_abort [OF run _ _ _ this] run c(2) show ?thesis
    by (auto simp: d_def make_daemon_def doh_client_new_def)
qed

end
