(* ===== verification/C_Memory.thy ===== *)
theory C_Memory
  imports Rust_Utf8
begin

text \<open>
  The memory of the C caller, for the code that fills its buffers: a byte for every address,
  little-endian integers and pointers (both targets of the build are little-endian, with pointers
  of eight bytes), blocks of bytes and the laws of writing and reading them.
\<close>

section \<open>Definitions\<close>

type_synonym mem = "nat \<Rightarrow> u8"

definition write_bytes :: "nat \<Rightarrow> bytes \<Rightarrow> mem \<Rightarrow> mem" where
  "write_bytes a bs m = (\<lambda>x. if a \<le> x \<and> x < a + length bs then bs ! (x - a) else m x)"

definition read_bytes :: "nat \<Rightarrow> nat \<Rightarrow> mem \<Rightarrow> bytes" where
  "read_bytes a n m = map m [a ..< a + n]"

fun le_bytes :: "nat \<Rightarrow> nat \<Rightarrow> bytes" where
  "le_bytes 0 v = []"
| "le_bytes (Suc k) v = byte (v mod 256) # le_bytes k (v div 256)"

fun from_le :: "bytes \<Rightarrow> nat" where
  "from_le [] = 0"
| "from_le (b # bs) = unat b + 256 * from_le bs"

definition write_ptr :: "nat \<Rightarrow> nat \<Rightarrow> mem \<Rightarrow> mem" where
  "write_ptr a p = write_bytes a (le_bytes 8 p)"

definition write_int :: "nat \<Rightarrow> nat \<Rightarrow> mem \<Rightarrow> mem" where
  "write_int a v = write_bytes a (le_bytes 4 v)"

definition read_ptr :: "nat \<Rightarrow> mem \<Rightarrow> nat" where
  "read_ptr a m = from_le (read_bytes a 8 m)"

definition read_int :: "nat \<Rightarrow> mem \<Rightarrow> nat" where
  "read_int a m = from_le (read_bytes a 4 m)"

text \<open>The octets of an address, most significant first.\<close>

definition be_octets :: "nat \<Rightarrow> ('w :: len) word \<Rightarrow> bytes" where
  "be_octets n w = map (\<lambda>i. ucast (drop_bit (8 * (n - 1 - i)) w)) [0 ..< n]"

section \<open>Lemmas\<close>

lemma length_le_bytes [simp]: "length (le_bytes k v) = k"
  by (induction k v rule: le_bytes.induct) simp_all

lemma length_be_octets [simp]: "length (be_octets n w) = n"
  by (simp add: be_octets_def)

lemma from_le_bytes: "v < 256 ^ k \<Longrightarrow> from_le (le_bytes k v) = v"
proof (induction k v rule: le_bytes.induct)
  case (2 k v)
  then have "v div 256 < 256 ^ k" by (simp add: less_mult_imp_div_less mult.commute)
  with 2(1) show ?case by simp
qed simp

lemma le_bytes_zero: "i < k \<Longrightarrow> le_bytes k 0 ! i = 0"
  by (induction k arbitrary: i) (auto simp: byte_def nth_Cons split: nat.split)

lemma length_read_bytes [simp]: "length (read_bytes a n m) = n"
  by (simp add: read_bytes_def)

lemma read_bytes_nth: "i < n \<Longrightarrow> read_bytes a n m ! i = m (a + i)"
  by (simp add: read_bytes_def)

text \<open>Writing changes the block and nothing else.\<close>

lemma write_bytes_outside: "x < a \<or> a + length bs \<le> x \<Longrightarrow> write_bytes a bs m x = m x"
  by (auto simp: write_bytes_def)

lemma write_bytes_inside: "i < length bs \<Longrightarrow> write_bytes a bs m (a + i) = bs ! i"
  by (simp add: write_bytes_def)

lemma write_bytes_Nil [simp]: "write_bytes a [] m = m"
  by (auto simp: write_bytes_def fun_eq_iff)

lemma read_write_part:
  assumes "i + n \<le> length bs"
  shows "read_bytes (a + i) n (write_bytes a bs m) = take n (drop i bs)"
proof (rule nth_equalityI)
  fix j assume "j < length (read_bytes (a + i) n (write_bytes a bs m))"
  then have j: "j < n" by simp
  have "write_bytes a bs m (a + i + j) = bs ! (i + j)"
    using write_bytes_inside [of "i + j" bs a m] j assms by (simp add: add.assoc)
  with j assms show "read_bytes (a + i) n (write_bytes a bs m) ! j = take n (drop i bs) ! j"
    by (simp add: read_bytes_nth)
qed (use assms in simp)

lemma read_write_same: "n = length bs \<Longrightarrow> read_bytes a n (write_bytes a bs m) = bs"
  using read_write_part [of 0 n bs a m] by simp

lemma read_write_other:
  "a + n \<le> b \<or> b + length bs \<le> a \<Longrightarrow> read_bytes a n (write_bytes b bs m) = read_bytes a n m"
  by (intro nth_equalityI) (auto simp: read_bytes_nth write_bytes_outside)

text \<open>Consecutive blocks are one block.\<close>

lemma write_bytes_append:
  "write_bytes (a + length xs) ys (write_bytes a xs m) = write_bytes a (xs @ ys) m"
  by (rule ext) (auto simp: write_bytes_def nth_append)

lemma write_bytes_append_after:
  "b = a + length xs \<Longrightarrow> write_bytes b ys (write_bytes a xs m) = write_bytes a (xs @ ys) m"
  by (simp add: write_bytes_append)

lemma write_bytes_append_before:
  "b = a + length xs \<Longrightarrow> write_bytes a xs (write_bytes b ys m) = write_bytes a (xs @ ys) m"
  by (rule ext) (auto simp: write_bytes_def nth_append)

lemma read_ptr_bytes: "read_bytes a 8 m = le_bytes 8 p \<Longrightarrow> p < 2 ^ 64 \<Longrightarrow> read_ptr a m = p"
  using from_le_bytes [of p 8] by (simp add: read_ptr_def)

lemma read_int_bytes: "read_bytes a 4 m = le_bytes 4 v \<Longrightarrow> v < 2 ^ 32 \<Longrightarrow> read_int a m = v"
  using from_le_bytes [of v 4] by (simp add: read_int_def)

lemma read_bytes_append: "read_bytes a (n + k) m = read_bytes a n m @ read_bytes (a + n) k m"
proof -
  have "[a ..< a + (n + k)] = [a ..< a + n] @ [a + n ..< a + n + k]"
    using upt_add_eq_append [of a "a + n" k] by (simp add: add.assoc)
  then show ?thesis by (simp only: read_bytes_def map_append)
qed

lemma read_bytes_sub: "i + n \<le> k \<Longrightarrow> read_bytes (a + i) n m = take n (drop i (read_bytes a k m))"
  by (intro nth_equalityI) (simp_all add: read_bytes_nth add.assoc)

text \<open>The slices of a block of equally long pieces.\<close>

lemma concat_slice:
  assumes "\<forall>x \<in> set xs. length x = k" and "i < length xs"
  shows "take k (drop (i * k) (concat xs)) = xs ! i"
  using assms
proof (induction xs arbitrary: i)
  case (Cons x xs)
  then show ?case by (cases i) simp_all
qed simp

lemma length_concat_const: "\<forall>x \<in> set xs. length x = k \<Longrightarrow> length (concat xs) = length xs * k"
  by (induction xs) simp_all

text \<open>The addresses at which two memories differ.\<close>

definition changed :: "mem \<Rightarrow> mem \<Rightarrow> nat set" where
  "changed m m' = {x. m' x \<noteq> m x}"

lemma changed_write: "changed m (write_bytes a bs m') \<subseteq> changed m m' \<union> {a ..< a + length bs}"
  by (auto simp: changed_def write_bytes_def split: if_split_asm)

lemma changed_refl [simp]: "changed m m = {}"
  by (simp add: changed_def)

end
