(* ===== verification/Nss.thy ===== *)
theory Nss
  imports Dns_Msg C_Memory
begin

text \<open>
  The name service module, \<^verbatim>\<open>zebrafish-dns/src/nss.rs\<close>: host lookups of the C library, answered through the local
  server into the caller's buffer. The buffer, the result structure and the error variables lie in
  one memory; a pointer is an address, 0 is the null pointer. The name argument is the address of
  the caller's string with the bytes before its terminator. The exchange with the local server is a
  function from the bytes sent to the datagram received, or nothing when a socket call fails or
  times out.
\<close>

section \<open>Definitions\<close>

datatype nss_status = TryAgain | Unavail | NssNotFound | Success

definition status_code :: "nss_status \<Rightarrow> int" where
  "status_code s = (case s of TryAgain \<Rightarrow> - 2 | Unavail \<Rightarrow> - 1 | NssNotFound \<Rightarrow> 0 | Success \<Rightarrow> 1)"

definition AF_INET :: int where "AF_INET = 2"
definition AF_INET6 :: int where "AF_INET6 = 10"

text \<open>\<^verbatim>\<open>libc::ENOENT\<close>, \<^verbatim>\<open>libc::ERANGE\<close>.\<close>

definition ENOENT :: nat where "ENOENT = 2"
definition ERANGE :: nat where "ERANGE = 34"

datatype ip_addr = V4 u32 | V6 "128 word"

definition rand_id :: "u64 \<Rightarrow> u32 \<Rightarrow> u16" where
  "rand_id secs subsec_nanos = ucast (and (xor subsec_nanos (ucast secs)) 65535)"

text \<open>What the outside supplies to one query: the clock, and the exchange.\<close>

record dns_exchange =
  dx_secs :: u64
  dx_nanos :: u32
  dx_send_recv :: "bytes \<Rightarrow> bytes option"

fun record_addr :: "u16 \<Rightarrow> rdata \<Rightarrow> ip_addr option" where
  "record_addr record_type (RA ipv4) = (if record_type = TYPE_A then Some (V4 ipv4) else None)"
| "record_addr record_type (RAAAA ipv6) = (if record_type = TYPE_AAAA then Some (V6 ipv6) else None)"
| "record_addr record_type (ROther _) = None"

definition query_message :: "u16 \<Rightarrow> dname \<Rightarrow> u16 \<Rightarrow> message" where
  "query_message i name record_type =
     new_message\<lparr>m_id := i, m_response := False, m_opcode := OPCODE_QUERY, m_rd := True,
       m_queries := [\<lparr>q_name = name, q_type = record_type, q_class = 1\<rparr>]\<rparr>"

definition query_local_dns :: "dns_codec \<Rightarrow> dns_exchange \<Rightarrow> rstr \<Rightarrow> u16 \<Rightarrow> ip_addr list option" where
  "query_local_dns dc dx name record_type =
     (case name_from_utf8 dc name of
        None \<Rightarrow> None
      | Some dns_name \<Rightarrow>
          (case to_vec dc (query_message (rand_id (dx_secs dx) (dx_nanos dx)) dns_name record_type) of
             None \<Rightarrow> None
           | Some wire \<Rightarrow>
               (case dx_send_recv dx wire of
                  None \<Rightarrow> None
                | Some datagram \<Rightarrow>
                    (case from_vec dc (take 4096 datagram) of
                       Inl _ \<Rightarrow> None
                     | Inr response \<Rightarrow>
                         (let addrs = List.map_filter (\<lambda>r. record_addr record_type (r_data r)) (m_answers response)
                          in if addrs = [] then None else Some addrs)))))"

text \<open>The address and the bytes of the caller's string.\<close>

type_synonym c_name = "nat \<times> bytes"

definition local_name :: "rstr \<Rightarrow> bool" where
  "local_name hostname \<longleftrightarrow> hostname = lit ''localhost'' \<or> hostname = lit ''localhost.localdomain''"

definition fail_with :: "nat \<Rightarrow> nat \<Rightarrow> nat \<Rightarrow> nat \<Rightarrow> mem \<Rightarrow> mem" where
  "fail_with errnop err h_errnop h_err m = write_int h_errnop h_err (write_int errnop err m)"

subsection \<open>Linked tuples\<close>

text \<open>\<^verbatim>\<open>GaiAddrTuple\<close>: next at 0, name at 8, family at 16, addr at 20, scopeid at 36.\<close>

definition tuple_size :: nat where "tuple_size = 40"

fun tuple_addr :: "ip_addr \<Rightarrow> nat \<times> bytes" where
  "tuple_addr (V4 v4) = (nat AF_INET, be_octets 4 v4 @ replicate 12 0)"
| "tuple_addr (V6 v6) = (nat AF_INET6, be_octets 16 v6)"

definition write_tuple :: "nat \<Rightarrow> nat \<Rightarrow> nat \<Rightarrow> ip_addr \<Rightarrow> mem \<Rightarrow> mem" where
  "write_tuple t nxt name addr m =
     (let m1 = write_ptr t nxt m;
          m2 = write_ptr (t + 8) name m1;
          m3 = write_int (t + 36) 0 m2;
          m4 = write_int (t + 16) (fst (tuple_addr addr)) m3
      in write_bytes (t + 20) (snd (tuple_addr addr)) m4)"

fun fill_tuples :: "nat \<Rightarrow> nat \<Rightarrow> nat \<Rightarrow> nat \<Rightarrow> ip_addr list \<Rightarrow> mem \<Rightarrow> mem" where
  "fill_tuples tuples name count i [] m = m"
| "fill_tuples tuples name count i (addr # addrs) m =
     fill_tuples tuples name count (i + 1) addrs
       (write_tuple (tuples + i * tuple_size)
          (if i + 1 < count then tuples + (i + 1) * tuple_size else 0) name addr m)"

definition gethostbyname4_r ::
  "dns_codec \<Rightarrow> dns_exchange \<Rightarrow> dns_exchange \<Rightarrow> c_name \<Rightarrow> nat \<Rightarrow> nat \<Rightarrow> nat \<Rightarrow> nat \<Rightarrow> nat \<Rightarrow> mem \<Rightarrow> nss_status \<times> mem" where
  "gethostbyname4_r dc dx1 dx2 name pat buffer buflen errnop h_errnop m =
     (if fst name = 0 \<or> pat = 0 \<or> buffer = 0 then (Unavail, m)
      else
        (case from_utf8 (snd name) of
           None \<Rightarrow> (Unavail, m)
         | Some hostname \<Rightarrow>
             if local_name hostname then (NssNotFound, m)
             else
               (let a4 = (case query_local_dns dc dx1 hostname TYPE_A of Some a \<Rightarrow> a | None \<Rightarrow> []);
                    a6 = (case query_local_dns dc dx2 hostname TYPE_AAAA of Some a \<Rightarrow> a | None \<Rightarrow> []);
                    all_addrs = a4 @ a6
                in if all_addrs = [] then (NssNotFound, fail_with errnop ENOENT h_errnop 1 m)
                   else if length all_addrs * tuple_size > buflen
                   then (TryAgain, fail_with errnop ERANGE h_errnop 3 m)
                   else
                     (Success,
                      write_ptr pat buffer
                        (fill_tuples buffer (fst name) (length all_addrs) 0 all_addrs m)))))"

subsection \<open>The host entry\<close>

fun octets :: "ip_addr \<Rightarrow> bytes" where
  "octets (V4 v4) = be_octets 4 v4"
| "octets (V6 v6) = be_octets 16 v6"

fun copy_addrs :: "nat \<Rightarrow> nat \<Rightarrow> ip_addr list \<Rightarrow> mem \<Rightarrow> nat \<times> mem" where
  "copy_addrs buf offset [] m = (offset, m)"
| "copy_addrs buf offset (a # addrs) m =
     copy_addrs buf (offset + length (octets a)) addrs (write_bytes (buf + offset) (octets a) m)"

text \<open>\<^verbatim>\<open>(offset + align - 1) & !(align - 1)\<close> with an alignment of 8.\<close>

definition align_up :: "nat \<Rightarrow> nat" where
  "align_up offset = (offset + 7) div 8 * 8"

fun write_ptrs :: "nat \<Rightarrow> nat \<Rightarrow> nat \<Rightarrow> nat \<Rightarrow> nat \<Rightarrow> mem \<Rightarrow> mem" where
  "write_ptrs list first step i 0 m = m"
| "write_ptrs list first step i (Suc n) m =
     write_ptrs list first step (i + 1) n (write_ptr (list + i * 8) (first + i * step) m)"

text \<open>The text of the name is the caller's bytes, so its length is theirs.\<close>

definition needed_space :: "bytes \<Rightarrow> nat \<Rightarrow> nat \<Rightarrow> nat" where
  "needed_space hostname addr_size count =
     (length hostname + 1) + addr_size * count + (count + 1) * 8 + 8"

text \<open>\<^verbatim>\<open>hostent\<close>: h_name at 0, h_aliases at 8, h_addrtype at 16, h_length at 20, h_addr_list at 24.\<close>

definition write_hostent :: "nat \<Rightarrow> nat \<Rightarrow> nat \<Rightarrow> nat \<Rightarrow> nat \<Rightarrow> nat \<Rightarrow> mem \<Rightarrow> mem" where
  "write_hostent result h_name h_aliases h_addrtype h_length h_addr_list m =
     (let m1 = write_ptr result h_name m;
          m2 = write_ptr (result + 8) h_aliases m1;
          m3 = write_int (result + 16) h_addrtype m2;
          m4 = write_int (result + 20) h_length m3
      in write_ptr (result + 24) h_addr_list m4)"

definition fill_hostent :: "bytes \<Rightarrow> int \<Rightarrow> nat \<Rightarrow> nat \<Rightarrow> ip_addr list \<Rightarrow> mem \<Rightarrow> mem" where
  "fill_hostent hostname af result buf addrs m =
     (let addr_size = (if af = AF_INET then 4 else 16);
          m1 = write_bytes (buf + length hostname) [0] (write_bytes buf hostname m);
          addr_data_start = length hostname + 1;
          (offset, m2) = copy_addrs buf addr_data_start addrs m1;
          list_off = align_up offset;
          m3 = write_ptrs (buf + list_off) (buf + addr_data_start) addr_size 0 (length addrs) m2;
          m4 = write_ptr (buf + list_off + length addrs * 8) 0 m3;
          alias_off = list_off + (length addrs + 1) * 8;
          m5 = write_ptr (buf + alias_off) 0 m4
      in write_hostent result buf (buf + alias_off) (nat af) addr_size (buf + list_off) m5)"

definition gethostbyname_r ::
  "dns_codec \<Rightarrow> dns_exchange \<Rightarrow> c_name \<Rightarrow> int \<Rightarrow> nat \<Rightarrow> nat \<Rightarrow> nat \<Rightarrow> nat \<Rightarrow> nat \<Rightarrow> mem \<Rightarrow> nss_status \<times> mem" where
  "gethostbyname_r dc dx name af result buffer buflen errnop h_errnop m =
     (if fst name = 0 \<or> result = 0 \<or> buffer = 0 then (Unavail, m)
      else
        (case from_utf8 (snd name) of
           None \<Rightarrow> (Unavail, m)
         | Some hostname \<Rightarrow>
             if local_name hostname \<or> af \<noteq> AF_INET \<and> af \<noteq> AF_INET6 then (NssNotFound, m)
             else
               (case query_local_dns dc dx hostname (if af = AF_INET then TYPE_A else TYPE_AAAA) of
                  None \<Rightarrow> (NssNotFound, fail_with errnop ENOENT h_errnop 1 m)
                | Some addrs \<Rightarrow>
                    if addrs = [] then (NssNotFound, fail_with errnop ENOENT h_errnop 1 m)
                    else if needed_space (snd name) (if af = AF_INET then 4 else 16) (length addrs) > buflen
                    then (TryAgain, fail_with errnop ERANGE h_errnop 3 m)
                    else (Success, fill_hostent (snd name) af result buffer addrs m))))"

definition gethostbyname2_r where
  "gethostbyname2_r = gethostbyname_r"

definition gethostbyname3_r where
  "gethostbyname3_r dc dx name af result buffer buflen errnop h_errnop (ttlp :: nat) (canonp :: nat) m =
     gethostbyname_r dc dx name af result buffer buflen errnop h_errnop m"

section \<open>Blocks\<close>

text \<open>The stores of each structure, brought together into one block.\<close>

definition tuple_bytes :: "nat \<Rightarrow> nat \<Rightarrow> ip_addr \<Rightarrow> bytes" where
  "tuple_bytes nxt name a =
     le_bytes 8 nxt @ le_bytes 8 name @ le_bytes 4 (fst (tuple_addr a)) @ snd (tuple_addr a) @ le_bytes 4 0"

lemma length_tuple_addr [simp]: "length (snd (tuple_addr a)) = 16"
  by (cases a) simp_all

lemma length_tuple_bytes [simp]: "length (tuple_bytes nxt name a) = tuple_size"
  by (simp add: tuple_bytes_def tuple_size_def)

lemma write_tuple_block: "write_tuple t nxt name a m = write_bytes t (tuple_bytes nxt name a) m"
proof -
  let ?X = "le_bytes 8 nxt" and ?N = "le_bytes 8 name" and ?F = "le_bytes 4 (fst (tuple_addr a))"
    and ?A = "snd (tuple_addr a)" and ?Z = "le_bytes 4 0"
  have "write_tuple t nxt name a m =
      write_bytes (t + 20) ?A (write_bytes (t + 16) ?F (write_bytes (t + 36) ?Z
        (write_bytes (t + 8) ?N (write_bytes t ?X m))))"
    by (simp add: write_tuple_def write_ptr_def write_int_def Let_def)
  also have "\<dots> = write_bytes (t + 16) (?F @ ?A) (write_bytes (t + 36) ?Z (write_bytes t (?X @ ?N) m))"
    by (simp add: write_bytes_append_after)
  also have "\<dots> = write_bytes (t + 16) ((?F @ ?A) @ ?Z) (write_bytes t (?X @ ?N) m)"
    by (rule write_bytes_append_before) simp
  also have "\<dots> = write_bytes t ((?X @ ?N) @ (?F @ ?A) @ ?Z) m"
    by (subst write_bytes_append_after) simp_all
  finally show ?thesis by (simp add: tuple_bytes_def)
qed

fun tuple_blocks :: "nat \<Rightarrow> nat \<Rightarrow> nat \<Rightarrow> nat \<Rightarrow> ip_addr list \<Rightarrow> bytes" where
  "tuple_blocks tuples name count i [] = []"
| "tuple_blocks tuples name count i (a # as) =
     tuple_bytes (if i + 1 < count then tuples + (i + 1) * tuple_size else 0) name a @
     tuple_blocks tuples name count (i + 1) as"

lemma length_tuple_blocks [simp]: "length (tuple_blocks tuples name count i as) = length as * tuple_size"
  by (induction as arbitrary: i) simp_all

lemma fill_tuples_block:
  "fill_tuples tuples name count i as m =
     write_bytes (tuples + i * tuple_size) (tuple_blocks tuples name count i as) m"
proof (induction as arbitrary: i m)
  case (Cons a as)
  have "tuples + (i + 1) * tuple_size = tuples + i * tuple_size + length (tuple_bytes nxt name a)" for nxt by simp
  from write_bytes_append_after [OF this] Cons.IH [of "i + 1"] show ?case
    by (simp only: fill_tuples.simps tuple_blocks.simps write_tuple_block)
qed simp

lemma copy_addrs_block:
  "copy_addrs buf off as m = (off + length (concat (map octets as)), write_bytes (buf + off) (concat (map octets as)) m)"
proof (induction as arbitrary: off m)
  case (Cons a as)
  have "write_bytes (buf + (off + length (octets a))) ys (write_bytes (buf + off) (octets a) m) =
      write_bytes (buf + off) (octets a @ ys) m" for ys
    by (rule write_bytes_append_after) simp
  then show ?case by (simp add: Cons.IH)
qed simp

definition ptr_block :: "nat \<Rightarrow> nat \<Rightarrow> nat \<Rightarrow> nat \<Rightarrow> bytes" where
  "ptr_block first step i n = concat (map (\<lambda>j. le_bytes 8 (first + j * step)) [i ..< i + n])"

lemma length_ptr_block [simp]: "length (ptr_block first step i n) = n * 8"
  by (simp add: ptr_block_def length_concat comp_def sum_list_triv)

lemma ptr_block_Suc: "ptr_block first step i (Suc n) = le_bytes 8 (first + i * step) @ ptr_block first step (i + 1) n"
proof -
  have "[i ..< i + Suc n] = i # [i + 1 ..< i + 1 + n]" using upt_conv_Cons [of i "i + Suc n"] by simp
  then show ?thesis unfolding ptr_block_def by (simp only: list.map concat.simps)
qed

lemma write_ptrs_block:
  "write_ptrs list first step i n m = write_bytes (list + i * 8) (ptr_block first step i n) m"
proof (induction n arbitrary: i m)
  case 0
  show ?case by (simp add: ptr_block_def)
next
  case (Suc n)
  have "list + (i + 1) * 8 = list + i * 8 + length (le_bytes 8 (first + i * step))" by simp
  with Suc.IH [of "i + 1"] show ?case
    by (simp only: write_ptrs.simps write_ptr_def ptr_block_Suc write_bytes_append)
qed

definition hostent_bytes :: "nat \<Rightarrow> nat \<Rightarrow> nat \<Rightarrow> nat \<Rightarrow> nat \<Rightarrow> bytes" where
  "hostent_bytes h_name h_aliases h_addrtype h_length h_addr_list =
     le_bytes 8 h_name @ le_bytes 8 h_aliases @ le_bytes 4 h_addrtype @ le_bytes 4 h_length @ le_bytes 8 h_addr_list"

lemma length_hostent_bytes [simp]: "length (hostent_bytes a b c d e) = 32"
  by (simp add: hostent_bytes_def)

lemma write_hostent_block: "write_hostent result a b c d e m = write_bytes result (hostent_bytes a b c d e) m"
  by (simp add: write_hostent_def write_ptr_def write_int_def hostent_bytes_def write_bytes_append_after)

lemma align_up_bounds: "off \<le> align_up off" "align_up off < off + 8"
proof -
  have "align_up off + (off + 7) mod 8 = off + 7" by (simp add: align_up_def)
  moreover have "(off + 7) mod 8 < 8" by simp
  ultimately show "off \<le> align_up off" "align_up off < off + 8" by linarith+
qed

text \<open>The masks of the source do the same, as long as the sum does not wrap.\<close>

lemma mask_clear: "and x (not 7) = push_bit 3 (drop_bit 3 x)" for x :: u64
proof -
  have m: "(7 :: u64) = mask 3" by (simp add: mask_eq_exp_minus_1)
  show ?thesis unfolding m
    by (rule bit_word_eqI) (auto simp: bit_and_iff bit_not_iff bit_mask_iff bit_push_bit_iff bit_drop_bit_eq)
qed

lemma align_up_mask:
  assumes "off + 7 < 2 ^ 64"
  shows "unat (and (word_of_nat off + 7) (not 7) :: u64) = align_up off"
proof -
  have u: "unat (word_of_nat off + 7 :: u64) = off + 7"
  proof -
    have "(word_of_nat off + 7 :: u64) = word_of_nat (off + 7)" by simp
    then show ?thesis using assms by (simp only: unsigned_of_nat take_bit_nat_eq_self) (simp add: take_bit_nat_eq_self)
  qed
  have "(off + 7) div 8 * 8 \<le> off + 7" by simp
  with assms have "(off + 7) div 8 * 8 < 2 ^ 64" by linarith
  moreover have "unat (push_bit 3 (drop_bit 3 w)) = take_bit 64 (unat w div 8 * 8)" for w :: u64
    using unsigned_less [of w, where 'a = nat]
    by (simp only: unsigned_push_bit_eq unsigned_drop_bit_eq) (simp add: push_bit_eq_mult drop_bit_eq_div take_bit_nat_eq_self)
  ultimately show ?thesis unfolding mask_clear u align_up_def by (simp add: u take_bit_nat_eq_self)
qed

section \<open>Reading the results\<close>

text \<open>The linked list of tuples that a caller of \<^verbatim>\<open>gethostbyname4_r\<close> walks.\<close>

fun tuple_list :: "mem \<Rightarrow> nat \<Rightarrow> nat \<Rightarrow> ip_addr list \<Rightarrow> bool" where
  "tuple_list m name p [] \<longleftrightarrow> p = 0"
| "tuple_list m name p (a # as) \<longleftrightarrow>
     p \<noteq> 0 \<and> read_ptr (p + 8) m = name \<and> read_int (p + 16) m = fst (tuple_addr a) \<and>
     read_bytes (p + 20) 16 m = snd (tuple_addr a) \<and> read_int (p + 36) m = 0 \<and>
     tuple_list m name (read_ptr p m) as"

lemma tuple_fields:
  assumes block: "read_bytes t tuple_size m = tuple_bytes nxt name a" and "nxt < 2 ^ 64" and "name < 2 ^ 64"
  shows "read_ptr t m = nxt" "read_ptr (t + 8) m = name" "read_int (t + 16) m = fst (tuple_addr a)"
    "read_bytes (t + 20) 16 m = snd (tuple_addr a)" "read_int (t + 36) m = 0"
proof -
  have sub: "read_bytes (t + i) n m = take n (drop i (tuple_bytes nxt name a))" if "i + n \<le> 40" for i n
    using read_bytes_sub [of i n 40 t m] that block by (simp add: tuple_size_def)
  have fam: "fst (tuple_addr a) < 2 ^ 32" by (cases a) (simp_all add: AF_INET_def AF_INET6_def)
  show "read_ptr t m = nxt" using sub [of 0 8] assms(2) by (intro read_ptr_bytes) (simp_all add: tuple_bytes_def)
  show "read_ptr (t + 8) m = name" using sub [of 8 8] assms(3) by (intro read_ptr_bytes) (simp_all add: tuple_bytes_def)
  show "read_int (t + 16) m = fst (tuple_addr a)"
    using sub [of 16 4] fam by (intro read_int_bytes) (simp_all add: tuple_bytes_def)
  show "read_bytes (t + 20) 16 m = snd (tuple_addr a)" using sub [of 20 16] by (simp add: tuple_bytes_def)
  show "read_int (t + 36) m = 0" using sub [of 36 4] by (intro read_int_bytes) (simp_all add: tuple_bytes_def)
qed

lemma tuple_list_blocks:
  assumes "read_bytes (tuples + i * tuple_size) (length as * tuple_size) m = tuple_blocks tuples name count i as"
    and "i + length as = count" and "0 < tuples" and "tuples + count * tuple_size < 2 ^ 64" and "name < 2 ^ 64"
  shows "tuple_list m name (if as = [] then 0 else tuples + i * tuple_size) as"
  using assms(1,2)
proof (induction as arbitrary: i)
  case (Cons a as)
  let ?nxt = "if i + 1 < count then tuples + (i + 1) * tuple_size else 0"
  have split: "read_bytes (tuples + i * tuple_size) (tuple_size + length as * tuple_size) m =
      read_bytes (tuples + i * tuple_size) tuple_size m @
      read_bytes (tuples + (i + 1) * tuple_size) (length as * tuple_size) m"
  proof -
    have "tuples + (i + 1) * tuple_size = tuples + i * tuple_size + tuple_size" by simp
    then show ?thesis by (simp only: read_bytes_append)
  qed
  with Cons.prems(1) have b: "read_bytes (tuples + i * tuple_size) tuple_size m = tuple_bytes ?nxt name a"
      "read_bytes (tuples + (i + 1) * tuple_size) (length as * tuple_size) m = tuple_blocks tuples name count (i + 1) as"
    by simp_all
  have "(i + 1) * tuple_size \<le> count * tuple_size" using Cons.prems(2) by (intro mult_le_mono1) simp
  then have "?nxt < 2 ^ 64" using assms(4) by simp
  note f = tuple_fields [OF b(1) this assms(5)]
  have "?nxt = (if as = [] then 0 else tuples + (i + 1) * tuple_size)" using Cons.prems(2) by (cases as) auto
  with Cons.IH [OF b(2)] Cons.prems(2) have "tuple_list m name ?nxt as" by simp
  with f assms(3) show ?case by simp
qed simp

text \<open>The answers of the two queries, in the order in which they are delivered.\<close>

definition found_addrs :: "dns_codec \<Rightarrow> dns_exchange \<Rightarrow> dns_exchange \<Rightarrow> rstr \<Rightarrow> ip_addr list" where
  "found_addrs dc dx1 dx2 hostname =
     concat (map (case_option [] id)
       [query_local_dns dc dx1 hostname TYPE_A, query_local_dns dc dx2 hostname TYPE_AAAA])"

lemma gethostbyname4_cases:
  assumes "fst name \<noteq> 0" "pat \<noteq> 0" "buffer \<noteq> 0" "from_utf8 (snd name) = Some hostname" "\<not> local_name hostname"
  shows "gethostbyname4_r dc dx1 dx2 name pat buffer buflen errnop h_errnop m =
     (let as = found_addrs dc dx1 dx2 hostname
      in if as = [] then (NssNotFound, fail_with errnop ENOENT h_errnop 1 m)
         else if length as * tuple_size > buflen then (TryAgain, fail_with errnop ERANGE h_errnop 3 m)
         else (Success, write_bytes pat (le_bytes 8 buffer)
                 (write_bytes buffer (tuple_blocks buffer (fst name) (length as) 0 as) m)))"
  using assms
  by (simp add: gethostbyname4_r_def found_addrs_def Let_def id_def write_ptr_def fill_tuples_block
      split: option.split)

lemma gethostbyname4_guards:
  assumes "fst (gethostbyname4_r dc dx1 dx2 name pat buffer buflen errnop h_errnop m) \<in> {Success, TryAgain}"
  obtains hostname where "fst name \<noteq> 0" "pat \<noteq> 0" "buffer \<noteq> 0" "from_utf8 (snd name) = Some hostname"
    "\<not> local_name hostname"
  using assms unfolding gethostbyname4_r_def by (cases "from_utf8 (snd name)") (auto split: if_split_asm)

section \<open>The host entry in memory\<close>

lemma record_addr_size:
  "record_addr TYPE_A d = Some a \<Longrightarrow> length (octets a) = 4"
  "record_addr TYPE_AAAA d = Some a \<Longrightarrow> length (octets a) = 16"
  by (cases d; simp add: TYPE_A_def TYPE_AAAA_def split: if_split_asm; fastforce)+

lemma query_local_dns_size:
  assumes "query_local_dns dc dx hostname t = Some as" and "t = (if v4 then TYPE_A else TYPE_AAAA)" and "a \<in> set as"
  shows "length (octets a) = (if v4 then 4 else 16)"
proof -
  obtain d where "record_addr t d = Some a"
    using assms(1,3)
    by (auto simp: query_local_dns_def Let_def map_filter_def split: option.split_asm sum.split_asm if_split_asm)
  with assms(2) record_addr_size show ?thesis by (cases v4) auto
qed

text \<open>Where the pieces lie, relative to the buffer.\<close>

definition data_end :: "bytes \<Rightarrow> ip_addr list \<Rightarrow> nat" where
  "data_end hostname as = length hostname + 1 + length (concat (map octets as))"

lemma fill_hostent_blocks:
  fixes hostname :: bytes and as :: "ip_addr list" and buf :: nat and af :: int
  defines "l \<equiv> align_up (data_end hostname as)" and "n \<equiv> length as"
    and "sz \<equiv> if af = AF_INET then 4 else (16 :: nat)"
  shows "fill_hostent hostname af result buf as m =
     write_bytes result (hostent_bytes buf (buf + l + (n + 1) * 8) (nat af) sz (buf + l))
       (write_bytes (buf + l) (ptr_block (buf + (length hostname + 1)) sz 0 n @ le_bytes 8 0 @ le_bytes 8 0)
         (write_bytes buf (hostname @ [0] @ concat (map octets as)) m))"
proof -
  have head: "write_bytes (buf + (length hostname + 1)) xs (write_bytes (buf + length hostname) [0] (write_bytes buf hostname m)) =
      write_bytes buf (hostname @ [0] @ xs) m" for xs
    by (simp add: write_bytes_append_after)
  have tail: "write_bytes (a + (n + 1) * 8) (le_bytes 8 0) (write_bytes (a + n * 8) (le_bytes 8 0)
      (write_bytes a (ptr_block first step 0 n) k)) =
      write_bytes a (ptr_block first step 0 n @ le_bytes 8 0 @ le_bytes 8 0) k" for a first step k
    by (simp add: write_bytes_append_after)
  have "fill_hostent hostname af result buf as m =
      write_hostent result buf (buf + (l + (n + 1) * 8)) (nat af) sz (buf + l)
        (write_bytes (buf + (l + (n + 1) * 8)) (le_bytes 8 0) (write_bytes (buf + l + n * 8) (le_bytes 8 0)
          (write_bytes (buf + l) (ptr_block (buf + (length hostname + 1)) sz 0 n)
            (write_bytes (buf + (length hostname + 1)) (concat (map octets as))
              (write_bytes (buf + length hostname) [0] (write_bytes buf hostname m))))))"
    by (simp add: fill_hostent_def Let_def copy_addrs_block write_ptrs_block write_ptr_def data_end_def l_def n_def sz_def)
  then show ?thesis
    by (simp only: add.assoc [symmetric, of buf l] tail write_hostent_block head)
qed

lemma gethostbyname_guards:
  assumes "gethostbyname_r dc dx name af result buffer buflen errnop h_errnop m = (Success, m')"
  obtains as where "fst name \<noteq> 0" "result \<noteq> 0" "buffer \<noteq> 0" "af = AF_INET \<or> af = AF_INET6" "as \<noteq> []"
    "\<forall>a \<in> set as. length (octets a) = (if af = AF_INET then 4 else 16)"
    "query_local_dns dc dx (the (from_utf8 (snd name))) (if af = AF_INET then TYPE_A else TYPE_AAAA) = Some as"
    "needed_space (snd name) (if af = AF_INET then 4 else 16) (length as) \<le> buflen"
    "m' = fill_hostent (snd name) af result buffer as m"
proof -
  obtain h where h: "from_utf8 (snd name) = Some h"
    using assms by (cases "from_utf8 (snd name)") (auto simp: gethostbyname_r_def split: if_split_asm)
  obtain as where as: "query_local_dns dc dx h (if af = AF_INET then TYPE_A else TYPE_AAAA) = Some as"
    using assms h
    by (cases "query_local_dns dc dx h (if af = AF_INET then TYPE_A else TYPE_AAAA)")
       (auto simp: gethostbyname_r_def split: if_split_asm)
  have "\<forall>a \<in> set as. length (octets a) = (if af = AF_INET then 4 else 16)"
    using query_local_dns_size [OF as] by blast
  with that [of as] assms h as show thesis
    by (auto simp: gethostbyname_r_def not_less split: if_split_asm)
qed

text \<open>The end of the last pointer, against the space that was checked.\<close>

lemma hostent_end:
  assumes "\<forall>a \<in> set as. length (octets a) = sz"
  shows "data_end hostname as = length hostname + 1 + length as * sz"
    and "needed_space hostname sz (length as) = data_end hostname as + (length as + 2) * 8"
  using length_concat_const [of "map octets as" sz] assms
  by (simp_all add: data_end_def needed_space_def)

text \<open>What a caller reads in a memory that holds the three blocks.\<close>

lemma three_blocks:
  assumes m': "m' = write_bytes result H (write_bytes (buf + l) T (write_bytes buf B m))"
    and "length B \<le> l" and "length H = 32"
    and away: "result + 32 \<le> buf \<or> buf + l + length T \<le> result"
  shows "i + k \<le> length B \<Longrightarrow> read_bytes (buf + i) k m' = take k (drop i B)"
    and "i + k \<le> length T \<Longrightarrow> read_bytes (buf + l + i) k m' = take k (drop i T)"
proof -
  assume i: "i + k \<le> length B"
  have "read_bytes (buf + i) k m' = read_bytes (buf + i) k (write_bytes buf B m)"
    using i assms(2,3) away unfolding m' by (subst read_write_other, force)+ simp
  also have "\<dots> = take k (drop i B)" using i by (rule read_write_part)
  finally show "read_bytes (buf + i) k m' = take k (drop i B)" .
next
  assume i: "i + k \<le> length T"
  have "read_bytes (buf + l + i) k m' = read_bytes (buf + l + i) k (write_bytes (buf + l) T (write_bytes buf B m))"
    unfolding m' using i assms(3) away by (intro read_write_other) auto
  also have "\<dots> = take k (drop i T)" using i by (rule read_write_part)
  finally show "read_bytes (buf + l + i) k m' = take k (drop i T)" .
qed

lemma ptr_block_slice: "i < n \<Longrightarrow> take 8 (drop (i * 8) (ptr_block first step 0 n)) = le_bytes 8 (first + i * step)"
  unfolding ptr_block_def by (subst concat_slice) simp_all

lemma hostent_reads:
  fixes as :: "ip_addr list" and hostname :: bytes
  defines "l \<equiv> align_up (data_end hostname as)" and "n \<equiv> length as"
  assumes m': "m' = write_bytes result (hostent_bytes buf (buf + l + (n + 1) * 8) (nat af) sz (buf + l))
      (write_bytes (buf + l) (ptr_block (buf + (length hostname + 1)) sz 0 n @ le_bytes 8 0 @ le_bytes 8 0)
        (write_bytes buf (hostname @ [0] @ concat (map octets as)) m))"
    and sz: "\<forall>a \<in> set as. length (octets a) = sz"
    and room: "buf + l + (n + 2) * 8 < 2 ^ 64" and away: "result + 32 \<le> buf \<or> buf + l + (n + 2) * 8 \<le> result"
  shows "read_bytes buf (length hostname + 1) m' = hostname @ [0]"
    and "map (\<lambda>i. read_bytes (read_ptr (buf + l + i * 8) m') sz m') [0 ..< n] = map octets as"
    and "read_ptr (buf + l + n * 8) m' = 0" and "read_ptr (buf + l + (n + 1) * 8) m' = 0"
proof -
  have le: "data_end hostname as \<le> l" unfolding l_def by (rule align_up_bounds)
  let ?B = "hostname @ [0] @ concat (map octets as)"
  let ?T = "ptr_block (buf + (length hostname + 1)) sz 0 n @ le_bytes 8 0 @ le_bytes 8 0"
  have lens: "length ?B = data_end hostname as" "length ?T = (n + 2) * 8" by (simp_all add: data_end_def)
  note blocks = three_blocks [OF m' _ length_hostent_bytes, unfolded lens, OF le away]
  have inB: "read_bytes (buf + i) k m' = take k (drop i ?B)" if "i + k \<le> data_end hostname as" for i k
    using that by (rule blocks(1))
  have inT: "read_bytes (buf + l + i) k m' = take k (drop i ?T)" if "i + k \<le> (n + 2) * 8" for i k
    using that by (rule blocks(2))
  show "read_bytes buf (length hostname + 1) m' = hostname @ [0]"
    using inB [of 0 "length hostname + 1"] by (simp add: data_end_def)
  show "read_ptr (buf + l + n * 8) m' = 0" "read_ptr (buf + l + (n + 1) * 8) m' = 0"
    using inT [of "n * 8" 8] inT [of "(n + 1) * 8" 8] by (auto intro!: read_ptr_bytes)
  have "read_bytes (read_ptr (buf + l + i * 8) m') sz m' = octets (as ! i)" if i: "i < n" for i
  proof -
    have end_i: "length hostname + 1 + i * sz + sz \<le> data_end hostname as"
      using mult_le_mono1 [of "Suc i" n sz] i hostent_end(1) [OF sz, of hostname] by (simp add: n_def)
    then have p: "read_ptr (buf + l + i * 8) m' = buf + (length hostname + 1 + i * sz)"
      using inT [of "i * 8" 8] i le room ptr_block_slice [of i n "buf + (length hostname + 1)" sz]
      by (intro read_ptr_bytes) (simp_all add: add.assoc)
    have "read_bytes (buf + (length hostname + 1 + i * sz)) sz m' = take sz (drop (i * sz) (concat (map octets as)))"
      using inB [of "length hostname + 1 + i * sz" sz] end_i by simp
    with concat_slice [of "map octets as" sz i] sz i p show ?thesis by (simp add: n_def)
  qed
  then show "map (\<lambda>i. read_bytes (read_ptr (buf + l + i * 8) m') sz m') [0 ..< n] = map octets as"
    by (intro nth_equalityI) (simp_all add: n_def)
qed

lemma hostent_struct:
  assumes "m' = write_bytes result (hostent_bytes a b c d e) k"
    and "a < 2 ^ 64" "b < 2 ^ 64" "c < 2 ^ 32" "d < 2 ^ 32" "e < 2 ^ 64"
  shows "read_ptr result m' = a" "read_ptr (result + 8) m' = b" "read_int (result + 16) m' = c"
    "read_int (result + 20) m' = d" "read_ptr (result + 24) m' = e"
proof -
  have sub: "read_bytes (result + i) n m' = take n (drop i (hostent_bytes a b c d e))" if "i + n \<le> 32" for i n
    unfolding assms(1) using that by (intro read_write_part) simp
  show "read_ptr result m' = a" using sub [of 0 8] assms(2) by (intro read_ptr_bytes) (simp_all add: hostent_bytes_def)
  show "read_ptr (result + 8) m' = b" using sub [of 8 8] assms(3) by (intro read_ptr_bytes) (simp_all add: hostent_bytes_def)
  show "read_int (result + 16) m' = c" using sub [of 16 4] assms(4) by (intro read_int_bytes) (simp_all add: hostent_bytes_def)
  show "read_int (result + 20) m' = d" using sub [of 20 4] assms(5) by (intro read_int_bytes) (simp_all add: hostent_bytes_def)
  show "read_ptr (result + 24) m' = e" using sub [of 24 8] assms(6) by (intro read_ptr_bytes) (simp_all add: hostent_bytes_def)
qed

section \<open>Properties\<close>

text \<open>A server that answers every query with one address of each family, for the closed examples.\<close>

definition nss_codec :: dns_codec where
  "nss_codec = codec0\<lparr>name_from_utf8 := (\<lambda>_. Some []), to_vec := (\<lambda>_. Some []),
     from_vec := (\<lambda>_. Ok (new_message\<lparr>m_answers :=
       [\<lparr>r_name = [], r_type = TYPE_A, r_ttl = 300, r_data = RA 16909060\<rparr>,
        \<lparr>r_name = [], r_type = TYPE_AAAA, r_ttl = 300, r_data = RAAAA 1\<rparr>]\<rparr>))\<rparr>"

definition dx0 :: dns_exchange where
  "dx0 = \<lparr>dx_secs = 0, dx_nanos = 0, dx_send_recv = (\<lambda>b. Some b)\<rparr>"

lemma nss_query:
  "query_local_dns nss_codec dx0 h TYPE_A = Some [V4 16909060]"
  "query_local_dns nss_codec dx0 h TYPE_AAAA = Some [V6 1]"
  by (simp_all add: query_local_dns_def nss_codec_def dx0_def map_filter_simps TYPE_A_def TYPE_AAAA_def)

lemma nss_found: "found_addrs nss_codec dx0 dx0 h = [V4 16909060, V6 1]"
  by (simp add: found_addrs_def nss_query)

lemma nss_name: "from_utf8 [97] = Some [97]" "\<not> local_name [97]"
  by (simp_all add: local_name_def str_simps)

definition run4 :: "nat \<Rightarrow> nss_status \<times> mem" where
  "run4 len = gethostbyname4_r nss_codec dx0 dx0 (1000, [97]) 8 100 len 16 20 (\<lambda>_. 255)"

lemma run4_status: "fst (run4 len) = (if len < 80 then TryAgain else Success)"
  unfolding run4_def
  by (subst gethostbyname4_cases [of "(1000, [97])" 8 100 "[97]"])
     (simp_all add: nss_name nss_found tuple_size_def)

definition run_host :: "nss_status \<times> mem" where
  "run_host = gethostbyname_r nss_codec dx0 (1000, [97]) 2 8 100 30 300 304 (\<lambda>_. 255)"

lemma run_host_status: "fst run_host = Success"
  by (simp add: run_host_def gethostbyname_r_def nss_name AF_INET_def nss_query needed_space_def)

lemma tuples_found:
  assumes "gethostbyname4_r dc dx1 dx2 name pat buffer buflen errnop h_errnop m = (Success, m')"
    and "buffer + buflen < 2 ^ 64" and "fst name < 2 ^ 64"
    and "pat + 8 \<le> buffer \<or> buffer + buflen \<le> pat"
  shows "tuple_list m' (fst name) (read_ptr pat m') (found_addrs dc dx1 dx2 (the (from_utf8 (snd name)))) \<and>
         found_addrs dc dx1 dx2 (the (from_utf8 (snd name))) \<noteq> [] \<and>
         changed m m' \<subseteq> {buffer ..< buffer + buflen} \<union> {pat ..< pat + 8}"
proof -
  obtain h where g: "fst name \<noteq> 0" "pat \<noteq> 0" "buffer \<noteq> 0" "from_utf8 (snd name) = Some h" "\<not> local_name h"
    using gethostbyname4_guards [of dc dx1 dx2 name pat buffer buflen errnop h_errnop m] assms(1) by auto
  define as where "as = found_addrs dc dx1 dx2 h"
  define k where "k = write_bytes buffer (tuple_blocks buffer (fst name) (length as) 0 as) m"
  have ne: "as \<noteq> []" and fits: "length as * tuple_size \<le> buflen" and m': "m' = write_bytes pat (le_bytes 8 buffer) k"
    using assms(1) unfolding gethostbyname4_cases [OF g] as_def k_def
    by (auto simp: Let_def split: if_split_asm)
  have "read_bytes buffer (length as * tuple_size) m' = tuple_blocks buffer (fst name) (length as) 0 as"
    using assms(4) fits by (auto simp: m' k_def read_write_other read_write_same)
  then have "tuple_list m' (fst name) buffer as"
    using tuple_list_blocks [of buffer 0 as m' "fst name" "length as"] ne g(3) assms(2,3) fits by simp
  moreover have "read_ptr pat m' = buffer"
    using assms(2) by (intro read_ptr_bytes) (simp_all add: m' read_write_same)
  moreover have "changed m m' \<subseteq> {buffer ..< buffer + buflen} \<union> {pat ..< pat + 8}"
    using changed_write [of m pat "le_bytes 8 buffer" k] fits
      changed_write [of m buffer "tuple_blocks buffer (fst name) (length as) 0 as" m]
    unfolding m' k_def by fastforce
  ultimately show ?thesis using g(4) ne by (simp add: as_def)
qed

text \<open>
  C11. When the tuple lookup succeeds, the caller finds a linked list of exactly the addresses of the
  two answers, first those of the A query, then those of the AAAA query, each with the caller's name
  pointer and its own family; and nothing but the buffer and the result pointer has been written.
\<close>

theorem gethostbyname4_result:
  assumes "gethostbyname4_r dc dx1 dx2 name pat buffer buflen errnop h_errnop m = (Success, m')"
    and "buffer + buflen < 2 ^ 64" and "fst name < 2 ^ 64"
    and "pat + 8 \<le> buffer \<or> buffer + buflen \<le> pat"
  shows "tuple_list m' (fst name) (read_ptr pat m') (found_addrs dc dx1 dx2 (the (from_utf8 (snd name)))) \<and>
         found_addrs dc dx1 dx2 (the (from_utf8 (snd name))) \<noteq> [] \<and>
         changed m m' \<subseteq> {buffer ..< buffer + buflen} \<union> {pat ..< pat + 8}"
  using assms by (rule tuples_found)

theorem gethostbyname4_result_witness:
  "\<exists>m'. run4 80 = (Success, m') \<and> tuple_list m' 1000 (read_ptr 8 m') [V4 16909060, V6 1]"
proof -
  obtain m' where r: "run4 80 = (Success, m')" using run4_status [of 80] by (cases "run4 80") simp
  from gethostbyname4_result [OF r [unfolded run4_def]] r show ?thesis by (simp add: nss_name nss_found)
qed

text \<open>
  C35. A caller that enlarges its buffer gets through: when the tuple lookup asks for more space, it
  has reported the range error and left the buffer alone, and with the same answers it succeeds for
  exactly the buffers that have forty bytes for each address of the two answers, and asks again for all
  smaller ones.
\<close>

theorem gethostbyname4_retry:
  assumes "gethostbyname4_r dc dx1 dx2 name pat buffer buflen errnop h_errnop m = (TryAgain, m')"
    and "errnop + 4 \<le> h_errnop \<or> h_errnop + 4 \<le> errnop"
    and "as = found_addrs dc dx1 dx2 (the (from_utf8 (snd name)))"
  shows "as \<noteq> [] \<and> buflen < 40 * length as \<and> read_int errnop m' = ERANGE \<and> read_int h_errnop m' = 3 \<and>
         changed m m' \<subseteq> {errnop ..< errnop + 4} \<union> {h_errnop ..< h_errnop + 4} \<and>
         (\<forall>len. fst (gethostbyname4_r dc dx1 dx2 name pat buffer len errnop h_errnop m') =
            (if 40 * length as \<le> len then Success else TryAgain))"
proof -
  obtain h where g: "fst name \<noteq> 0" "pat \<noteq> 0" "buffer \<noteq> 0" "from_utf8 (snd name) = Some h" "\<not> local_name h"
    using gethostbyname4_guards [of dc dx1 dx2 name pat buffer buflen errnop h_errnop m] assms(1) by auto
  have as: "as = found_addrs dc dx1 dx2 h" using assms(3) g(4) by simp
  have ne: "as \<noteq> []" and short: "buflen < 40 * length as"
    and m': "m' = write_int h_errnop 3 (write_int errnop ERANGE m)"
    using assms(1) unfolding gethostbyname4_cases [OF g] as
    by (auto simp: Let_def fail_with_def tuple_size_def split: if_split_asm)
  have "read_int errnop m' = ERANGE" "read_int h_errnop m' = 3"
    using assms(2) by (auto intro!: read_int_bytes simp: m' write_int_def read_write_other read_write_same ERANGE_def)
  moreover have "changed m m' \<subseteq> {errnop ..< errnop + 4} \<union> {h_errnop ..< h_errnop + 4}"
    using changed_write [of m h_errnop "le_bytes 4 3" "write_int errnop ERANGE m"]
      changed_write [of m errnop "le_bytes 4 ERANGE" m] unfolding m' write_int_def by auto
  moreover have "fst (gethostbyname4_r dc dx1 dx2 name pat buffer len errnop h_errnop m') =
      (if 40 * length as \<le> len then Success else TryAgain)" for len
    unfolding gethostbyname4_cases [OF g] using ne by (simp add: Let_def as tuple_size_def not_less)
  ultimately show ?thesis using ne short by blast
qed

theorem gethostbyname4_retry_witness:
  "\<exists>m'. run4 79 = (TryAgain, m') \<and> length (found_addrs nss_codec dx0 dx0 [97]) = 2 \<and>
     (\<forall>len. fst (gethostbyname4_r nss_codec dx0 dx0 (1000, [97]) 8 100 len 16 20 m') =
        (if 80 \<le> len then Success else TryAgain))"
proof -
  obtain m' where r: "run4 79 = (TryAgain, m')" using run4_status [of 79] by (cases "run4 79") simp
  from gethostbyname4_retry [OF r [unfolded run4_def] _ refl] r show ?thesis by (simp add: nss_name nss_found)
qed

text \<open>
  C18. When the host lookup succeeds, the result structure describes the answer: the name is the
  caller's, the address list has the addresses of the answer in order and ends in a null pointer,
  the alias list is empty, type and length fit the family. The stores stay within seven bytes after
  the end of the buffer.
\<close>

theorem gethostbyname_result:
  assumes "gethostbyname_r dc dx name af result buffer buflen errnop h_errnop m = (Success, m')"
    and "buffer + buflen + 7 < 2 ^ 64" and "result + 32 \<le> buffer \<or> buffer + buflen + 7 \<le> result"
  shows "\<exists>as. query_local_dns dc dx (the (from_utf8 (snd name))) (if af = AF_INET then TYPE_A else TYPE_AAAA) = Some as \<and>
     read_bytes (read_ptr result m') (length (snd name) + 1) m' = snd name @ [0] \<and>
     read_ptr (read_ptr (result + 8) m') m' = 0 \<and>
     read_int (result + 16) m' = nat af \<and> read_int (result + 20) m' = (if af = AF_INET then 4 else 16) \<and>
     map (\<lambda>i. read_bytes (read_ptr (read_ptr (result + 24) m' + i * 8) m') (if af = AF_INET then 4 else 16) m')
       [0 ..< length as] = map octets as \<and>
     read_ptr (read_ptr (result + 24) m' + length as * 8) m' = 0 \<and>
     changed m m' \<subseteq> {buffer ..< buffer + buflen + 7} \<union> {result ..< result + 32}"
proof -
  let ?sz = "if af = AF_INET then 4 else (16 :: nat)"
  obtain as where as: "af = AF_INET \<or> af = AF_INET6" "\<forall>a \<in> set as. length (octets a) = ?sz"
      "query_local_dns dc dx (the (from_utf8 (snd name))) (if af = AF_INET then TYPE_A else TYPE_AAAA) = Some as"
      "needed_space (snd name) ?sz (length as) \<le> buflen" "m' = fill_hostent (snd name) af result buffer as m"
    using assms(1) by (rule gethostbyname_guards)
  let ?l = "align_up (data_end (snd name) as)" and ?n = "length as"
  note m' = as(5) [unfolded fill_hostent_blocks]
  have fits: "?l + (?n + 2) * 8 \<le> buflen + 7"
    using align_up_bounds(2) [of "data_end (snd name) as"] hostent_end(2) [OF as(2), of "snd name"] as(4) by simp
  have away: "result + 32 \<le> buffer \<or> buffer + ?l + (?n + 2) * 8 \<le> result"
    and room: "buffer + ?l + (?n + 2) * 8 < 2 ^ 64" using assms(2,3) fits by linarith+
  note reads = hostent_reads [OF m' as(2) room away]
  have "nat af < 2 ^ 32" using as(1) by (auto simp: AF_INET_def AF_INET6_def)
  then have struct: "read_ptr result m' = buffer" "read_ptr (result + 8) m' = buffer + ?l + (?n + 1) * 8"
      "read_int (result + 16) m' = nat af" "read_int (result + 20) m' = ?sz" "read_ptr (result + 24) m' = buffer + ?l"
    using room by (intro hostent_struct [OF m']; simp)+
  have "changed m m' \<subseteq> {buffer ..< buffer + buflen + 7} \<union> {result ..< result + 32}"
  proof -
    let ?B = "snd name @ [0] @ concat (map octets as)"
    let ?T = "ptr_block (buffer + (length (snd name) + 1)) ?sz 0 ?n @ le_bytes 8 0 @ le_bytes 8 0"
    have "length ?B \<le> ?l" using align_up_bounds(1) [of "data_end (snd name) as"] by (simp add: data_end_def)
    then have "changed m (write_bytes (buffer + ?l) ?T (write_bytes buffer ?B m)) \<subseteq> {buffer ..< buffer + buflen + 7}"
      using changed_write [of m "buffer + ?l" ?T "write_bytes buffer ?B m"] changed_write [of m buffer ?B m] fits
      by fastforce
    then show ?thesis unfolding m'
      using changed_write [of m result _ "write_bytes (buffer + ?l) ?T (write_bytes buffer ?B m)"] by fastforce
  qed
  with as(3) reads struct show ?thesis by metis
qed

theorem gethostbyname_result_witness:
  "\<exists>m'. run_host = (Success, m') \<and> read_bytes (read_ptr 8 m') 2 m' = [97, 0]"
proof -
  obtain m' where r: "run_host = (Success, m')" using run_host_status by (metis prod.collapse)
  from gethostbyname_result [OF r [unfolded run_host_def]]
  have "read_bytes (read_ptr 8 m') (Suc (Suc 0)) m' = [97, 0]" by auto
  then have "read_bytes (read_ptr 8 m') 2 m' = [97, 0]" by (simp only: numeral_2_eq_2)
  with r show ?thesis by blast
qed

text \<open>
  C25. Those seven bytes are real: the space check counts no alignment padding, so with a buffer of
  exactly the size that is checked for, and a name and addresses that do not end on a multiple of
  eight, the module zeroes the byte after the buffer.
\<close>

theorem gethostbyname_overflow:
  assumes "gethostbyname_r dc dx name af result buffer buflen errnop h_errnop m = (Success, m')"
    and "query_local_dns dc dx (the (from_utf8 (snd name))) (if af = AF_INET then TYPE_A else TYPE_AAAA) = Some as"
    and "buflen = needed_space (snd name) (if af = AF_INET then 4 else 16) (length as)"
    and "\<not> 8 dvd data_end (snd name) as" and "result + 32 \<le> buffer"
  shows "m' (buffer + buflen) = 0"
proof -
  let ?sz = "if af = AF_INET then 4 else (16 :: nat)"
  obtain as' where as': "\<forall>a \<in> set as'. length (octets a) = ?sz"
      "query_local_dns dc dx (the (from_utf8 (snd name))) (if af = AF_INET then TYPE_A else TYPE_AAAA) = Some as'"
      "m' = fill_hostent (snd name) af result buffer as' m"
    using assms(1) by (rule gethostbyname_guards)
  then have eq: "as' = as" using assms(2) by simp
  let ?l = "align_up (data_end (snd name) as)" and ?n = "length as"
  let ?P = "ptr_block (buffer + (length (snd name) + 1)) ?sz 0 ?n"
  note m' = as'(3) [unfolded fill_hostent_blocks eq]
  have len: "buflen = data_end (snd name) as + (?n + 2) * 8"
    using hostent_end(2) [OF as'(1) [unfolded eq], of "snd name"] assms(3) by simp
  have "?l \<noteq> data_end (snd name) as" using assms(4) unfolding align_up_def by (metis dvd_triv_right)
  then have gt: "data_end (snd name) as < ?l" using align_up_bounds(1) [of "data_end (snd name) as"] by simp
  define j where "j = data_end (snd name) as + 8 - ?l"
  have j: "j < 8" and at: "buffer + buflen = buffer + ?l + (length (?P @ le_bytes 8 0) + j)"
    using gt align_up_bounds(2) [of "data_end (snd name) as"] unfolding j_def len by simp_all
  let ?k = "write_bytes buffer (snd name @ [0] @ concat (map octets as)) m"
  have "m' (buffer + buflen) = write_bytes (buffer + ?l) (?P @ le_bytes 8 0 @ le_bytes 8 0) ?k (buffer + buflen)"
    unfolding m' using assms(5) by (intro write_bytes_outside) simp
  also have "\<dots> = (?P @ le_bytes 8 0 @ le_bytes 8 0) ! (length (?P @ le_bytes 8 0) + j)"
    unfolding at using j by (intro write_bytes_inside) simp
  also have "\<dots> = le_bytes 8 0 ! j" by (simp add: nth_append)
  also have "\<dots> = 0" using j by (rule le_bytes_zero)
  finally show ?thesis .
qed

theorem gethostbyname_overflow_witness:
  "\<exists>m'. run_host = (Success, m') \<and> m' (100 + 30) = 0"
proof -
  obtain m' where r: "run_host = (Success, m')" using run_host_status by (metis prod.collapse)
  have "\<not> 8 dvd data_end (snd (1000 :: nat, [97])) [V4 16909060]" by (simp add: data_end_def)
  with gethostbyname_overflow [OF r [unfolded run_host_def], of "[V4 16909060]"]
  have "m' (100 + 30) = 0" by (simp add: AF_INET_def nss_query needed_space_def)
  with r show ?thesis by blast
qed

end
