(* ===== verification/Name_Chain.thy ===== *)
theory Name_Chain
  imports Nss Server_Steps
begin

text \<open>
  A name lookup on the machine itself: the name service module sends its queries to the forwarder on
  the loopback interface, which serves them among all its other tasks, from its cache or from the
  upstream server. The theory connects the two components and follows the addresses from the
  upstream server to the memory of the calling program.
\<close>

section \<open>Definitions\<close>

text \<open>Every reply the module receives is a datagram the server has sent for the module's query.\<close>

definition answered_by :: "'l serving \<Rightarrow> dns_exchange \<Rightarrow> bool" where
  "answered_by g dx \<longleftrightarrow>
     (\<forall>wire d. dx_send_recv dx wire = Some d \<longrightarrow>
        (\<exists>i c. sg_conns g i = Some c \<and> cn_stream c = None \<and> cn_input c = take 4096 wire \<and>
               (i, cn_client c, d) \<in> set (sg_sent g)))"

definition addresses :: "u16 \<Rightarrow> message \<Rightarrow> ip_addr list" where
  "addresses t m = List.map_filter (\<lambda>r. record_addr t (r_data r)) (m_answers m)"

text \<open>
  No addresses, or those of a body the upstream server sent for this question, read with some identifier in
  its first two bytes.
\<close>

definition upstream_addrs :: "dns_codec \<Rightarrow> (bytes \<times> bytes) list \<Rightarrow> rstr \<Rightarrow> u16 \<Rightarrow> ip_addr list \<Rightarrow> bool" where
  "upstream_addrs dc x hostname t as \<longleftrightarrow>
     as = [] \<or>
     (\<exists>name q0 m0 body i resp. name_from_utf8 dc hostname = Some name \<and> (q0, body) \<in> set x \<and>
        from_vec dc q0 = Ok m0 \<and> cache_key dc m0 = cache_key dc (query_message 0 name t) \<and>
        from_vec dc (set_id i body) = Ok resp \<and> as = addresses t resp)"

section \<open>The wire format\<close>

text \<open>
  What the chain relies on of the codec. The decoder reads what the counts in the header announce and ignores
  the bytes after it; an encoding has no such bytes; the identifier is the first two bytes of an encoding and
  determines nothing else. A message of one question and nothing else is decoded as it was
  encoded. A decoded message of up to 4096 bytes whose answer lifetimes alone are rewritten and which is encoded
  to as many bytes keeps its answer data; for longer ones, which the encoder may have to truncate, nothing is
  asked.
\<close>

definition plain_message :: "message \<Rightarrow> bool" where
  "plain_message m \<longleftrightarrow> m_opcode m = OPCODE_QUERY \<and> m_rcode m < 16 \<and> length (m_queries m) \<le> 1 \<and>
     m_answers m = [] \<and> m_name_servers m = [] \<and> m_additionals m = [] \<and> m_rest m = []"

locale dns_format = dns_wire dc
  for dc :: dns_codec +
  assumes decode_prefix: "from_vec dc (take n b) = Ok m \<Longrightarrow> from_vec dc b = Ok m"
    and encode_exact: "to_vec dc m = Some b \<Longrightarrow> from_vec dc (take n b) = Ok m' \<Longrightarrow> length b \<le> n"
    and encode_id: "to_vec dc m = Some b \<Longrightarrow> to_vec dc (m\<lparr>m_id := i\<rparr>) = Some (set_id i b)"
    and decode_plain: "to_vec dc m = Some b \<Longrightarrow> plain_message m \<Longrightarrow> from_vec dc b = Ok m"
    and reencode: "from_vec dc b = Ok m \<Longrightarrow>
      to_vec dc (m\<lparr>m_answers := map (\<lambda>r. r\<lparr>r_ttl := t\<rparr>) (m_answers m), m_id := i\<rparr>) = Some b' \<Longrightarrow>
      length b' = length b \<Longrightarrow> length b \<le> 4096 \<Longrightarrow> from_vec dc b' = Ok m' \<Longrightarrow>
      map r_data (m_answers m') = map r_data (m_answers m)"

lemma set_id_restore: "\<exists>i. set_id i b = b"
proof (cases "2 \<le> length b")
  case True
  then obtain x y r where b: "b = x # y # r" by (cases b; cases "tl b") auto
  have "set_id (from_be_bytes x y) b = b"
    using to_from_be_bytes [of x y] by (simp add: b set_id_Cons2 to_be_bytes_def)
  then show ?thesis ..
qed (simp add: set_id_def)

lemma addresses_data:
  "map r_data (m_answers m) = map r_data (m_answers m') \<Longrightarrow> addresses t m = addresses t m'"
proof -
  have "addresses t m = List.map_filter (record_addr t) (map r_data (m_answers m))" for m
    by (simp add: addresses_def map_filter_def filter_map comp_def)
  then show "map r_data (m_answers m) = map r_data (m_answers m') \<Longrightarrow> addresses t m = addresses t m'" by simp
qed

context dns_format
begin

text \<open>
  The first 4096 bytes of an answer from the cache, when they can be decoded, hold the addresses of the body
  stored.
\<close>

lemma decode_adjusted:
  assumes "from_vec dc (take 4096 (set_id i (adjust_ttls dc b rem))) = Ok m"
  shows "\<exists>j m0. from_vec dc (set_id j b) = Ok m0 \<and> addresses t m0 = addresses t m"
proof (cases "adjust_ttls dc b rem = b")
  case True
  with assms decode_prefix show ?thesis by metis
next
  case False
  then obtain m0 where m0: "from_vec dc b = Ok m0" by (cases "from_vec dc b") (auto simp: adjust_ttls_def)
  let ?m1 = "m0\<lparr>m_answers := map (\<lambda>r. r\<lparr>r_ttl := rem\<rparr>) (m_answers m0)\<rparr>"
  have "to_vec dc ?m1 = Some (adjust_ttls dc b rem)" and len: "length (adjust_ttls dc b rem) = length b"
    using m0 False by (auto simp: adjust_ttls_def split: option.split_asm option.split if_split_asm)
  from encode_id [OF this(1), of i]
  have enc: "to_vec dc (m0\<lparr>m_answers := map (\<lambda>r. r\<lparr>r_ttl := rem\<rparr>) (m_answers m0), m_id := i\<rparr>) =
      Some (set_id i (adjust_ttls dc b rem))" .
  have "length b \<le> 4096" using encode_exact [OF enc assms] len by simp
  with reencode [OF m0 enc _ _ decode_prefix [OF assms]] len
  have "addresses t m0 = addresses t m" by (auto intro: addresses_data)
  moreover obtain j where "set_id j b = b" using set_id_restore by blast
  ultimately show ?thesis using m0 by metis
qed

lemma servfail_no_addresses:
  assumes "build_servfail dc wire = Some b" and "from_vec dc wire = Ok q" and "plain_message q"
    and "from_vec dc (take 4096 b) = Ok m"
  shows "addresses t m = []"
proof -
  have enc: "to_vec dc (servfail_of q) = Some b" using assms(1,2) by (simp add: build_servfail_def)
  have "plain_message (servfail_of q)"
    using assms(3) by (simp add: plain_message_def servfail_of_def new_message_def RCODE_SERVFAIL_def)
  from decode_plain [OF enc this] decode_prefix [OF assms(4)] have "m = servfail_of q" by simp
  then show ?thesis by (simp add: addresses_def servfail_of_def new_message_def map_filter_simps)
qed

end

section \<open>A table of messages\<close>

text \<open>
  A format given by a finite table, from messages with identifier 0 to the bytes after the identifier, in which
  no entry starts another.
\<close>

definition table_codec :: "(message \<times> bytes) list \<Rightarrow> dns_codec" where
  "table_codec tab = codec0\<lparr>
     to_vec := (\<lambda>m. map_option (\<lambda>b. to_be_bytes (m_id m) @ b) (map_of tab (m\<lparr>m_id := 0\<rparr>))),
     from_vec := (\<lambda>b. case b of
        hi # lo # r \<Rightarrow>
          (case find (\<lambda>(m, c). prefix c r) tab of
             None \<Rightarrow> Err []
           | Some (m, c) \<Rightarrow> Ok (m\<lparr>m_id := from_be_bytes hi lo\<rparr>))
      | _ \<Rightarrow> Err [])\<rparr>"

definition prefix_free :: "(message \<times> bytes) list \<Rightarrow> bool" where
  "prefix_free tab \<longleftrightarrow> (\<forall>(m, c) \<in> set tab. \<forall>(m', c') \<in> set tab. prefix c c' \<longrightarrow> m = m' \<and> c = c')"

lemma find_prefix:
  assumes "prefix_free tab"
  shows "find (\<lambda>(m, c). prefix c r) tab = Some (m, c) \<longleftrightarrow> (m, c) \<in> set tab \<and> prefix c r"
proof
  assume "find (\<lambda>(m, c). prefix c r) tab = Some (m, c)"
  then show "(m, c) \<in> set tab \<and> prefix c r" by (auto simp: find_Some_iff) (metis nth_mem)
next
  assume mc: "(m, c) \<in> set tab \<and> prefix c r"
  then obtain e where e: "find (\<lambda>(m, c). prefix c r) tab = Some e"
    by (cases "find (\<lambda>(m, c). prefix c r) tab") (auto simp: find_None_iff)
  obtain m' c' where "e = (m', c')" by (cases e)
  with e have "(m', c') \<in> set tab" "prefix c' r" by (auto simp: find_Some_iff) (metis nth_mem)
  with mc assms have "m' = m \<and> c' = c"
    unfolding prefix_free_def using prefix_same_cases [of c r c'] by fast
  with e \<open>e = (m', c')\<close> show "find (\<lambda>(m, c). prefix c r) tab = Some (m, c)" by simp
qed

lemma table_decode:
  assumes "prefix_free tab"
  shows "from_vec (table_codec tab) b = Ok m \<longleftrightarrow>
    (\<exists>hi lo r m0 c. b = hi # lo # r \<and> (m0, c) \<in> set tab \<and> prefix c r \<and> m = m0\<lparr>m_id := from_be_bytes hi lo\<rparr>)"
proof -
  have "from_vec (table_codec tab) (hi # lo # r) = Ok m \<longleftrightarrow>
      (\<exists>m0 c. find (\<lambda>(m, c). prefix c r) tab = Some (m0, c) \<and> m = m0\<lparr>m_id := from_be_bytes hi lo\<rparr>)" for hi lo r
    by (auto simp: table_codec_def split: option.split)
  moreover have "from_vec (table_codec tab) [] \<noteq> Ok m" "from_vec (table_codec tab) [hi] \<noteq> Ok m" for hi
    by (simp_all add: table_codec_def)
  ultimately show ?thesis
    by (cases b; cases "tl b") (auto simp: find_prefix [OF assms])
qed

lemma table_encode:
  assumes "to_vec (table_codec tab) m = Some b"
  obtains hi lo c where "b = hi # lo # c" "(m\<lparr>m_id := 0\<rparr>, c) \<in> set tab" "from_be_bytes hi lo = m_id m"
proof -
  obtain c where c: "map_of tab (m\<lparr>m_id := 0\<rparr>) = Some c" "b = to_be_bytes (m_id m) @ c"
    using assms by (auto simp: table_codec_def)
  obtain hi lo where "to_be_bytes (m_id m) = [hi, lo]" "from_be_bytes hi lo = m_id m" by (rule be_bytes)
  with c map_of_SomeD [OF c(1)] that show ?thesis by auto
qed

lemma table_format:
  assumes "prefix_free tab"
  shows "dns_format (table_codec tab)"
proof
  note decode = table_decode [OF assms]
  have round: "from_vec (table_codec tab) b = Ok m" if "to_vec (table_codec tab) m = Some b" for m b
  proof -
    obtain hi lo c where c: "b = hi # lo # c" "(m\<lparr>m_id := 0\<rparr>, c) \<in> set tab" "from_be_bytes hi lo = m_id m"
      using \<open>to_vec (table_codec tab) m = Some b\<close> by (rule table_encode)
    have "m = m\<lparr>m_id := 0\<rparr>\<lparr>m_id := from_be_bytes hi lo\<rparr>" using c(3) by simp
    with c show ?thesis unfolding decode by blast
  qed
  fix m m' b b' i n t
  show "from_vec (table_codec tab) b = Ok m" if "from_vec (table_codec tab) (take n b) = Ok m"
  proof -
    obtain hi lo r m0 c where d: "take n b = hi # lo # r" "(m0, c) \<in> set tab" "prefix c r"
        "m = m0\<lparr>m_id := from_be_bytes hi lo\<rparr>"
      using \<open>from_vec (table_codec tab) (take n b) = Ok m\<close> unfolding decode by blast
    have "b = hi # lo # r @ drop n b" using append_take_drop_id [of n b] d(1) by simp
    moreover have "prefix c (r @ drop n b)" using d(3) by simp
    ultimately show ?thesis using d(2,4) unfolding decode by blast
  qed
  show "from_vec (table_codec tab) b = Ok m" if "to_vec (table_codec tab) m = Some b" "plain_message m"
    using that(1) by (rule round)
  show "map r_data (m_answers m') = map r_data (m_answers m)"
    if "to_vec (table_codec tab) (m\<lparr>m_answers := map (\<lambda>r. r\<lparr>r_ttl := t\<rparr>) (m_answers m), m_id := i\<rparr>) = Some b'"
      "from_vec (table_codec tab) b' = Ok m'"
  proof -
    have "m' = m\<lparr>m_answers := map (\<lambda>r. r\<lparr>r_ttl := t\<rparr>) (m_answers m), m_id := i\<rparr>"
      using round [OF that(1)] that(2) by simp
    then show ?thesis by simp
  qed
  assume enc: "to_vec (table_codec tab) m = Some b"
  obtain hi lo c where c: "b = hi # lo # c" "(m\<lparr>m_id := 0\<rparr>, c) \<in> set tab" "from_be_bytes hi lo = m_id m"
    using enc by (rule table_encode)
  show "2 \<le> length b \<and> from_be_bytes (b ! 0) (b ! 1) = m_id m" using c by simp
  show "to_vec (table_codec tab) (m\<lparr>m_id := i\<rparr>) = Some (set_id i b)"
    using enc c(1) by (auto simp: table_codec_def set_id_Cons2 to_be_bytes_def)
  show "length b \<le> n" if "from_vec (table_codec tab) (take n b) = Ok m'"
  proof -
    obtain hi' lo' r m0 c' where d: "take n b = hi' # lo' # r" "(m0, c') \<in> set tab" "prefix c' r"
      using \<open>from_vec (table_codec tab) (take n b) = Ok m'\<close> unfolding decode by blast
    have "prefix r c" using d(1) c(1) append_take_drop_id [of n b] by (metis append_Cons list.inject prefixI)
    with d(3) have "prefix c' c" by (rule prefix_order.trans)
    with c(2) d(2) assms have "c' = c" unfolding prefix_free_def by fast
    with d(3) \<open>prefix r c\<close> have "r = c" by (simp add: prefix_order.antisym)
    with d(1) c(1) have "length (take n b) = length b" by simp
    then show ?thesis by simp
  qed
qed

text \<open>A query for the root name, its answer, and its failure message.\<close>

definition answer_of :: "message \<Rightarrow> rr list \<Rightarrow> message" where
  "answer_of q rs = (servfail_of q)\<lparr>m_rcode := 0, m_answers := rs\<rparr>"

definition chain_query :: message where
  "chain_query = query_message 0 [] TYPE_A"

definition chain_codec :: dns_codec where
  "chain_codec = table_codec
     [(chain_query, [1]),
      (answer_of chain_query [\<lparr>r_name = [], r_type = TYPE_A, r_ttl = 300, r_data = RA 16909060\<rparr>], [2]),
      (servfail_of chain_query, [3])]"

interpretation chain: dns_format chain_codec
  unfolding chain_codec_def by (rule table_format) (simp add: prefix_free_def)

section \<open>The chain\<close>

lemma query_local_dns_Some:
  assumes "query_local_dns dc dx hostname t = Some as"
  obtains name wire d resp where "name_from_utf8 dc hostname = Some name"
    "to_vec dc (query_message (rand_id (dx_secs dx) (dx_nanos dx)) name t) = Some wire"
    "dx_send_recv dx wire = Some d" "from_vec dc (take 4096 d) = Ok resp" "as = addresses t resp" "as \<noteq> []"
  using assms unfolding query_local_dns_def addresses_def
  by (auto simp: Let_def split: option.split_asm sum.split_asm if_split_asm)

lemma cache_key_query_message: "cache_key dc (query_message i name t) = cache_key dc (query_message 0 name t)"
  by (simp add: cache_key_def first_query_def query_message_def)

lemma datagram_reply_ok:
  assumes "srv_inv env c0 g" and "answered_by g dx" and "dx_send_recv dx wire = Some d"
  shows "reply_ok (sv_codec env) (sg_exchanges g) (take 4096 wire) (Some d)"
proof -
  obtain i c where c: "sg_conns g i = Some c" "cn_input c = take 4096 wire" "(i, cn_client c, d) \<in> set (sg_sent g)"
    using assms(2,3) unfolding answered_by_def by blast
  have "answers_ok (sv_codec env) (sg_exchanges g) c" "sent_ok i c (sg_sent g)"
    using assms(1) c(1) by (auto simp: srv_inv_def)
  moreover have "(i, cn_client c, d) \<in> set (own_sent i (sg_sent g))" using c(3) by (simp add: own_sent_def)
  ultimately show ?thesis using c(2) by (auto simp: sent_ok_def answers_ok_def)
qed

context dns_format
begin

text \<open>The body behind a reply that was not a failure message.\<close>

lemma exchanged_addresses:
  assumes "from_exchange dc x wire r" and "from_vec dc wire = Ok q"
    and "from_vec dc (take 4096 (dr_response r)) = Ok resp"
  obtains q0 m0 body i m where "(q0, body) \<in> set x" "from_vec dc q0 = Ok m0" "cache_key dc m0 = cache_key dc q"
    "from_vec dc (set_id i body) = Ok m" "addresses t m = addresses t resp"
proof -
  obtain q0 m0 body b where b: "(q0, body) \<in> set x" "from_vec dc q0 = Ok m0" "cache_key dc m0 = cache_key dc q"
      "dr_response r = set_id (m_id q) b" "b = body \<or> (\<exists>rem. b = adjust_ttls dc body rem)"
    using assms(1,2) unfolding from_exchange_def by (cases "dr_cached r") (simp_all, metis+)
  have "\<exists>i m. from_vec dc (set_id i body) = Ok m \<and> addresses t m = addresses t resp"
    using b(5)
  proof
    assume "b = body"
    with decode_prefix [OF assms(3)] b(4) show ?thesis by metis
  next
    assume "\<exists>rem. b = adjust_ttls dc body rem"
    with assms(3) b(4) decode_adjusted show ?thesis by metis
  qed
  with b that show ?thesis by blast
qed

lemma query_upstream:
  assumes "srv_inv env c0 g" and "sv_codec env = dc" and "answered_by g dx"
    and "query_local_dns dc dx hostname t = Some as"
  shows "upstream_addrs dc (sg_exchanges g) hostname t as"
proof -
  obtain name wire d resp where n: "name_from_utf8 dc hostname = Some name"
      "to_vec dc (query_message (rand_id (dx_secs dx) (dx_nanos dx)) name t) = Some wire"
      "dx_send_recv dx wire = Some d" "from_vec dc (take 4096 d) = Ok resp" "as = addresses t resp" "as \<noteq> []"
    using assms(4) by (rule query_local_dns_Some)
  let ?q = "query_message (rand_id (dx_secs dx) (dx_nanos dx)) name t"
  have plain: "plain_message ?q" by (simp add: plain_message_def query_message_def new_message_def)
  have heard: "q' = ?q" if "from_vec dc (take 4096 wire) = Ok q'" for q'
    using decode_prefix [OF that] decode_plain [OF n(2) plain] by simp
  have "reply_ok dc (sg_exchanges g) (take 4096 wire) (Some d)"
    using datagram_reply_ok [OF assms(1,3) n(3)] assms(2) by simp
  moreover have "build_servfail dc (take 4096 wire) \<noteq> Some d"
  proof
    assume failure: "build_servfail dc (take 4096 wire) = Some d"
    then obtain q' where "from_vec dc (take 4096 wire) = Ok q'"
      by (auto simp: build_servfail_def split: sum.split_asm)
    with heard have "from_vec dc (take 4096 wire) = Ok ?q" by simp
    from servfail_no_addresses [OF failure this plain n(4)] n(5,6) show False by simp
  qed
  ultimately obtain r where r: "from_exchange dc (sg_exchanges g) (take 4096 wire) r" "d = dr_response r"
    by (auto simp: reply_ok_def)
  then have q: "from_vec dc (take 4096 wire) = Ok ?q" using heard by (auto simp: from_exchange_def)
  obtain q0 m0 body i m where x: "(q0, body) \<in> set (sg_exchanges g)" "from_vec dc q0 = Ok m0"
      "cache_key dc m0 = cache_key dc ?q" "from_vec dc (set_id i body) = Ok m" "addresses t m = addresses t resp"
    by (rule exchanged_addresses [OF r(1) q n(4) [unfolded r(2)]])
  have "cache_key dc m0 = cache_key dc (query_message 0 name t)"
    using x(3) by (simp only: cache_key_query_message [of dc "rand_id (dx_secs dx) (dx_nanos dx)"])
  moreover have "as = addresses t m" using n(5) x(5) by simp
  ultimately show ?thesis using n(1) x(1,2,4) unfolding upstream_addrs_def by blast
qed

end

section \<open>Properties\<close>

text \<open>
  C6. The addresses a program gets for a name come from the upstream server: when the tuple lookup of
  the name service module succeeds and its datagrams were answered by the forwarder, at any point of
  any interleaving of the forwarder's tasks, the linked list in the caller's memory holds exactly the
  addresses of bodies the upstream server sent for this name, one body for the A query and one for
  the AAAA query, where a query that failed contributes nothing. Bodies of any length are covered: the
  module reads the first 4096 bytes of a reply, and what these do not hold entirely it does not take.
  Identifiers and lifetimes are rewritten on the way and failure messages yield no address.
\<close>

theorem nss_addresses_from_upstream:
  assumes "dns_format (sv_codec env)" and "entry_cache (sv_api env) view cap ok"
    and "ss_cache s0 = cache_new (sv_api env) n lo hi" and "(srv_step env)\<^sup>*\<^sup>* (idle s0) g"
    and "answered_by g dx1" and "answered_by g dx2"
    and "gethostbyname4_r (sv_codec env) dx1 dx2 name pat buffer buflen errnop h_errnop m = (Success, m')"
    and "buffer + buflen < 2 ^ 64" and "fst name < 2 ^ 64" and "pat + 8 \<le> buffer \<or> buffer + buflen \<le> pat"
    and "from_utf8 (snd name) = Some hostname"
  shows "\<exists>as4 as6. tuple_list m' (fst name) (read_ptr pat m') (as4 @ as6) \<and> as4 @ as6 \<noteq> [] \<and>
           upstream_addrs (sv_codec env) (sg_exchanges g) hostname TYPE_A as4 \<and>
           upstream_addrs (sv_codec env) (sg_exchanges g) hostname TYPE_AAAA as6"
proof -
  note inv = srv_run_inv [OF assms(2,4,3)]
  have up: "upstream_addrs (sv_codec env) (sg_exchanges g) hostname t
      (case_option [] id (query_local_dns (sv_codec env) dx hostname t))" if "answered_by g dx" for dx t
    using dns_format.query_upstream [OF assms(1) inv refl that]
    by (simp add: upstream_addrs_def split: option.split)
  let ?as4 = "case_option [] id (query_local_dns (sv_codec env) dx1 hostname TYPE_A)"
  let ?as6 = "case_option [] id (query_local_dns (sv_codec env) dx2 hostname TYPE_AAAA)"
  have "found_addrs (sv_codec env) dx1 dx2 hostname = ?as4 @ ?as6" by (simp add: found_addrs_def)
  with tuples_found [OF assms(7-10)] assms(11)
  have "tuple_list m' (fst name) (read_ptr pat m') (?as4 @ ?as6)" "?as4 @ ?as6 \<noteq> []" by auto
  with up [OF assms(5)] up [OF assms(6)] show ?thesis by blast
qed

definition chain_env :: "(bytes, cache_entry) use_list server_env" where
  "chain_env = \<lparr>sv_codec = chain_codec, sv_api = ul_api, sv_json = js_compact, sv_logger = None\<rparr>"

definition chain_qe :: query_env where
  "chain_qe = qe0\<lparr>qe_post := \<lambda>b. Reply 200 (Ok [0, 0, 2])\<rparr>"

definition chain_dx :: dns_exchange where
  "chain_dx = \<lparr>dx_secs = 0, dx_nanos = 0, dx_send_recv = (\<lambda>wire. if wire = [0, 0, 1] then Some [0, 0, 2] else None)\<rparr>"

lemma chain_simps:
  "name_from_utf8 chain_codec h = Some []" "query_message (rand_id 0 0) [] TYPE_A = chain_query"
  "to_vec chain_codec chain_query = Some [0, 0, 1]" "from_vec chain_codec [0, 0, 1] = Ok chain_query"
  "from_vec chain_codec [0, 0, 2] =
     Ok (answer_of chain_query [\<lparr>r_name = [], r_type = TYPE_A, r_ttl = 300, r_data = RA 16909060\<rparr>])"
  "m_id chain_query = 0"
  by (simp_all add: chain_codec_def table_codec_def codec0_def rand_id_def chain_query_def query_message_def
      new_message_def answer_of_def servfail_of_def to_be_bytes_def from_be_bytes_def)

lemma chain_answer:
  "\<exists>s'. answer_query chain_env src proto chain_qe [0, 0, 1] state0 = Some (Some [0, 0, 2], s')"
proof -
  have get: "cache_get chain_codec ul_api t chain_query cache0 = (None, cache0)" for t
    by (simp add: cache_get_def ul_get_def cache0_def cache_new_def split: option.split)
  obtain c where c: "cache_put chain_codec ul_api 1 chain_query [0, 0, 2] cache0 = Some c"
    using cache_put_total [of cache0 chain_codec ul_api 1 chain_query "[0, 0, 2]"] by auto
  have "set_id 0 [0, 0, 2] = [0, 0, 2]" by (simp add: set_id_Cons2)
  with get c have "resolve chain_codec ul_api 0 1 2 (\<lambda>b. Reply 200 (Ok [0, 0, 2])) [0, 0, 1] cache0 =
      Some (Ok \<lparr>dr_response = [0, 0, 2], dr_cached = False, dr_upstream_status = Some 200, dr_upstream_latency_ms = Some 2\<rparr>, c)"
    by (simp add: resolve_def resolve_begin_def resolve_finish_def is_success_def chain_simps)
  then show ?thesis by (simp add: answer_query_def deliver_def chain_env_def chain_qe_def qe0_def state0_def)
qed

lemma chain_run:
  obtains g where "(srv_step chain_env)\<^sup>*\<^sup>* (idle state0) g" "answered_by g chain_dx"
proof -
  have take: "take 4096 [0, 0, 1] = [0, 0, 1 :: u8]" by simp
  obtain s' where "answer_query chain_env (lit ''127.0.0.1'', 40000) (lit ''UDP'') chain_qe (take 4096 [0, 0, 1]) state0 =
      Some (Some [0, 0, 2], s')" unfolding take using chain_answer by blast
  from datagram_replied [OF this] obtain g c where g: "(srv_step chain_env)\<^sup>*\<^sup>* (idle state0) g" "sg_conns g 0 = Some c"
      "cn_client c = (lit ''127.0.0.1'', 40000)" "cn_stream c = None" "cn_input c = [0, 0, 1]"
      "sg_sent g = [(0, (lit ''127.0.0.1'', 40000), [0, 0, 2])]" "brought (qe_post chain_qe) [0, 0, 1] [] (sg_exchanges g)"
    unfolding take by blast
  from g(2-6) have "answered_by g chain_dx"
    by (auto simp: answered_by_def chain_dx_def intro!: exI [of _ 0])
  with g(1) that show ?thesis by blast
qed

text \<open>The caller's memory: the name at 1000, the result pointer at 8, forty bytes at 100.\<close>

definition chain_call :: "nss_status \<times> mem" where
  "chain_call = gethostbyname4_r chain_codec chain_dx (chain_dx\<lparr>dx_send_recv := \<lambda>_. None\<rparr>) (1000, [97]) 8 100 40 300 304
     (\<lambda>_. 255)"

lemma chain_queries:
  "query_local_dns chain_codec chain_dx h TYPE_A = Some [V4 16909060]"
  "query_local_dns chain_codec (chain_dx\<lparr>dx_send_recv := \<lambda>_. None\<rparr>) h t = None"
  by (simp_all add: query_local_dns_def chain_dx_def chain_simps answer_of_def map_filter_simps split: option.split)

lemma chain_call_status: "fst chain_call = Success"
  unfolding chain_call_def
  by (subst gethostbyname4_cases [of "(1000, [97])" 8 100 "[97]"])
     (simp_all add: nss_name found_addrs_def chain_queries tuple_size_def)

theorem nss_addresses_from_upstream_witness:
  "\<exists>g m' as4 as6. (srv_step chain_env)\<^sup>*\<^sup>* (idle state0) g \<and> chain_call = (Success, m') \<and>
     tuple_list m' 1000 (read_ptr 8 m') (as4 @ as6) \<and> as4 @ as6 \<noteq> [] \<and>
     upstream_addrs chain_codec (sg_exchanges g) [97] TYPE_A as4 \<and>
     upstream_addrs chain_codec (sg_exchanges g) [97] TYPE_AAAA as6"
proof -
  obtain g where g: "(srv_step chain_env)\<^sup>*\<^sup>* (idle state0) g" "answered_by g chain_dx" by (rule chain_run)
  have env: "sv_codec chain_env = chain_codec" "sv_api chain_env = ul_api" by (simp_all add: chain_env_def)
  have cache: "ss_cache state0 = cache_new ul_api 10 60 3600" by (simp add: state0_def cache0_def)
  have none: "answered_by g (chain_dx\<lparr>dx_send_recv := \<lambda>_. None\<rparr>)" by (simp add: answered_by_def)
  obtain m' where m': "chain_call = (Success, m')" using chain_call_status by (metis prod.collapse)
  have name: "from_utf8 (snd (1000, [97])) = Some [97]" using nss_name(1) by simp
  from nss_addresses_from_upstream [of chain_env, unfolded env, OF chain.dns_format_axioms ec.entry_cache_axioms cache g none
      m' [unfolded chain_call_def] _ _ _ name] g(1) m'
  show ?thesis by auto
qed

end
