(* ===== verification/Config_Tests.thy ===== *)
theory Config_Tests
  imports Efi Schema
begin

text \<open>
  The unit tests of \<^verbatim>\<open>zebrafish-config\<close> (\<^verbatim>\<open>path.rs\<close>, \<^verbatim>\<open>efi.rs\<close>, \<^verbatim>\<open>schema.rs\<close>), each as the proposition it asserts about the
  definitions, and a proof that it passes: the model agrees with the repository's own expectations.
  An \<^verbatim>\<open>unwrap\<close> that would panic makes the test false. The TOML text of the schema tests enters as the
  value tree the parser of the \<^verbatim>\<open>toml\<close> crate makes of it.
\<close>

section \<open>Key paths\<close>

definition parse_scalar :: bool where
  "parse_scalar \<longleftrightarrow>
     (case parse (lit ''ipv4.address'') of
        None \<Rightarrow> False
      | Some p \<Rightarrow> section_of p = Some (lit ''ipv4''))"

definition parse_indexed :: bool where
  "parse_indexed \<longleftrightarrow>
     (case parse (lit ''wg[0].peers[1].public_key'') of
        None \<Rightarrow> False
      | Some p \<Rightarrow>
          section_of p = Some (lit ''wg'') \<and>
          kp_segments p = [Field (lit ''wg''), Index 0, Field (lit ''peers''), Index 1, Field (lit ''public_key'')])"

definition parse_hyphenated :: bool where
  "parse_hyphenated \<longleftrightarrow>
     (case parse (lit ''nbd-client[2].port'') of
        None \<Rightarrow> False
      | Some p \<Rightarrow> section_of p = Some (lit ''nbd-client''))"

definition rejects_empty :: bool where
  "rejects_empty \<longleftrightarrow> parse (lit '''') = None"

definition rejects_bad_index :: bool where
  "rejects_bad_index \<longleftrightarrow> parse (lit ''wg[abc]'') = None"

lemmas scan_simps = parse_def trim_def is_whitespace_def parse_finish_def push_field_def section_of_def
  parse_usize_def usize_max_def parse_digits_def is_ascii_digit_def dec_val_def str_simps

lemma path_tests: parse_scalar parse_indexed parse_hyphenated rejects_empty rejects_bad_index
  by (simp_all add: parse_scalar_def parse_indexed_def parse_hyphenated_def rejects_empty_def rejects_bad_index_def
      scan_simps)

section \<open>EFI partition\<close>

definition mount_point_is_constant :: bool where
  "mount_point_is_constant \<longleftrightarrow>
     EFI_MOUNT_POINT = lit ''/run/zebrafish/efi'' \<and> KERNEL_IMAGE = lit ''zebrafish-kernel''"

lemma efi_tests: mount_point_is_constant
  by code_simp

section \<open>Schema\<close>

definition tstr :: "string \<Rightarrow> toml_value" where
  "tstr s = TString (lit s)"

definition tstrs :: "string list \<Rightarrow> toml_value" where
  "tstrs ss = TArray (map tstr ss)"

definition ttab :: "(string \<times> toml_value) list \<Rightarrow> toml_value" where
  "ttab es = TTable (map (\<lambda>(k, v). (lit k, v)) es)"

definition FULL_TOML :: toml_value where
  "FULL_TOML = ttab [
     (''machine'', ttab [(''id'', tstr ''a71d0f9a4b491ee1db858bd5ae3f3c6f'')]),
     (''console'', ttab [(''keymap'', tstr ''dk-latin1''), (''font'', tstr ''lat1-16'')]),
     (''headless'', ttab [(''enabled'', TBoolean True)]),
     (''rescue'', ttab [(''enabled'', TBoolean True)]),
     (''hostname'', ttab [(''name'', tstr ''triton-srv'')]),
     (''ssh'', ttab [(''port'', TInteger 12488),
        (''keys'', tstrs [''ssh-ed25519 AAA... user@laptop'', ''ssh-ed25519 AAA... phone@mobi''])]),
     (''ipv4'', ttab [(''address'', tstr ''10.0.0.140''), (''broadcast'', tstr ''10.0.0.255''),
        (''subnet'', tstr ''255.255.255.0''), (''gateway'', tstr ''10.0.0.1''),
        (''dns'', tstrs [''1.1.1.1'', ''8.8.8.8''])]),
     (''ipv6'', ttab [(''address'', tstr ''2603:c020:800d::14''), (''netmask'', TInteger 64),
        (''gateway'', tstr ''2603:c020:800d::1''), (''dns'', tstrs [''2606:4700:4700::1111''])]),
     (''wg'', TArray [ttab [(''name'', tstr ''wg0''), (''private_key'', tstr ''WEPJ...s1E=''),
        (''address'', tstr ''10.0.3.2/24''), (''listen_port'', TInteger 49427),
        (''peers'', TArray [
           ttab [(''public_key'', tstr ''dJG2...5Bw=''), (''endpoint'', tstr ''88.99.163.115:49427''),
                 (''allowed_ips'', tstrs [''10.0.3.1/32'']), (''persistent_keepalive'', TInteger 25)],
           ttab [(''public_key'', tstr ''peer2...=''), (''allowed_ips'', tstrs [''10.0.3.3/32''])]])]]),
     (''wg-server'', TArray [ttab [(''name'', tstr ''wg-in''), (''private_key'', tstr ''WEPJ...s1E=''),
        (''address'', tstr ''10.0.4.1/24''), (''listen_port'', TInteger 49427),
        (''peers'', TArray [
           ttab [(''public_key'', tstr ''client...=''), (''allowed_ips'', tstrs [''10.0.4.2/32''])]])]]),
     (''nbd-client'', TArray [ttab [(''address'', tstr ''10.0.3.1''), (''port'', TInteger 4284),
        (''device'', tstr ''/dev/nbd0''), (''export'', tstr ''export''), (''timeout'', TInteger 180)]]),
     (''nbd-server'', TArray [ttab [(''address'', tstr ''10.0.4.1''), (''device'', tstr ''/dev/nbd1'')]]),
     (''zfs-key'', TArray [ttab [(''dataset'', tstr ''archangel/vault''), (''key'', tstr ''1d42...ff58'')]]),
     (''zfs-mount'', TArray [ttab [(''name'', tstr ''archangel'')]]),
     (''docker-registry'', TArray [ttab [(''hostname'', tstr ''registry.tohka.us''), (''username'', tstr ''triton''),
        (''password'', tstr ''a94d...7cb'')]])]"

definition parses_full_toml :: bool where
  "parses_full_toml \<longleftrightarrow>
     (case de_config FULL_TOML of
        None \<Rightarrow> False
      | Some cfg \<Rightarrow>
          map_option mc_id (cfg_machine cfg) = Some (lit ''a71d0f9a4b491ee1db858bd5ae3f3c6f'') \<and>
          Option.bind (cfg_console cfg) co_keymap = Some (lit ''dk-latin1'') \<and>
          map_option fl_enabled (cfg_headless cfg) = Some True \<and>
          map_option fl_enabled (cfg_rescue cfg) = Some True \<and>
          map_option hn_name (cfg_hostname cfg) = Some (lit ''triton-srv'') \<and>
          (case cfg_ssh cfg of
             None \<Rightarrow> False
           | Some ssh \<Rightarrow> sh_port ssh = Some 12488 \<and> length (sh_keys ssh) = 2) \<and>
          (case cfg_ipv4 cfg of
             None \<Rightarrow> False
           | Some ipv4 \<Rightarrow>
               ip_address ipv4 = Some (lit ''10.0.0.140'') \<and> ip_dns ipv4 = [lit ''1.1.1.1'', lit ''8.8.8.8'']) \<and>
          (case cfg_ipv6 cfg of
             None \<Rightarrow> False
           | Some ipv6 \<Rightarrow> ip_netmask ipv6 = Some 64 \<and> ip_dns ipv6 = [lit ''2606:4700:4700::1111'']) \<and>
          (case cfg_wg cfg of
             [wg0] \<Rightarrow>
               wi_name wg0 = Some (lit ''wg0'') \<and> wi_listen_port wg0 = Some 49427 \<and>
               (case wi_peers wg0 of
                  [p0, p1] \<Rightarrow>
                    wp_public_key p0 = lit ''dJG2...5Bw='' \<and> wp_allowed_ips p0 = [lit ''10.0.3.1/32'']
                | _ \<Rightarrow> False)
           | _ \<Rightarrow> False) \<and>
          (case cfg_wg_server cfg of [w] \<Rightarrow> wi_name w = Some (lit ''wg-in'') | _ \<Rightarrow> False) \<and>
          (case cfg_nbd_client cfg of
             [n] \<Rightarrow>
               nc_device n = lit ''/dev/nbd0'' \<and> nc_export n = Some (lit ''export'') \<and> nc_timeout n = Some 180
           | _ \<Rightarrow> False) \<and>
          (case cfg_nbd_server cfg of [n] \<Rightarrow> ns_device n = lit ''/dev/nbd1'' | _ \<Rightarrow> False) \<and>
          (case cfg_zfs_key cfg of [z] \<Rightarrow> zk_dataset z = lit ''archangel/vault'' | _ \<Rightarrow> False) \<and>
          (case cfg_zfs_mount cfg of [z] \<Rightarrow> zm_name z = lit ''archangel'' | _ \<Rightarrow> False) \<and>
          (case cfg_docker_registry cfg of
             [r] \<Rightarrow> dr_hostname r = lit ''registry.tohka.us''
           | _ \<Rightarrow> False))"

definition empty_toml_yields_default :: bool where
  "empty_toml_yields_default \<longleftrightarrow> de_config (TTable []) = Some default_config"

definition roundtrips_full_toml :: bool where
  "roundtrips_full_toml \<longleftrightarrow>
     (case de_config FULL_TOML of
        None \<Rightarrow> False
      | Some cfg \<Rightarrow> de_config (ser_config cfg) = Some cfg)"

text \<open>The text between printing and parsing is the business of the \<^verbatim>\<open>toml\<close> crate; the value tree is not.\<close>

lemma schema_tests: parses_full_toml empty_toml_yields_default roundtrips_full_toml
proof -
  show full: parses_full_toml and empty_toml_yields_default by code_simp+
  show roundtrips_full_toml
    using full c_config.de_ser by (auto simp: parses_full_toml_def roundtrips_full_toml_def split: option.splits)
qed

end
