(* ===== verification/Dns_Tests.thy ===== *)
theory Dns_Tests
  imports Dns_Config Dns_Cache Config_Tests
begin

text \<open>
  The unit tests of \<^verbatim>\<open>zebrafish-dns\<close> (\<^verbatim>\<open>config.rs\<close>, \<^verbatim>\<open>cache.rs\<close>). A test is a computation that may panic: \<open>None\<close> is the
  panic of an \<^verbatim>\<open>unwrap\<close>, of a failed assertion or of the code under test, \<open>Some ()\<close> a pass. The cache tests
  take the times of their calls on the cache as an argument and pass for every message codec that decodes what it
  encoded and every cache of the interface \<open>lru_cache\<close>; the order of eviction is checked on the list
  in order of use.
\<close>

definition assert_that :: "bool \<Rightarrow> unit option" where
  "assert_that b = (if b then Some () else None)"

definition unwrap_ok :: "('e, 'a) result \<Rightarrow> 'a option" where
  "unwrap_ok r = (case r of Inl _ \<Rightarrow> None | Inr x \<Rightarrow> Some x)"

lemma assert_that_simps [simp]: "assert_that True = Some ()" "assert_that False = None"
  by (simp_all add: assert_that_def)

lemma unwrap_ok_simps [simp]: "unwrap_ok (Ok x) = Some x" "unwrap_ok (Err e) = None"
  by (simp_all add: unwrap_ok_def)

section \<open>Configuration\<close>

definition test_default_config :: "unit option" where
  "test_default_config = do {
     let config = dns_default;
     assert_that (sc_listen_address (dn_server config) = lit ''0.0.0.0'');
     assert_that (sc_listen_port (dn_server config) = 53);
     assert_that (uc_provider (dn_upstream config) = lit ''cloudflare'');
     assert_that (cc_max_entries (dn_cache config) = 10000);
     assert_that (cc_min_ttl (dn_cache config) = 60);
     assert_that (cc_max_ttl (dn_cache config) = 86400);
     assert_that (lg_level (dn_logging config) = lit ''info'');
     assert_that (\<not> qc_enabled (dn_query_log config));
     assert_that (qc_output (dn_query_log config) = None) }"

definition test_doh_url_cloudflare :: "unit option" where
  "test_doh_url_cloudflare = assert_that (doh_url dns_default = lit ''https://cloudflare-dns.com/dns-query'')"

definition with_upstream :: "(upstream_config \<Rightarrow> upstream_config) \<Rightarrow> dns_config" where
  "with_upstream f = dns_default\<lparr>dn_upstream := f (dn_upstream dns_default)\<rparr>"

definition test_doh_url_custom :: "unit option" where
  "test_doh_url_custom = do {
     let config = with_upstream (\<lambda>u. u\<lparr>uc_provider := lit ''custom'',
                    uc_custom_url := Some (lit ''https://my-doh.example.com/dns-query'')\<rparr>);
     assert_that (doh_url config = lit ''https://my-doh.example.com/dns-query'') }"

definition test_doh_url_custom_fallback :: "unit option" where
  "test_doh_url_custom_fallback = do {
     let config = with_upstream (\<lambda>u. u\<lparr>uc_provider := lit ''custom'', uc_custom_url := None\<rparr>);
     assert_that (doh_url config = lit ''https://cloudflare-dns.com/dns-query'') }"

definition test_doh_url_unknown_provider_fallback :: "unit option" where
  "test_doh_url_unknown_provider_fallback = do {
     let config = with_upstream (\<lambda>u. u\<lparr>uc_provider := lit ''nonexistent''\<rparr>);
     assert_that (doh_url config = lit ''https://cloudflare-dns.com/dns-query'') }"

definition test_bootstrap_addrs_cloudflare :: "unit option" where
  "test_bootstrap_addrs_cloudflare = do {
     let addrs = bootstrap_addrs dns_default;
     assert_that (lit ''1.1.1.1'' \<in> set addrs);
     assert_that (lit ''1.0.0.1'' \<in> set addrs) }"

definition test_bootstrap_addrs_custom_fallback :: "unit option" where
  "test_bootstrap_addrs_custom_fallback = do {
     let config = with_upstream (\<lambda>u. u\<lparr>uc_provider := lit ''custom''\<rparr>);
     assert_that (bootstrap_addrs config = [lit ''1.1.1.1'']) }"

lemma config_tests:
  "test_default_config = Some ()" "test_doh_url_cloudflare = Some ()" "test_doh_url_custom = Some ()"
  "test_doh_url_custom_fallback = Some ()" "test_doh_url_unknown_provider_fallback = Some ()"
  "test_bootstrap_addrs_cloudflare = Some ()" "test_bootstrap_addrs_custom_fallback = Some ()"
  by (simp_all add: test_default_config_def test_doh_url_cloudflare_def test_doh_url_custom_def
      test_doh_url_custom_fallback_def test_doh_url_unknown_provider_fallback_def test_bootstrap_addrs_cloudflare_def
      test_bootstrap_addrs_custom_fallback_def with_upstream_def dns_default_def query_log_default_def doh_url_def
      bootstrap_addrs_def cloudflare_url_def)

text \<open>The TOML text of the test, as the value tree the parser makes of it.\<close>

definition toml_str :: toml_value where
  "toml_str = ttab [
     (''server'', ttab [(''listen_address'', tstr ''127.0.0.1''), (''listen_port'', TInteger 5353), (''workers'', TInteger 4)]),
     (''upstream'', ttab [(''provider'', tstr ''google''),
        (''providers'', ttab [(''google'', ttab [(''url'', tstr ''https://dns.google/dns-query''),
           (''bootstrap'', tstrs [''8.8.8.8'', ''8.8.4.4''])])])]),
     (''cache'', ttab [(''max_entries'', TInteger 5000), (''min_ttl'', TInteger 30), (''max_ttl'', TInteger 3600)]),
     (''logging'', ttab [(''level'', tstr ''debug'')]),
     (''query_log'', ttab [(''enabled'', TBoolean True),
        (''output'', tstr ''/logs/system/zebrafish-dns-queries.json'')])]"

definition load_toml_asserts :: "rstr \<Rightarrow> dns_config \<Rightarrow> unit option" where
  "load_toml_asserts log_path config = do {
     assert_that (sc_listen_address (dn_server config) = lit ''127.0.0.1'');
     assert_that (sc_listen_port (dn_server config) = 5353);
     assert_that (sc_workers (dn_server config) = 4);
     assert_that (uc_provider (dn_upstream config) = lit ''google'');
     assert_that (cc_max_entries (dn_cache config) = 5000);
     assert_that (cc_min_ttl (dn_cache config) = 30);
     assert_that (cc_max_ttl (dn_cache config) = 3600);
     assert_that (lg_level (dn_logging config) = lit ''debug'');
     assert_that (qc_enabled (dn_query_log config));
     assert_that (qc_output (dn_query_log config) = Some log_path);
     assert_that (doh_url config = lit ''https://dns.google/dns-query'') }"

definition test_load_toml_config :: "unit option" where
  "test_load_toml_config = do {
     config \<leftarrow> de_dns_config toml_str;
     load_toml_asserts (lit ''/var/log/zebrafish-dns/queries.json'') config }"

text \<open>
  This test fails: its assertion names another log file than the text it parses. With the file of
  the text every assertion holds.
\<close>

lemmas toml_read_simps = ttab_def tstr_def tstrs_def de_dns_config_def de_server_def de_upstream_def de_cache_def
  de_logging_def de_query_log_def de_provider_def field_defs

lemma load_toml_config_fails: "test_load_toml_config = None"
  by (simp add: test_load_toml_config_def toml_str_def toml_read_simps load_toml_asserts_def)

lemma load_toml_config_otherwise:
  "Option.bind (de_dns_config toml_str) (load_toml_asserts (lit ''/logs/system/zebrafish-dns-queries.json'')) = Some ()"
  by (simp add: toml_str_def toml_read_simps load_toml_asserts_def doh_url_def)

definition test_load_from_file :: "toml_parser \<Rightarrow> fsys \<Rightarrow> unit option" where
  "test_load_from_file prs fs = do {
     config \<leftarrow> unwrap_ok (dns_load prs (lit ''config/zebrafish-dns.toml'') fs);
     assert_that (uc_provider (dn_upstream config) = lit ''cloudflare'');
     assert_that (map_of (uc_providers (dn_upstream config)) (lit ''cloudflare'') \<noteq> None);
     assert_that (map_of (uc_providers (dn_upstream config)) (lit ''google'') \<noteq> None);
     assert_that (map_of (uc_providers (dn_upstream config)) (lit ''quad9'') \<noteq> None) }"

text \<open>The configuration file of the package, \<^verbatim>\<open>config/zebrafish-dns.toml\<close>.\<close>

definition shipped_providers :: "(string \<times> string \<times> string list) list" where
  "shipped_providers = [
     (''cloudflare'', ''https://cloudflare-dns.com/dns-query'',
        [''1.1.1.1'', ''1.0.0.1'', ''2606:4700:4700::1111'', ''2606:4700:4700::1001'']),
     (''google'', ''https://dns.google/dns-query'',
        [''8.8.8.8'', ''8.8.4.4'', ''2001:4860:4860::8888'', ''2001:4860:4860::8844'']),
     (''quad9'', ''https://dns.quad9.net/dns-query'',
        [''9.9.9.9'', ''149.112.112.112'', ''2620:fe::fe'', ''2620:fe::9''])]"

definition shipped_toml :: toml_table where
  "shipped_toml = map (\<lambda>(k, v). (lit k, v)) [
     (''server'', ttab [(''listen_address'', tstr ''0.0.0.0''), (''listen_port'', TInteger 53),
        (''listen_address_v6'', tstr ''::''), (''workers'', TInteger 0)]),
     (''upstream'', ttab [(''provider'', tstr ''cloudflare''),
        (''providers'', ttab (map (\<lambda>(p, url, addrs). (p, ttab [(''url'', tstr url), (''bootstrap'', tstrs addrs)]))
           shipped_providers))]),
     (''cache'', ttab [(''max_entries'', TInteger 10000), (''min_ttl'', TInteger 60), (''max_ttl'', TInteger 86400)]),
     (''logging'', ttab [(''level'', tstr ''info'')]),
     (''query_log'', ttab [(''enabled'', TBoolean True), (''output'', tstr ''/logs/system/zebrafish-dns-queries.log'')])]"

text \<open>The shipped file is the built-in configuration with two more providers and a log of the queries.\<close>

definition shipped_config :: dns_config where
  "shipped_config = dns_default\<lparr>
     dn_upstream := (dn_upstream dns_default)\<lparr>
       uc_providers := map (\<lambda>(p, url, addrs). (lit p, \<lparr>pc_url = lit url, pc_bootstrap = map lit addrs\<rparr>)) shipped_providers\<rparr>,
     dn_query_log := \<lparr>qc_enabled = True, qc_output = Some (lit ''/logs/system/zebrafish-dns-queries.log'')\<rparr>\<rparr>"

lemma shipped_loads: "de_dns_config (TTable shipped_toml) = Some shipped_config"
  by (simp add: shipped_toml_def toml_read_simps shipped_providers_def shipped_config_def dns_default_def)

lemma load_from_file_passes:
  assumes "read_to_string fs (lit ''config/zebrafish-dns.toml'') = Ok content" and "prs content = Ok shipped_toml"
  shows "test_load_from_file prs fs = Some ()"
  using assms
  by (simp add: test_load_from_file_def dns_load_def shipped_loads ok_or_def shipped_config_def dns_default_def
      shipped_providers_def)

section \<open>Cache\<close>

text \<open>\<^verbatim>\<open>Query::new\<close> is a question of class \<^verbatim>\<open>IN\<close>, number 1.\<close>

definition make_query :: "dns_codec \<Rightarrow> string \<Rightarrow> u16 \<Rightarrow> message option" where
  "make_query dc name rtype = do {
     n \<leftarrow> name_from_utf8 dc (lit name);
     Some (new_message\<lparr>m_id := 1234, m_response := False, m_opcode := OPCODE_QUERY, m_rd := True,
       m_queries := [\<lparr>q_name = n, q_type = rtype, q_class = 1\<rparr>]\<rparr>) }"

definition make_response :: "dns_codec \<Rightarrow> message \<Rightarrow> u32 \<Rightarrow> u32 \<Rightarrow> bytes option" where
  "make_response dc query ip ttl = do {
     let resp = new_message\<lparr>m_id := m_id query, m_response := True, m_opcode := OPCODE_QUERY, m_rcode := 0,
                  m_rd := True, m_ra := True, m_queries := m_queries query\<rparr>;
     q \<leftarrow> nth_opt (m_queries query) 0;
     let record = \<lparr>r_name = q_name q, r_type = TYPE_A, r_ttl = ttl, r_data = RA ip\<rparr>;
     to_vec dc (resp\<lparr>m_answers := m_answers resp @ [record]\<rparr>) }"

definition Ipv4Addr_new :: "u8 \<Rightarrow> u8 \<Rightarrow> u8 \<Rightarrow> u8 \<Rightarrow> u32" where
  "Ipv4Addr_new a b c d = word_rcat [a, b, c, d]"

definition test_cache_miss_on_empty :: "dns_codec \<Rightarrow> 'l entry_lru \<Rightarrow> (nat \<Rightarrow> nat) \<Rightarrow> unit option" where
  "test_cache_miss_on_empty dc api t = do {
     let cache = cache_new api 100 60 86400;
     query \<leftarrow> make_query dc ''example.com.'' TYPE_A;
     assert_that (fst (cache_get dc api (t 0) query cache) = None) }"

definition test_cache_hit_after_put :: "dns_codec \<Rightarrow> 'l entry_lru \<Rightarrow> (nat \<Rightarrow> nat) \<Rightarrow> unit option" where
  "test_cache_hit_after_put dc api t = do {
     let cache = cache_new api 100 60 86400;
     query \<leftarrow> make_query dc ''example.com.'' TYPE_A;
     response \<leftarrow> make_response dc query (Ipv4Addr_new 1 2 3 4) 300;
     cache \<leftarrow> cache_put dc api (t 0) query response cache;
     let cached = fst (cache_get dc api (t 1) query cache);
     assert_that (cached \<noteq> None);
     bytes \<leftarrow> cached;
     msg \<leftarrow> unwrap_ok (from_vec dc bytes);
     assert_that (m_answers msg \<noteq> []) }"

definition test_cache_case_insensitive :: "dns_codec \<Rightarrow> 'l entry_lru \<Rightarrow> (nat \<Rightarrow> nat) \<Rightarrow> unit option" where
  "test_cache_case_insensitive dc api t = do {
     let cache = cache_new api 100 60 86400;
     query_lower \<leftarrow> make_query dc ''example.com.'' TYPE_A;
     query_upper \<leftarrow> make_query dc ''EXAMPLE.COM.'' TYPE_A;
     response \<leftarrow> make_response dc query_lower (Ipv4Addr_new 1 2 3 4) 300;
     cache \<leftarrow> cache_put dc api (t 0) query_lower response cache;
     assert_that (fst (cache_get dc api (t 1) query_upper cache) \<noteq> None) }"

definition test_cache_different_record_types_separate ::
  "dns_codec \<Rightarrow> 'l entry_lru \<Rightarrow> (nat \<Rightarrow> nat) \<Rightarrow> unit option" where
  "test_cache_different_record_types_separate dc api t = do {
     let cache = cache_new api 100 60 86400;
     query_a \<leftarrow> make_query dc ''example.com.'' TYPE_A;
     query_aaaa \<leftarrow> make_query dc ''example.com.'' TYPE_AAAA;
     response \<leftarrow> make_response dc query_a (Ipv4Addr_new 1 2 3 4) 300;
     cache \<leftarrow> cache_put dc api (t 0) query_a response cache;
     let (cached, cache) = cache_get dc api (t 1) query_a cache;
     assert_that (cached \<noteq> None);
     assert_that (fst (cache_get dc api (t 2) query_aaaa cache) = None) }"

definition test_cache_expiry :: "dns_codec \<Rightarrow> 'l entry_lru \<Rightarrow> (nat \<Rightarrow> nat) \<Rightarrow> unit option" where
  "test_cache_expiry dc api t = do {
     let cache = cache_new api 100 1 1;
     query \<leftarrow> make_query dc ''expire-test.com.'' TYPE_A;
     response \<leftarrow> make_response dc query (Ipv4Addr_new 10 0 0 1) 1;
     cache \<leftarrow> cache_put dc api (t 0) query response cache;
     let (cached, cache) = cache_get dc api (t 1) query cache;
     assert_that (cached \<noteq> None);
     assert_that (fst (cache_get dc api (t 2) query cache) = None) }"

definition test_cache_eviction_lru :: "dns_codec \<Rightarrow> 'l entry_lru \<Rightarrow> (nat \<Rightarrow> nat) \<Rightarrow> unit option" where
  "test_cache_eviction_lru dc api t = do {
     let cache = cache_new api 2 60 86400;
     q1 \<leftarrow> make_query dc ''one.com.'' TYPE_A;
     q2 \<leftarrow> make_query dc ''two.com.'' TYPE_A;
     q3 \<leftarrow> make_query dc ''three.com.'' TYPE_A;
     r1 \<leftarrow> make_response dc q1 (Ipv4Addr_new 1 0 0 1) 300;
     r2 \<leftarrow> make_response dc q2 (Ipv4Addr_new 2 0 0 1) 300;
     r3 \<leftarrow> make_response dc q3 (Ipv4Addr_new 3 0 0 1) 300;
     cache \<leftarrow> cache_put dc api (t 0) q1 r1 cache;
     cache \<leftarrow> cache_put dc api (t 1) q2 r2 cache;
     let (cached, cache) = cache_get dc api (t 2) q1 cache;
     assert_that (cached \<noteq> None);
     let (cached, cache) = cache_get dc api (t 3) q2 cache;
     assert_that (cached \<noteq> None);
     cache \<leftarrow> cache_put dc api (t 4) q3 r3 cache;
     let (cached, cache) = cache_get dc api (t 5) q1 cache;
     assert_that (cached = None);
     let (cached, cache) = cache_get dc api (t 6) q2 cache;
     assert_that (cached \<noteq> None);
     assert_that (fst (cache_get dc api (t 7) q3 cache) \<noteq> None) }"

definition test_cache_ttl_clamping :: "dns_codec \<Rightarrow> 'l entry_lru \<Rightarrow> (nat \<Rightarrow> nat) \<Rightarrow> unit option" where
  "test_cache_ttl_clamping dc api t = do {
     let cache = cache_new api 100 120 600;
     query \<leftarrow> make_query dc ''ttl-test.com.'' TYPE_A;
     response \<leftarrow> make_response dc query (Ipv4Addr_new 5 5 5 5) 10;
     cache \<leftarrow> cache_put dc api (t 0) query response cache;
     let cached = fst (cache_get dc api (t 1) query cache);
     assert_that (cached \<noteq> None);
     bytes \<leftarrow> cached;
     msg \<leftarrow> unwrap_ok (from_vec dc bytes);
     answer \<leftarrow> nth_opt (m_answers msg) 0;
     let answer_ttl = r_ttl answer;
     assert_that (answer_ttl \<le> 120) }"

definition test_cache_id_rewriting :: "dns_codec \<Rightarrow> 'l entry_lru \<Rightarrow> (nat \<Rightarrow> nat) \<Rightarrow> unit option" where
  "test_cache_id_rewriting dc api t = do {
     let cache = cache_new api 100 60 86400;
     query \<leftarrow> make_query dc ''id-test.com.'' TYPE_A;
     response \<leftarrow> make_response dc query (Ipv4Addr_new 1 1 1 1) 300;
     cache \<leftarrow> cache_put dc api (t 0) query response cache;
     query2 \<leftarrow> make_query dc ''id-test.com.'' TYPE_A;
     let query2 = query2\<lparr>m_id := 9999\<rparr>;
     assert_that (fst (cache_get dc api (t 1) query2 cache) \<noteq> None) }"

section \<open>The cache tests pass\<close>

lemma make_query_first:
  assumes "make_query dc name ty = Some q"
  shows "\<exists>n. name_from_utf8 dc (lit name) = Some n \<and> first_query q = Some \<lparr>q_name = n, q_type = ty, q_class = 1\<rparr>"
  using assms by (auto simp: make_query_def first_query_def nth_opt_def bind_eq_Some_conv)

lemma make_query_key: "make_query dc name ty = Some q \<Longrightarrow> \<exists>k. cache_key dc q = Some k"
  using make_query_first by (fastforce simp: cache_key_def)

lemma cache_key_set_id [simp]: "cache_key dc (q\<lparr>m_id := i\<rparr>) = cache_key dc q"
  by (simp add: cache_key_def first_query_def)

lemma make_query_keys_differ:
  assumes "make_query dc name ty = Some q" and "make_query dc name ty' = Some q'" and "ty \<noteq> ty'"
  shows "cache_key dc q' \<noteq> cache_key dc q"
  using make_query_first [OF assms(1)] make_query_first [OF assms(2)] assms(3) by (auto simp: cache_key_def)

lemma make_response_decodes:
  assumes "\<And>m b. to_vec dc m = Some b \<Longrightarrow> from_vec dc b = Ok m" and "make_response dc q ip ttl = Some b"
  obtains m r where "from_vec dc b = Ok m" "m_answers m = [r]" "r_ttl r = ttl" "r_type r = TYPE_A" "m_additionals m = []"
  using assms(2) that by (auto simp: make_response_def new_message_def bind_eq_Some_conv dest!: assms(1))

lemma adjust_ttls_decodes:
  assumes "\<And>m b. to_vec dc m = Some b \<Longrightarrow> from_vec dc b = Ok m" and "from_vec dc b = Ok m"
  shows "\<exists>m'. from_vec dc (adjust_ttls dc b x) = Ok m' \<and>
    (m' = m \<or> m' = m\<lparr>m_answers := map (\<lambda>r. r\<lparr>r_ttl := x\<rparr>) (m_answers m)\<rparr>)"
  using assms(2) by (auto simp: adjust_ttls_def dest: assms(1) split: option.split)

context entry_cache
begin

lemma put_new_Some: "lo \<le> hi \<Longrightarrow> \<exists>c. cache_put dc api t q resp (cache_new api m lo hi) = Some c"
  by (auto simp: cache_put_def cache_new_def clamp_def split: option.split)

lemma put_new_entry:
  assumes "cache_put dc api t0 q resp (cache_new api m lo hi) = Some c" and "cache_key dc q = Some k"
  obtains ttl where "clamp lo hi (extract_min_ttl dc (cache_new api m lo hi) resp) = Some ttl"
    "view (dc_cache c) = [k \<mapsto> \<lparr>e_response = resp, e_inserted_at = t0, e_ttl = unat ttl * nanos_per_sec\<rparr>]"
    "inv (dc_cache c)" "\<not> dc_poisoned c"
proof -
  have "inv (dc_cache (cache_new api m lo hi))" by (simp add: cache_new_def inv_new)
  from this assms(1) show ?thesis
  proof (cases rule: cache_put_cases)
    case unchanged
    with assms(2) show ?thesis by (simp add: cache_new_def)
  next
    case (stored j l e ttl)
    have "view l i = None" if "i \<noteq> k" for i
      using stored(10) [of i] stored(1) that assms(2) by (simp add: cache_new_def view_new)
    then have "view l = [k \<mapsto> e]" using stored(1,9) assms(2) by (auto simp: fun_eq_iff)
    with stored that show ?thesis by (auto simp: cache_new_def)
  qed
qed

lemma get_after_put:
  assumes "view (dc_cache c) = [k \<mapsto> e]" and "inv (dc_cache c)" and "\<not> dc_poisoned c"
    and "cache_key dc q = Some k" and "t - e_inserted_at e < e_ttl e"
  obtains c' where "cache_get dc api t q c = (Some (served dc t e), c')" "view (dc_cache c') = [k \<mapsto> e]"
    "inv (dc_cache c')" "\<not> dc_poisoned c'"
proof -
  obtain r c' where get: "cache_get dc api t q c = (r, c')" by (cases "cache_get dc api t q c")
  from assms(2) get show ?thesis
    by (cases rule: cache_get_cases) (use assms get that in auto)
qed

lemma get_miss:
  assumes "inv (dc_cache c)" and "cache_key dc q = Some k"
    and "\<And>e. view (dc_cache c) k = Some e \<Longrightarrow> e_ttl e \<le> t - e_inserted_at e"
  shows "fst (cache_get dc api t q c) = None"
proof -
  obtain r c' where get: "cache_get dc api t q c = (r, c')" by (cases "cache_get dc api t q c")
  from assms(1) get have "r = None"
    by (cases rule: cache_get_cases) (use assms in fastforce)+
  with get show ?thesis by simp
qed

text \<open>A store into a new cache and a lookup within the minimal lifetime.\<close>

lemma put_get_new:
  assumes "lo \<le> hi" and "cache_key dc q = Some k" and "cache_key dc q' = Some k"
    and "t1 - t0 < unat lo * nanos_per_sec"
  obtains c ttl x c' where "cache_put dc api t0 q resp (cache_new api m lo hi) = Some c"
    "clamp lo hi (extract_min_ttl dc (cache_new api m lo hi) resp) = Some ttl"
    "cache_get dc api t1 q' c = (Some (adjust_ttls dc resp x), c')" "x \<le> ttl"
    "view (dc_cache c') = [k \<mapsto> \<lparr>e_response = resp, e_inserted_at = t0, e_ttl = unat ttl * nanos_per_sec\<rparr>]"
    "inv (dc_cache c')"
proof -
  obtain c where put: "cache_put dc api t0 q resp (cache_new api m lo hi) = Some c"
    using put_new_Some [OF assms(1)] by blast
  obtain ttl where e: "clamp lo hi (extract_min_ttl dc (cache_new api m lo hi) resp) = Some ttl"
    "view (dc_cache c) = [k \<mapsto> \<lparr>e_response = resp, e_inserted_at = t0, e_ttl = unat ttl * nanos_per_sec\<rparr>]"
    "inv (dc_cache c)" "\<not> dc_poisoned c"
    using put_new_entry [OF put assms(2)] .
  have "unat lo * nanos_per_sec \<le> unat ttl * nanos_per_sec"
    using clamp_bounds [OF e(1)] by (simp add: word_le_nat_alt)
  with assms(4) have fresh: "t1 - t0 < unat ttl * nanos_per_sec" by (rule less_le_trans)
  obtain c' where c': "cache_get dc api t1 q' c = (Some (served dc t1 \<lparr>e_response = resp, e_inserted_at = t0,
      e_ttl = unat ttl * nanos_per_sec\<rparr>), c')"
    "view (dc_cache c') = [k \<mapsto> \<lparr>e_response = resp, e_inserted_at = t0, e_ttl = unat ttl * nanos_per_sec\<rparr>]"
    "inv (dc_cache c')"
    by (rule get_after_put [OF e(2-4) assms(3), of t1]) (use fresh in auto)
  have "(unat ttl * nanos_per_sec - (t1 - t0)) div nanos_per_sec \<le> unat ttl"
    using div_le_mono [of "unat ttl * nanos_per_sec - (t1 - t0)" "unat ttl * nanos_per_sec" nanos_per_sec]
      nanos_per_sec_pos by simp
  then have "word_of_nat ((unat ttl * nanos_per_sec - (t1 - t0)) div nanos_per_sec) \<le> ttl"
    using u32_bound [of ttl] by (simp add: word_le_nat_alt unat_of_nat)
  with put e(1) c' that show ?thesis by (simp add: served_def)
qed

lemma miss_on_empty_passes:
  assumes "make_query dc ''example.com.'' TYPE_A = Some q"
  shows "test_cache_miss_on_empty dc api t = Some ()"
proof -
  have "fst (cache_get dc api (t 0) q (cache_new api 100 60 86400)) = None"
    using make_query_key [OF assms] by (auto intro!: get_miss simp: cache_new_def inv_new view_new)
  with assms show ?thesis by (simp add: test_cache_miss_on_empty_def)
qed

lemma hit_after_put_passes:
  assumes "\<And>m b. to_vec dc m = Some b \<Longrightarrow> from_vec dc b = Ok m"
    and "make_query dc ''example.com.'' TYPE_A = Some q" and "make_response dc q (Ipv4Addr_new 1 2 3 4) 300 = Some b"
    and "t 1 - t 0 < 60 * nanos_per_sec"
  shows "test_cache_hit_after_put dc api t = Some ()"
proof -
  obtain k where k: "cache_key dc q = Some k"
    using make_query_key [OF assms(2)] by blast
  obtain c x c' where run: "cache_put dc api (t 0) q b (cache_new api 100 60 86400) = Some c"
    "cache_get dc api (t 1) q c = (Some (adjust_ttls dc b x), c')"
    by (rule put_get_new [of 60 86400 dc q k q "t 1" "t 0" b 100]) (use k assms(4) in auto)
  obtain m r where m: "from_vec dc b = Ok m" "m_answers m = [r]" by (rule make_response_decodes [OF assms(1,3)])
  with adjust_ttls_decodes [OF assms(1) m(1), of x] obtain m' where
    "from_vec dc (adjust_ttls dc b x) = Ok m'" "m_answers m' \<noteq> []" by auto
  with run assms(2,3) show ?thesis by (simp add: test_cache_hit_after_put_def)
qed

lemma case_insensitive_passes:
  assumes "make_query dc ''example.com.'' TYPE_A = Some q" and "make_query dc ''EXAMPLE.COM.'' TYPE_A = Some q'"
    and "cache_key dc q' = cache_key dc q"
    and "make_response dc q (Ipv4Addr_new 1 2 3 4) 300 = Some b" and "t 1 - t 0 < 60 * nanos_per_sec"
  shows "test_cache_case_insensitive dc api t = Some ()"
proof -
  obtain k where k: "cache_key dc q = Some k"
    using make_query_key [OF assms(1)] by blast
  obtain c x c' where run: "cache_put dc api (t 0) q b (cache_new api 100 60 86400) = Some c"
    "cache_get dc api (t 1) q' c = (Some (adjust_ttls dc b x), c')"
    by (rule put_get_new [of 60 86400 dc q k q' "t 1" "t 0" b 100]) (use k assms(3,5) in auto)
  with assms show ?thesis by (simp add: test_cache_case_insensitive_def)
qed

lemma different_record_types_separate_passes:
  assumes "make_query dc ''example.com.'' TYPE_A = Some q" and "make_query dc ''example.com.'' TYPE_AAAA = Some q'"
    and "make_response dc q (Ipv4Addr_new 1 2 3 4) 300 = Some b" and "t 1 - t 0 < 60 * nanos_per_sec"
  shows "test_cache_different_record_types_separate dc api t = Some ()"
proof -
  obtain k k' where k: "cache_key dc q = Some k" "cache_key dc q' = Some k'" "k' \<noteq> k"
    using make_query_key [OF assms(1)] make_query_key [OF assms(2)] make_query_keys_differ [OF assms(1,2)]
    by (auto simp: TYPE_A_def TYPE_AAAA_def)
  obtain c ttl x c' where run: "cache_put dc api (t 0) q b (cache_new api 100 60 86400) = Some c"
    "clamp 60 86400 (extract_min_ttl dc (cache_new api 100 60 86400) b) = Some ttl"
    "cache_get dc api (t 1) q c = (Some (adjust_ttls dc b x), c')"
    "view (dc_cache c') = [k \<mapsto> \<lparr>e_response = b, e_inserted_at = t 0, e_ttl = unat ttl * nanos_per_sec\<rparr>]"
    "inv (dc_cache c')"
    by (rule put_get_new [of 60 86400 dc q k q "t 1" "t 0" b 100]) (use k assms(4) in auto)
  have "fst (cache_get dc api (t 2) q' c') = None"
    using run(4,5) k by (intro get_miss) auto
  with run assms show ?thesis by (simp add: test_cache_different_record_types_separate_def)
qed

lemma expiry_passes:
  assumes "make_query dc ''expire-test.com.'' TYPE_A = Some q" and "make_response dc q (Ipv4Addr_new 10 0 0 1) 1 = Some b"
    and "t 1 - t 0 < nanos_per_sec" and "t 0 \<le> t 1" and "t 1 + 1100 * 10 ^ 6 \<le> t 2"
  shows "test_cache_expiry dc api t = Some ()"
proof -
  obtain k where k: "cache_key dc q = Some k"
    using make_query_key [OF assms(1)] by blast
  obtain c ttl x c' where run: "cache_put dc api (t 0) q b (cache_new api 100 1 1) = Some c"
    "clamp 1 1 (extract_min_ttl dc (cache_new api 100 1 1) b) = Some ttl"
    "cache_get dc api (t 1) q c = (Some (adjust_ttls dc b x), c')"
    "view (dc_cache c') = [k \<mapsto> \<lparr>e_response = b, e_inserted_at = t 0, e_ttl = unat ttl * nanos_per_sec\<rparr>]"
    "inv (dc_cache c')"
    by (rule put_get_new [of 1 1 dc q k q "t 1" "t 0" b 100]) (use k assms(3) in auto)
  have "ttl = 1" using clamp_bounds [OF run(2)] by (simp add: antisym)
  then have "fst (cache_get dc api (t 2) q c') = None"
    using run(4,5) k assms(4,5) by (intro get_miss) (auto simp: nanos_per_sec_def)
  with run assms show ?thesis by (simp add: test_cache_expiry_def)
qed

lemma ttl_clamping_passes:
  assumes "\<And>m b. to_vec dc m = Some b \<Longrightarrow> from_vec dc b = Ok m"
    and "make_query dc ''ttl-test.com.'' TYPE_A = Some q" and "make_response dc q (Ipv4Addr_new 5 5 5 5) 10 = Some b"
    and "t 1 - t 0 < 120 * nanos_per_sec"
  shows "test_cache_ttl_clamping dc api t = Some ()"
proof -
  obtain k where k: "cache_key dc q = Some k"
    using make_query_key [OF assms(2)] by blast
  obtain c ttl x c' where run: "cache_put dc api (t 0) q b (cache_new api 100 120 600) = Some c"
    "clamp 120 600 (extract_min_ttl dc (cache_new api 100 120 600) b) = Some ttl"
    "cache_get dc api (t 1) q c = (Some (adjust_ttls dc b x), c')" "x \<le> ttl"
    by (rule put_get_new [of 120 600 dc q k q "t 1" "t 0" b 100]) (use k assms(4) in auto)
  obtain m r where m: "from_vec dc b = Ok m" "m_answers m = [r]" "r_ttl r = 10" "m_additionals m = []"
    by (rule make_response_decodes [OF assms(1,3)])
  have "ttl = 120" using run(2) m by (simp add: extract_min_ttl_def cache_new_def clamp_def min_def split: if_split_asm)
  with run(4) m(3) have "x \<le> 120" "r_ttl r \<le> 120" by simp_all
  with adjust_ttls_decodes [OF assms(1) m(1), of x] m(2) obtain m' r' where
    "from_vec dc (adjust_ttls dc b x) = Ok m'" "nth_opt (m_answers m') 0 = Some r'" "r_ttl r' \<le> 120"
    by (fastforce simp: nth_opt_def)
  with run assms(2,3) show ?thesis by (simp add: test_cache_ttl_clamping_def)
qed

lemma id_rewriting_passes:
  assumes "make_query dc ''id-test.com.'' TYPE_A = Some q" and "make_response dc q (Ipv4Addr_new 1 1 1 1) 300 = Some b"
    and "t 1 - t 0 < 60 * nanos_per_sec"
  shows "test_cache_id_rewriting dc api t = Some ()"
proof -
  obtain k where k: "cache_key dc q = Some k" using make_query_key [OF assms(1)] by blast
  obtain c x c' where run: "cache_put dc api (t 0) q b (cache_new api 100 60 86400) = Some c"
    "cache_get dc api (t 1) (q\<lparr>m_id := 9999\<rparr>) c = (Some (adjust_ttls dc b x), c')"
    by (rule put_get_new [of 60 86400 dc q k "q\<lparr>m_id := 9999\<rparr>" "t 1" "t 0" b 100]) (use k assms(3) in auto)
  with assms show ?thesis by (simp add: test_cache_id_rewriting_def)
qed

end

text \<open>
  The order of eviction, on the list in order of use. Names that differ in text get different keys;
  the whole test takes less than a minute.
\<close>

lemma put_list:
  assumes "cache_key dc q = Some k" and "\<not> dc_poisoned c" and "dc_min_ttl c = 60" and "dc_max_ttl c = 86400"
  obtains ttl where "cache_put dc ul_api now q b c =
      Some (c\<lparr>dc_cache := ul_put (dc_cache c) k \<lparr>e_response = b, e_inserted_at = now, e_ttl = unat ttl * nanos_per_sec\<rparr>\<rparr>)"
    "60 \<le> (ttl :: u32)"
proof -
  obtain ttl where ttl: "clamp 60 86400 (extract_min_ttl dc c b) = Some ttl" by (auto simp: clamp_def)
  show ?thesis
    by (rule that [of ttl]) (use ttl clamp_bounds [OF ttl] assms in \<open>simp_all add: cache_put_def\<close>)
qed

lemma get_list:
  assumes "cache_key dc q = Some k" and "\<not> dc_poisoned c" and "map_of (snd (dc_cache c)) k = Some e"
    and "e_ttl e = unat ttl * nanos_per_sec" and "60 \<le> (ttl :: u32)" and "now - e_inserted_at e < 60 * nanos_per_sec"
  shows "cache_get dc ul_api now q c =
    (Some (served dc now e), c\<lparr>dc_cache := (fst (dc_cache c), (k, e) # AList.delete k (snd (dc_cache c)))\<rparr>)"
proof -
  have "60 * nanos_per_sec \<le> unat ttl * nanos_per_sec"
    using assms(5) by (intro mult_le_mono1) (simp add: word_le_nat_alt)
  with assms(6) have "now - e_inserted_at e < unat ttl * nanos_per_sec" by (rule less_le_trans)
  with assms(4) have "\<not> e_ttl e \<le> now - e_inserted_at e" by (simp only: not_le)
  with assms(1-3) show ?thesis by (simp add: cache_get_def ul_get_def served_def)
qed

lemma eviction_lru_passes:
  assumes q: "make_query dc ''one.com.'' TYPE_A = Some q1" "make_query dc ''two.com.'' TYPE_A = Some q2"
      "make_query dc ''three.com.'' TYPE_A = Some q3"
    and r: "make_response dc q1 (Ipv4Addr_new 1 0 0 1) 300 = Some r1"
      "make_response dc q2 (Ipv4Addr_new 2 0 0 1) 300 = Some r2" "make_response dc q3 (Ipv4Addr_new 3 0 0 1) 300 = Some r3"
    and differ: "distinct [cache_key dc q1, cache_key dc q2, cache_key dc q3]"
    and quick: "\<And>i j. t i - t j < 60 * nanos_per_sec"
  shows "test_cache_eviction_lru dc ul_api t = Some ()"
proof -
  let ?c0 = "cache_new ul_api 2 60 86400 :: (bytes, cache_entry) use_list dns_cache"
  let ?e = "\<lambda>b i ttl. \<lparr>e_response = b, e_inserted_at = t i, e_ttl = unat (ttl :: u32) * nanos_per_sec\<rparr>"
  obtain k1 k2 k3 where k: "cache_key dc q1 = Some k1" "cache_key dc q2 = Some k2" "cache_key dc q3 = Some k3"
    using make_query_key [OF q(1)] make_query_key [OF q(2)] make_query_key [OF q(3)] by blast
  then have ne: "k1 \<noteq> k2" "k1 \<noteq> k3" "k2 \<noteq> k3" "k2 \<noteq> k1" "k3 \<noteq> k1" "k3 \<noteq> k2" using differ by auto
  have c0: "dc_cache ?c0 = (2, [])" "\<not> dc_poisoned ?c0" "dc_min_ttl ?c0 = 60" "dc_max_ttl ?c0 = 86400"
    by (simp_all add: cache_new_def)
  obtain x1 where p1: "cache_put dc ul_api (t 0) q1 r1 ?c0 = Some (?c0\<lparr>dc_cache := (2, [(k1, ?e r1 0 x1)])\<rparr>)" "60 \<le> x1"
    by (rule put_list [OF k(1) c0(2-4), of "t 0" r1]) (simp add: c0 ul_put_def)
  let ?c1 = "?c0\<lparr>dc_cache := (2, [(k1, ?e r1 0 x1)])\<rparr>"
  obtain x2 where p2: "cache_put dc ul_api (t 1) q2 r2 ?c1 =
      Some (?c0\<lparr>dc_cache := (2, [(k2, ?e r2 1 x2), (k1, ?e r1 0 x1)])\<rparr>)" "60 \<le> x2"
    by (rule put_list [OF k(2), of ?c1 "t 1" r2]) (simp_all add: c0 ul_put_def ne)
  let ?c2 = "?c0\<lparr>dc_cache := (2, [(k2, ?e r2 1 x2), (k1, ?e r1 0 x1)])\<rparr>"
  let ?c3 = "?c0\<lparr>dc_cache := (2, [(k1, ?e r1 0 x1), (k2, ?e r2 1 x2)])\<rparr>"
  have g1: "cache_get dc ul_api (t 2) q1 ?c2 = (Some (served dc (t 2) (?e r1 0 x1)), ?c3)"
    by (subst get_list [OF k(1) _ _ _ p1(2)]) (simp_all add: c0 ne quick)
  have g2: "cache_get dc ul_api (t 3) q2 ?c3 = (Some (served dc (t 3) (?e r2 1 x2)), ?c2)"
    by (subst get_list [OF k(2) _ _ _ p2(2)]) (simp_all add: c0 ne quick)
  obtain x3 where p3: "cache_put dc ul_api (t 4) q3 r3 ?c2 =
      Some (?c0\<lparr>dc_cache := (2, [(k3, ?e r3 4 x3), (k2, ?e r2 1 x2)])\<rparr>)" "60 \<le> x3"
    by (rule put_list [OF k(3), of ?c2 "t 4" r3]) (simp_all add: c0 ul_put_def ne)
  let ?c4 = "?c0\<lparr>dc_cache := (2, [(k3, ?e r3 4 x3), (k2, ?e r2 1 x2)])\<rparr>"
  let ?c5 = "?c0\<lparr>dc_cache := (2, [(k2, ?e r2 1 x2), (k3, ?e r3 4 x3)])\<rparr>"
  have g3: "cache_get dc ul_api (t 5) q1 ?c4 = (None, ?c4)"
    by (simp add: cache_get_def k c0 ul_get_def ne)
  have g4: "cache_get dc ul_api (t 6) q2 ?c4 = (Some (served dc (t 6) (?e r2 1 x2)), ?c5)"
    by (subst get_list [OF k(2) _ _ _ p2(2)]) (simp_all add: c0 ne quick)
  have g5: "fst (cache_get dc ul_api (t 7) q3 ?c5) = Some (served dc (t 7) (?e r3 4 x3))"
    by (subst get_list [OF k(3) _ _ _ p3(2)]) (simp_all add: c0 ne quick)
  show ?thesis
    unfolding test_cache_eviction_lru_def
    by (simp only: q r p1 p2 g1 g2 p3 g3 g4 g5 bind.bind_lunit Let_def prod.case option.distinct not_False_eq_True
        simp_thms assert_that_simps)
qed

end
