(* ===== verification/Spec2Isabelle.thy ===== *)
theory Spec2Isabelle
  imports Session Writers Config_Main Dns_Main Name_Chain Dns_Tests
begin

text \<open>
  Verification of the two Rust programs of Zebrafish: the configuration tool
  \<^verbatim>\<open>zebrafish-config\<close> (\<^verbatim>\<open>src/package/zebrafish-config/src\<close>) and the DNS forwarder \<^verbatim>\<open>zebrafish-dns\<close> with its name service
  module (\<^verbatim>\<open>src/package/zebrafish-dns/src\<close>).

  \<^bold>\<open>The programs.\<close> The configuration tool edits two TOML files, \<^verbatim>\<open>/etc/zebrafish.toml\<close> for the system and
  one on the EFI partition for the section \<^verbatim>\<open>[machine]\<close>. A command parses its key path, finds the file,
  loads it, edits or reads it and, when it writes, replaces the file atomically. The forwarder
  answers DNS queries that arrive over UDP and TCP from a cache or from an upstream server reached over HTTPS, and
  logs them; the name service module answers lookups of the C library through the forwarder.

  \<^bold>\<open>Common ground.\<close> \<^verbatim>\<open>Prelude\<close>: types of text, bytes and results, generic lemmas. \<^verbatim>\<open>Rust_Str\<close>, \<^verbatim>\<open>Rust_Utf8\<close>: the functions
  of Rust's standard library on strings and their bytes. \<^verbatim>\<open>Rust_Path\<close>, \<^verbatim>\<open>Rust_Fs\<close>: path operations and a file
  system with faults for every call. \<^verbatim>\<open>C_Memory\<close>: the byte memory of a C caller. Rust's \<^verbatim>\<open>Result\<close> is a sum,
  \<^verbatim>\<open>Option\<close> an option, unsigned integers are words where they can wrap, a panic under \<^verbatim>\<open>panic = "abort"\<close> is
  the missing result \<open>None\<close>.

  \<^bold>\<open>The configuration tool.\<close>
  \<^item> \<^verbatim>\<open>Key_Path\<close> (\<^verbatim>\<open>path.rs\<close>): the scanner \<open>parse\<close> against the grammar of key paths; the walk of a path through a value.
  \<^item> \<^verbatim>\<open>Toml_Value\<close>, \<^verbatim>\<open>Toml_Edit\<close>, \<^verbatim>\<open>Toml_Text\<close>: the interfaces of the crates \<^verbatim>\<open>toml\<close> and \<^verbatim>\<open>toml_edit\<close>, as records of functions with
    their documented laws in the locales \<open>toml_edit_api\<close> and \<open>toml_text\<close>, interpreted on a document model.
  \<^item> \<^verbatim>\<open>Cmd_Write\<close> (\<^verbatim>\<open>set.rs\<close>, \<^verbatim>\<open>remove.rs\<close>, \<^verbatim>\<open>add.rs\<close>): the edits; what they change and what they leave alone.
  \<^item> \<^verbatim>\<open>Store\<close> (\<^verbatim>\<open>store.rs\<close>): the target file and its replacement; crash safety as an invariant of the step
    relation \<open>write_step\<close>, and the function \<open>write_document\<close> as a run of that relation.
  \<^item> \<^verbatim>\<open>Cfg_Types\<close> (\<^verbatim>\<open>cli.rs\<close>), \<^verbatim>\<open>Efi\<close> (\<^verbatim>\<open>efi.rs\<close>): arguments and errors; discovery of the EFI partition, whose search loop
    is a terminating recursion on the finite file system; what it finds is stated over the tree of directories
    (\<open>descends\<close>), what it may change over \<open>mount_effect\<close>.
  \<^item> \<^verbatim>\<open>Cmd_Run\<close>: the write commands from arguments to exit code, as transactions on one file.
  \<^item> \<^verbatim>\<open>Schema\<close> (\<^verbatim>\<open>schema.rs\<close>): every structure with the reader and writer that its serde attributes derive; locale
    \<open>serde_codec\<close>, interpreted for each structure. \<^verbatim>\<open>Load\<close> (\<^verbatim>\<open>load.rs\<close>): the two files merged.
  \<^item> \<^verbatim>\<open>Cmd_Read\<close> (\<^verbatim>\<open>get.rs\<close>, \<^verbatim>\<open>validate.rs\<close>, \<^verbatim>\<open>path.rs\<close>), \<^verbatim>\<open>Cmd_List\<close> (\<^verbatim>\<open>list.rs\<close>): the reading commands; the shell output
    is evaluated by a model of the shell's word syntax, with the special characters of the POSIX standard (\<open>sh_special\<close>).
  \<^item> \<^verbatim>\<open>Config_Main\<close> (\<^verbatim>\<open>main.rs\<close>, \<^verbatim>\<open>edit.rs\<close>): dispatch; reading commands change nothing but what mounting the EFI partition
    changes, and report what the configuration files determine.
  \<^item> \<^verbatim>\<open>Writers\<close> (\<^verbatim>\<open>store.rs\<close>): several processes that write at the same time, as a step relation over inodes. Writers with
    temporary files of their own do not disturb one another (locale \<open>separate_writer\<close>); two writers of the same file can.
  \<^item> \<^verbatim>\<open>Set_Get\<close>: \<^verbatim>\<open>get\<close> prints what \<^verbatim>\<open>set\<close> wrote, over parser, edit, file system, reader and printer; locales
    \<open>struct_codec\<close> and \<open>scalar_codec\<close> carry it through the structures.
  \<^item> \<^verbatim>\<open>Session\<close>: any sequence of commands on one file refines a partial map from key paths to values (locale
    \<open>toml_file\<close>): what the map binds, the file holds and \<^verbatim>\<open>get\<close> prints.

  \<^bold>\<open>The forwarder.\<close>
  \<^item> \<^verbatim>\<open>Dns_Msg\<close>: messages as the program sees them through \<^verbatim>\<open>hickory-proto\<close>, whose codec is a record of functions.
  \<^item> \<^verbatim>\<open>Lru\<close>: the interface of the \<^verbatim>\<open>lru\<close> crate (locale \<open>lru_cache\<close>), interpreted on a recency list.
  \<^item> \<^verbatim>\<open>Dns_Cache\<close> (\<^verbatim>\<open>cache.rs\<close>): the response cache; histories of stores and lookups (\<open>cache_reach\<close>), provenance and
    lifetimes against the specification \<open>response_lifetime\<close>, proved in the locale \<open>entry_cache\<close>; an entry stays for the
    minimal lifetime while the keys in use fit the capacity (\<open>run_ops\<close>).
  \<^item> \<^verbatim>\<open>Doh\<close> (\<^verbatim>\<open>doh.rs\<close>): bootstrap connector, client and resolver; the resolver is split at the exchange with the upstream
    server, where other tasks run.
  \<^item> \<^verbatim>\<open>Calendar\<close>, \<^verbatim>\<open>Query_Log\<close> (\<^verbatim>\<open>query_log.rs\<close>): time stamps against the Gregorian calendar; the log file.
  \<^item> \<^verbatim>\<open>Dns_Server\<close> (\<^verbatim>\<open>server.rs\<close>): listeners, datagram loop, connection loop with framing, failure messages.
  \<^item> \<^verbatim>\<open>Server_Steps\<close> (\<^verbatim>\<open>server.rs\<close>): the tasks of the server as a step relation \<open>srv_step\<close> on the shared cache and log. Every
    interleaving gives each client an answer of its own; every complete run finishes what has arrived
    (\<open>must_drain\<close>), and a task that runs alone does what \<open>handle_tcp\<close> computes. The client has no timeout: that an exchange with
    the upstream server ends is assumed, and one that never ends is a task that is never scheduled again.
  \<^item> \<^verbatim>\<open>Server_Log\<close>: over all interleavings, the log file grows by whole lines, one for each answer.
  \<^item> \<^verbatim>\<open>Dns_Config\<close> (\<^verbatim>\<open>config.rs\<close>), \<^verbatim>\<open>Dns_Main\<close> (\<^verbatim>\<open>main.rs\<close>): configuration with defaults; the daemon that is built from it, and
    that it keeps to its configuration in every state it reaches.
  \<^item> \<^verbatim>\<open>Nss\<close> (\<^verbatim>\<open>nss.rs\<close>): the C entry points, with the layout of every structure they store.
  \<^item> \<^verbatim>\<open>Name_Chain\<close>: the module and the forwarder together, with all the tasks of the forwarder; the addresses in the
    memory of the calling program are the upstream server's. The locale \<open>dns_format\<close> extends \<open>dns_wire\<close> with what the
    chain needs of the wire format: bytes after a message are ignored, an encoding has none, the identifier is its
    first two bytes, a plain question is decoded as encoded, and rewriting lifetimes keeps the answers of a short message.

  \<^bold>\<open>Unit tests.\<close> \<^verbatim>\<open>Config_Tests\<close>, \<^verbatim>\<open>Dns_Tests\<close>: the unit tests of the two programs as computations over the definitions. All
  of them pass but one, whose expectation contradicts its own input. They tie the definitions
  to the expectations of the repository.

  \<^bold>\<open>Loops.\<close> No fuel is used. Every loop is a recursion with a termination proof: over the text, the list of
  events or the bytes still to be read. The server's endless loops are recursions over the events
  that have happened, and in the step relation a task takes a step for each of them.

  \<^bold>\<open>Not modelled.\<close> The clap parser, the TOML, JSON, HTTP and TLS libraries, sockets and timers are parameters;
  error texts are reduced to constructors; tracing output is left out. The polling of futures is
  left to the step relation. The shell scripts, init scripts, kernel and buildroot configurations
  of the system image are not Rust code; the integration tests start the built programs.
\<close>

end
